(* ===== verification/Prelude.thy ===== *)
theory Prelude
  imports Main "HOL-Library.Word" "HOL-Library.AList"
begin

unbundle bit_operations_syntax

text \<open>
  Shared vocabulary of the development: the machine integers and byte strings of the Rust
  sources, big-endian integer encodings (\<open>to_be_bytes\<close>, \<open>from_be_bytes\<close>), the error
  monad that models \<open>Result\<close> and the \<open>?\<close> operator, and the two map types of the
  standard library that the program uses. A \<open>BTreeMap\<close> is a strictly sorted association
  list, so that iteration visits the keys in order; a \<open>HashMap\<close> is an association list
  with distinct keys whose order stands for the unspecified iteration order. Both are
  interpretations of the locale \<open>finite_map\<close>, which carries the generic map lemmas.

  Integer arithmetic wraps around, as in the release profile of Cargo.toml (overflow checks
  are off there). An \<open>Instant\<close> is a natural number of nanoseconds and
  \<open>duration_since\<close> saturates at zero, as the standard library documents.
\<close>

section \<open>Types\<close>

type_synonym u8 = "8 word"
type_synonym u16 = "16 word"
type_synonym u32 = "32 word"
type_synonym u64 = "64 word"
type_synonym bytes = "u8 list"
type_synonym instant = nat
type_synonym waker = nat

text \<open>
  \<open>SocketAddr\<close> of the standard library: an IPv4 address and port, or an IPv6 address with
  port, flow information and scope identifier.
\<close>

datatype sock_addr = V4 u32 u16 | V6 "128 word" u16 u32 u32

fun is_ipv6 :: "sock_addr \<Rightarrow> bool" where
  "is_ipv6 (V4 _ _) = False"
| "is_ipv6 (V6 _ _ _ _) = True"

fun sa_port :: "sock_addr \<Rightarrow> u16" where
  "sa_port (V4 _ p) = p"
| "sa_port (V6 _ p _ _) = p"

named_theorems map_laws \<open>what a lookup returns after an update of a map\<close>
named_theorems map_invs \<open>well-formedness of maps, kept by every operation\<close>
named_theorems wire_simps \<open>lengths and round trips of encoded data\<close>

section \<open>Durations\<close>

definition millis :: "nat \<Rightarrow> nat" where
  "millis n = n * 1000000"

definition secs :: "nat \<Rightarrow> nat" where
  "secs n = n * 1000000000"

definition duration_since :: "instant \<Rightarrow> instant \<Rightarrow> nat" where
  "duration_since now before = now - before"

section \<open>Results\<close>

text \<open>\<open>res_bind\<close> is the \<open>?\<close> operator: an error leaves the function at once.\<close>

definition res_bind :: "'e + 'a \<Rightarrow> ('a \<Rightarrow> 'e + 'b) \<Rightarrow> 'e + 'b" where
  "res_bind r f = (case r of Inl e \<Rightarrow> Inl e | Inr x \<Rightarrow> f x)"

lemma res_bind_simps [simp]:
  "res_bind (Inl e) f = Inl e"
  "res_bind (Inr x) f = f x"
  by (simp_all add: res_bind_def)

lemma res_bind_eq_Inr:
  "res_bind r f = Inr y \<longleftrightarrow> (\<exists>x. r = Inr x \<and> f x = Inr y)"
  by (cases r) simp_all

lemma res_bind_assoc: "res_bind (res_bind r f) g = res_bind r (\<lambda>x. res_bind (f x) g)"
  by (cases r) simp_all

section \<open>Big-endian integers\<close>

fun to_be :: "nat \<Rightarrow> nat \<Rightarrow> bytes" where
  "to_be 0 x = []"
| "to_be (Suc n) x = to_be n (x div 256) @ [of_nat x]"

definition from_be :: "bytes \<Rightarrow> nat" where
  "from_be bs = foldl (\<lambda>a b. a * 256 + unat b) 0 bs"

lemma length_to_be [simp, wire_simps]: "length (to_be n x) = n"
  by (induction n arbitrary: x) simp_all

lemma from_be_Nil [simp]: "from_be [] = 0"
  by (simp add: from_be_def)

lemma from_be_snoc [simp]: "from_be (bs @ [b]) = from_be bs * 256 + unat b"
  by (simp add: from_be_def)

lemma unat_of_nat_u8: "unat (of_nat x :: u8) = x mod 256"
  by (simp add: unat_of_nat)

lemma unat_u8_less: "unat (b :: u8) < 256"
  using unsigned_less [where 'a = nat, of b] by simp

lemma of_nat_unat_mod:
  "word_of_nat (unat (w :: 'a::len word) mod 2 ^ LENGTH('a)) = w"
  by (simp add: unsigned_less)

lemma from_be_to_be: "from_be (to_be n x) = x mod 256 ^ n"
proof (induction n arbitrary: x)
  case 0
  show ?case by simp
next
  case (Suc n)
  have "from_be (to_be (Suc n) x) = (x div 256) mod 256 ^ n * 256 + x mod 256"
    by (simp add: Suc.IH unat_of_nat_u8)
  also have "\<dots> = x mod (256 * 256 ^ n)"
    by (simp add: mod_mult2_eq mult.commute)
  finally show ?case by simp
qed

lemma to_be_from_be: "to_be (length bs) (from_be bs) = bs"
proof (induction bs rule: rev_induct)
  case Nil
  show ?case by simp
next
  case (snoc b bs)
  have b: "unat b < 256" by (rule unat_u8_less)
  then have "(from_be bs * 256 + unat b) div 256 = from_be bs" by simp
  moreover have "(of_nat (from_be bs * 256 + unat b) :: u8) = b"
    using b by (intro word_unat_eq_iff [THEN iffD2]) (simp only: unat_of_nat_u8, simp)
  ultimately show ?case
    using snoc.IH by (simp del: of_nat_add)
qed

lemma from_be_bound: "from_be bs < 256 ^ length bs"
proof (induction bs rule: rev_induct)
  case Nil
  show ?case by simp
next
  case (snoc b bs)
  have "unat b < 256" by (rule unat_u8_less)
  with snoc show ?case by simp
qed

definition u16_to_be_bytes :: "u16 \<Rightarrow> bytes" where
  "u16_to_be_bytes w = to_be 2 (unat w)"

definition u32_to_be_bytes :: "u32 \<Rightarrow> bytes" where
  "u32_to_be_bytes w = to_be 4 (unat w)"

definition u64_to_be_bytes :: "u64 \<Rightarrow> bytes" where
  "u64_to_be_bytes w = to_be 8 (unat w)"

definition u16_from_be_bytes :: "bytes \<Rightarrow> u16" where
  "u16_from_be_bytes bs = of_nat (from_be bs)"

definition u32_from_be_bytes :: "bytes \<Rightarrow> u32" where
  "u32_from_be_bytes bs = of_nat (from_be bs)"

definition u64_from_be_bytes :: "bytes \<Rightarrow> u64" where
  "u64_from_be_bytes bs = of_nat (from_be bs)"

lemma length_uN_to_be_bytes [simp, wire_simps]:
  "length (u16_to_be_bytes w16) = 2"
  "length (u32_to_be_bytes w32) = 4"
  "length (u64_to_be_bytes w64) = 8"
  by (simp_all add: u16_to_be_bytes_def u32_to_be_bytes_def u64_to_be_bytes_def)

lemma uN_be_roundtrip [simp, wire_simps]:
  "u16_from_be_bytes (u16_to_be_bytes w16) = w16"
  "u32_from_be_bytes (u32_to_be_bytes w32) = w32"
  "u64_from_be_bytes (u64_to_be_bytes w64) = w64"
  using of_nat_unat_mod [of w16] of_nat_unat_mod [of w32] of_nat_unat_mod [of w64]
  by (simp_all add: u16_from_be_bytes_def u16_to_be_bytes_def u32_from_be_bytes_def
      u32_to_be_bytes_def u64_from_be_bytes_def u64_to_be_bytes_def from_be_to_be)

lemma uN_be_parse [wire_simps]:
  "length bs = 2 \<Longrightarrow> u16_to_be_bytes (u16_from_be_bytes bs) = bs"
  "length bs = 4 \<Longrightarrow> u32_to_be_bytes (u32_from_be_bytes bs) = bs"
  "length bs = 8 \<Longrightarrow> u64_to_be_bytes (u64_from_be_bytes bs) = bs"
  using from_be_bound [of bs] to_be_from_be [of bs]
  by (simp_all add: u16_from_be_bytes_def u16_to_be_bytes_def u32_from_be_bytes_def
      u32_to_be_bytes_def u64_from_be_bytes_def u64_to_be_bytes_def unat_of_nat)

section \<open>Words as numbers\<close>

text \<open>
  Sequence numbers are compared and incremented as 64-bit words; the lemmas below move such
  goals to \<open>nat\<close>, where no wrap-around happens below the stated bound.
\<close>

lemma unat_u64_less: "unat (w :: u64) < 2 ^ 64"
  using unsigned_less [where 'a = nat, of w] by simp

lemma unat_plus_of_nat:
  "unat (w :: u64) + n < 2 ^ 64 \<Longrightarrow> unat (w + of_nat n) = unat w + n"
  by (simp add: unat_word_ariths unat_of_nat)

lemma unat_plus_one: "unat (w :: u64) + 1 < 2 ^ 64 \<Longrightarrow> unat (w + 1) = unat w + 1"
  using unat_plus_of_nat [of w 1] by simp

lemma unat_of_nat_u64: "n < 2 ^ 64 \<Longrightarrow> unat (of_nat n :: u64) = n"
  by (simp add: unat_of_nat)

lemma u64_eqI: "unat a = unat b \<Longrightarrow> (a :: u64) = b"
  by (simp add: word_unat_eq_iff)

lemma u64_eq_of_nat: "unat (a :: u64) = n \<Longrightarrow> a = of_nat n"
  by auto

lemma u64_of_nat_unat: "of_nat (unat (a :: u64)) = a"
  by simp

section \<open>Fixed formats\<close>

text \<open>
  A stream codec writes a value as a run of bytes and reads it back from the front of the
  input, leaving the rest: what every frame, header and message of the program promises.
\<close>

fun decode_seq :: "(bytes \<Rightarrow> ('a \<times> bytes) option) \<Rightarrow> nat \<Rightarrow> bytes \<Rightarrow> ('a list \<times> bytes) option" where
  "decode_seq dec 0 bs = Some ([], bs)"
| "decode_seq dec (Suc n) bs =
     (case dec bs of None \<Rightarrow> None
      | Some (x, r) \<Rightarrow> map_option (\<lambda>(xs, r'). (x # xs, r')) (decode_seq dec n r))"

locale stream_codec =
  fixes enc :: "'a \<Rightarrow> bytes"
    and dec :: "bytes \<Rightarrow> ('a \<times> bytes) option"
    and ok :: "'a \<Rightarrow> bool"
  assumes roundtrip: "ok x \<Longrightarrow> dec (enc x @ r) = Some (x, r)"
begin

lemma roundtrip_all:
  "\<forall>x \<in> set xs. ok x \<Longrightarrow> decode_seq dec (length xs) (concat (map enc xs) @ r) = Some (xs, r)"
  by (induction xs) (simp_all add: roundtrip)

lemma enc_prefix_free: "ok x \<Longrightarrow> ok y \<Longrightarrow> enc x @ r = enc y @ s \<Longrightarrow> x = y \<and> r = s"
  by (metis Pair_inject option.inject roundtrip)

lemma enc_inj: "ok x \<Longrightarrow> ok y \<Longrightarrow> enc x = enc y \<Longrightarrow> x = y"
  using enc_prefix_free [of x y "[]" "[]"] by simp

end

section \<open>Maps\<close>

text \<open>A lookup in a map patched by deletions \<open>D\<close> and additions \<open>a\<close>.\<close>

lemma patched_lookup:
  assumes "\<And>c. a = Some c \<longleftrightarrow> new = Some c \<and> old \<noteq> Some c" and "D \<longleftrightarrow> new = None \<and> old \<noteq> None"
  shows "(case a of Some c \<Rightarrow> Some c | None \<Rightarrow> if D then None else old) = new"
  using assms(1) [of "the a"] assms(1) [of "the new"] assms(2)
  by (cases a; cases new; cases old) auto

text \<open>
  The contract the standard library's maps share: a lookup after an insertion or a removal.
\<close>

locale finite_map =
  fixes empty :: "'m"
    and get :: "'m \<Rightarrow> 'k \<Rightarrow> 'v option"
    and ins :: "'k \<Rightarrow> 'v \<Rightarrow> 'm \<Rightarrow> 'm"
    and rem :: "'k \<Rightarrow> 'm \<Rightarrow> 'm"
    and keys :: "'m \<Rightarrow> 'k list"
    and invar :: "'m \<Rightarrow> bool"
  assumes get_empty: "get empty = Map.empty"
    and get_ins: "invar m \<Longrightarrow> get (ins k v m) = (get m)(k \<mapsto> v)"
    and get_rem: "invar m \<Longrightarrow> get (rem k m) = (get m)(k := None)"
    and set_keys: "invar m \<Longrightarrow> set (keys m) = dom (get m)"
    and distinct_keys: "invar m \<Longrightarrow> distinct (keys m)"
    and invar_empty: "invar empty"
    and invar_ins: "invar m \<Longrightarrow> invar (ins k v m)"
    and invar_rem: "invar m \<Longrightarrow> invar (rem k m)"
begin

lemma length_keys: "invar m \<Longrightarrow> length (keys m) = card (dom (get m))"
  using distinct_card [OF distinct_keys] by (simp add: set_keys)

lemma finite_dom_get: "invar m \<Longrightarrow> finite (dom (get m))"
  by (metis List.finite_set set_keys)

lemma length_keys_ins:
  "invar m \<Longrightarrow> get m k = None \<Longrightarrow> length (keys (ins k v m)) = Suc (length (keys m))"
  by (simp add: length_keys invar_ins get_ins finite_dom_get card_insert_if domIff)

lemma length_keys_rem:
  "invar m \<Longrightarrow> get m k = Some v \<Longrightarrow> Suc (length (keys (rem k m))) = length (keys m)"
  by (simp only: length_keys invar_rem get_rem dom_fun_upd if_True simp_thms finite_dom_get domI
      card_Suc_Diff1)

lemma get_rem_ins: "invar m \<Longrightarrow> get m k = None \<Longrightarrow> get (rem k (ins k v m)) = get m"
  by (auto simp: get_rem get_ins invar_ins fun_eq_iff)

end

subsection \<open>BTreeMap\<close>

type_synonym ('k, 'v) btree_map = "('k \<times> 'v) list"

fun bt_insert :: "'k::linorder \<Rightarrow> 'v \<Rightarrow> ('k, 'v) btree_map \<Rightarrow> ('k, 'v) btree_map" where
  "bt_insert k v [] = [(k, v)]"
| "bt_insert k v ((k', v') # m) =
     (if k < k' then (k, v) # (k', v') # m
      else if k = k' then (k, v) # m
      else (k', v') # bt_insert k v m)"

definition bt_remove :: "'k \<Rightarrow> ('k, 'v) btree_map \<Rightarrow> ('k, 'v) btree_map" where
  "bt_remove k m = filter (\<lambda>(k', _). k' \<noteq> k) m"

abbreviation bt_get :: "('k, 'v) btree_map \<Rightarrow> 'k \<Rightarrow> 'v option" where
  "bt_get \<equiv> map_of"

definition bt_contains :: "('k, 'v) btree_map \<Rightarrow> 'k \<Rightarrow> bool" where
  "bt_contains m k = (map_of m k \<noteq> None)"

definition bt_retain :: "('k \<Rightarrow> 'v \<Rightarrow> bool) \<Rightarrow> ('k, 'v) btree_map \<Rightarrow> ('k, 'v) btree_map" where
  "bt_retain P m = filter (\<lambda>(k, v). P k v) m"

definition bt_inv :: "('k::linorder, 'v) btree_map \<Rightarrow> bool" where
  "bt_inv m = sorted_wrt (<) (map fst m)"

lemma bt_inv_simps [simp]:
  "bt_inv []"
  "bt_inv ((k, v) # m) \<longleftrightarrow> (\<forall>k' \<in> fst ` set m. k < k') \<and> bt_inv m"
  by (auto simp: bt_inv_def)

lemma bt_inv_distinct: "bt_inv m \<Longrightarrow> distinct (map fst m)"
  by (simp add: bt_inv_def strict_sorted_iff)

lemma fst_set_bt_insert: "fst ` set (bt_insert k v m) = insert k (fst ` set m)"
  by (induction k v m rule: bt_insert.induct) auto

lemma bt_inv_insert [map_invs]: "bt_inv m \<Longrightarrow> bt_inv (bt_insert k v m)"
  by (induction k v m rule: bt_insert.induct) (auto simp: fst_set_bt_insert)

lemma map_of_bt_insert [map_laws]: "map_of (bt_insert k v m) = (map_of m)(k \<mapsto> v)"
  by (induction k v m rule: bt_insert.induct) (auto simp: fun_eq_iff)

lemma map_of_bt_remove [map_laws]: "map_of (bt_remove k m) = (map_of m)(k := None)"
  by (induction m) (auto simp: bt_remove_def fun_eq_iff)

lemma bt_inv_filter: "bt_inv m \<Longrightarrow> bt_inv (filter P m)"
  by (induction m) auto

lemma bt_inv_remove [map_invs]: "bt_inv m \<Longrightarrow> bt_inv (bt_remove k m)"
  by (simp add: bt_remove_def bt_inv_filter)

lemma bt_inv_retain [map_invs]: "bt_inv m \<Longrightarrow> bt_inv (bt_retain P m)"
  by (simp add: bt_retain_def bt_inv_filter)

lemma map_of_bt_retain:
  "bt_inv m \<Longrightarrow> map_of (bt_retain P m) k =
     (case map_of m k of None \<Rightarrow> None | Some v \<Rightarrow> if P k v then Some v else None)"
  by (induction m) (fastforce simp: bt_retain_def map_of_eq_None_iff split: option.splits)+

lemma length_bt_retain_le: "length (bt_retain P m) \<le> length m"
  by (simp add: bt_retain_def)

lemma bt_get_iff: "bt_inv m \<Longrightarrow> map_of m k = Some v \<longleftrightarrow> (k, v) \<in> set m"
  by (simp add: bt_inv_distinct)

lemma length_bt_remove: "map_of m k = Some v \<Longrightarrow> length (bt_remove k m) < length m"
  by (auto simp: bt_remove_def dest!: map_of_SomeD intro!: length_filter_less)

interpretation btm: finite_map "[]" map_of bt_insert bt_remove "map fst" bt_inv
  by unfold_locales
    (auto simp: map_laws map_invs bt_inv_distinct dom_map_of_conv_image_fst)

subsection \<open>HashMap\<close>

type_synonym ('k, 'v) hash_map = "('k \<times> 'v) list"

definition hm_inv :: "('k, 'v) hash_map \<Rightarrow> bool" where
  "hm_inv m = distinct (map fst m)"

abbreviation hm_insert :: "'k \<Rightarrow> 'v \<Rightarrow> ('k, 'v) hash_map \<Rightarrow> ('k, 'v) hash_map" where
  "hm_insert \<equiv> AList.update"

abbreviation hm_remove :: "'k \<Rightarrow> ('k, 'v) hash_map \<Rightarrow> ('k, 'v) hash_map" where
  "hm_remove \<equiv> AList.delete"

interpretation hmm: finite_map "[]" map_of hm_insert hm_remove "map fst" hm_inv
  by unfold_locales
    (auto simp: hm_inv_def update_conv' delete_conv' dom_map_of_conv_image_fst
      intro: distinct_update distinct_delete)

lemma hm_get_iff: "hm_inv m \<Longrightarrow> map_of m k = Some v \<longleftrightarrow> (k, v) \<in> set m"
  by (simp add: hm_inv_def)

end
