(* ===== verification/Reliability.thy ===== *)
theory Reliability
  imports Prelude
begin

text \<open>
  The reliability layer of the UDP transport, src/src/transport/reliability.rs: the packet
  header and its wire format, the state of one stream (send queue, reorder buffer, delivered
  bytes), the acknowledgement bitmap, and the retransmission timer. Every operation that
  takes a waker returns the wakers it wakes, in order.
\<close>

section \<open>Packet kinds and headers\<close>

datatype packet_kind =
    Stream | StreamOpen | StreamOpenAck | StreamClose | Sack
  | KeepalivePing | KeepalivePong | Service | Nack

fun packet_kind_as_u8 :: "packet_kind \<Rightarrow> u8" where
  "packet_kind_as_u8 Stream = 0"
| "packet_kind_as_u8 StreamOpen = 1"
| "packet_kind_as_u8 StreamOpenAck = 2"
| "packet_kind_as_u8 StreamClose = 3"
| "packet_kind_as_u8 Sack = 4"
| "packet_kind_as_u8 KeepalivePing = 5"
| "packet_kind_as_u8 KeepalivePong = 6"
| "packet_kind_as_u8 Service = 7"
| "packet_kind_as_u8 Nack = 8"

definition packet_kind_from :: "u8 \<Rightarrow> packet_kind" where
  "packet_kind_from v =
     (if v = 1 then StreamOpen
      else if v = 2 then StreamOpenAck
      else if v = 3 then StreamClose
      else if v = 4 then Sack
      else if v = 5 then KeepalivePing
      else if v = 6 then KeepalivePong
      else if v = 7 then Service
      else if v = 8 then Nack
      else Stream)"

record transport_packet_header =
  channel_id :: u32
  hdr_kind :: packet_kind
  hdr_seq :: u64
  hdr_ack :: u64
  hdr_ack_bits :: u64

definition encode :: "transport_packet_header \<Rightarrow> bytes \<Rightarrow> bytes" where
  "encode h buf =
     buf @ u32_to_be_bytes (channel_id h) @ [packet_kind_as_u8 (hdr_kind h)] @
     u64_to_be_bytes (hdr_seq h) @ u64_to_be_bytes (hdr_ack h) @
     u64_to_be_bytes (hdr_ack_bits h)"

definition byte_slice :: "nat \<Rightarrow> nat \<Rightarrow> 'a list \<Rightarrow> 'a list" where
  "byte_slice i j xs = take (j - i) (drop i xs)"

definition decode :: "bytes \<Rightarrow> (transport_packet_header \<times> bytes) option" where
  "decode buf =
     (if length buf < 29 then None
      else Some (\<lparr>channel_id = u32_from_be_bytes (byte_slice 0 4 buf),
                  hdr_kind = packet_kind_from (buf ! 4),
                  hdr_seq = u64_from_be_bytes (byte_slice 5 13 buf),
                  hdr_ack = u64_from_be_bytes (byte_slice 13 21 buf),
                  hdr_ack_bits = u64_from_be_bytes (byte_slice 21 29 buf)\<rparr>,
                 drop 29 buf))"

section \<open>Stream state\<close>

record sent_packet =
  sp_data :: bytes
  sent_at :: instant
  retransmits :: u32

datatype stream_mode = ModeTcp | ModeUdp

record stream_state =
  mode :: stream_mode
  established :: bool
  next_write_seq :: u64
  next_read_seq :: u64
  write_queue :: "(u64, sent_packet) btree_map"
  read_buffer :: "(u64, bytes) btree_map"
  read_buf_bytes :: bytes
  read_waker :: "waker option"
  write_waker :: "waker option"

definition stream_state_new :: "stream_mode \<Rightarrow> stream_state" where
  "stream_state_new m =
     \<lparr>mode = m, established = False, next_write_seq = 1, next_read_seq = 1,
      write_queue = [], read_buffer = [], read_buf_bytes = [],
      read_waker = None, write_waker = None\<rparr>"

definition wake :: "waker option \<Rightarrow> waker list" where
  "wake w = (case w of None \<Rightarrow> [] | Some x \<Rightarrow> [x])"

definition saturating_dec :: "u64 \<Rightarrow> u64 \<Rightarrow> u64" where
  "saturating_dec a b = (if a < b then 0 else a - b)"

text \<open>The loop over the 64 bits of the selective acknowledgement, lowest bit first.\<close>

fun ack_bits_loop :: "(u64, bytes) btree_map \<Rightarrow> u64 \<Rightarrow> nat list \<Rightarrow> u64 \<Rightarrow> u64" where
  "ack_bits_loop rb ack [] bits = bits"
| "ack_bits_loop rb ack (i # is) bits =
     ack_bits_loop rb ack is
       (if bt_contains rb (ack + 1 + of_nat i) then bits OR push_bit i 1 else bits)"

definition build_ack :: "stream_state \<Rightarrow> u64 \<times> u64" where
  "build_ack s =
     (let ack = saturating_dec (next_read_seq s) 1
      in (ack, ack_bits_loop (read_buffer s) ack [0..<64] 0))"

definition ack_keeps :: "u64 \<Rightarrow> u64 \<Rightarrow> u64 \<Rightarrow> bool" where
  "ack_keeps ack bits sq =
     (if sq \<le> ack then False
      else let offset = saturating_dec sq (ack + 1)
           in \<not> (offset < 64 \<and> drop_bit (unat offset) bits AND 1 = 1))"

text \<open>The collection of gaps: skip acknowledged entries, stop at the end of the window.\<close>

fun gap_loop :: "u64 \<Rightarrow> (u64, sent_packet) btree_map \<Rightarrow> u64 list" where
  "gap_loop ack [] = []"
| "gap_loop ack ((sq, p) # m) =
     (if sq \<le> ack then gap_loop ack m
      else if 64 \<le> saturating_dec sq (ack + 1) then []
      else sq # gap_loop ack m)"

definition handle_ack ::
  "stream_state \<Rightarrow> u64 \<Rightarrow> u64 \<Rightarrow> u64 list \<times> stream_state \<times> waker list" where
  "handle_ack s ack bits =
     (let s1 = s\<lparr>write_queue := bt_retain (\<lambda>sq _. ack_keeps ack bits sq) (write_queue s)\<rparr>;
          retransmit = gap_loop ack (write_queue s1)
      in if length (write_queue s1) < 1024
         then (retransmit, s1\<lparr>write_waker := None\<rparr>, wake (write_waker s1))
         else (retransmit, s1, []))"

text \<open>The inclusive range loop of \<open>handle_nack\<close>; it stops before the counter could wrap.\<close>

function nack_loop :: "(u64, sent_packet) btree_map \<Rightarrow> u64 \<Rightarrow> u64 \<Rightarrow> u64 list" where
  "nack_loop wq start end =
     (if end < start then []
      else (if bt_contains wq start then [start] else []) @
           (if start = end then [] else nack_loop wq (start + 1) end))"
  by pat_completeness auto
termination
proof (relation "measure (\<lambda>(wq, start, end). unat end - unat start)")
  fix wq :: "(u64, sent_packet) btree_map" and start "end" :: u64
  assume "\<not> end < start" "start \<noteq> end"
  then have lt: "unat start < unat end"
    by (simp add: word_less_nat_alt word_le_nat_alt not_less order_le_less word_unat_eq_iff)
  then have "unat (start + 1) = unat start + 1"
    using unsigned_less [where 'a = nat, of "end"] by (simp add: unat_word_ariths)
  with lt show "((wq, start + 1, end), wq, start, end)
      \<in> measure (\<lambda>(wq, start, end). unat end - unat start)"
    by simp
qed simp

declare nack_loop.simps [simp del]

definition handle_nack ::
  "stream_state \<Rightarrow> u64 \<Rightarrow> u64 \<Rightarrow> u64 list \<times> stream_state \<times> waker list" where
  "handle_nack s start end =
     (let retransmit =
            (if mode s = ModeUdp then nack_loop (write_queue s) start end else [])
      in if length (write_queue s) < 1024
         then (retransmit, s\<lparr>write_waker := None\<rparr>, wake (write_waker s))
         else (retransmit, s, []))"

text \<open>The drain loop of \<open>push_data\<close>: every turn removes an entry of the reorder buffer.\<close>

function drain :: "(u64, bytes) btree_map \<Rightarrow> u64 \<Rightarrow> bytes \<Rightarrow>
    (u64, bytes) btree_map \<times> u64 \<times> bytes" where
  "drain rb n acc =
     (case bt_get rb n of
        None \<Rightarrow> (rb, n, acc)
      | Some d \<Rightarrow> drain (bt_remove n rb) (n + 1) (acc @ d))"
  by pat_completeness auto
termination
  by (relation "measure (\<lambda>(rb, n, acc). length rb)") (auto simp: length_bt_remove)

declare drain.simps [simp del]

definition push_data ::
  "stream_state \<Rightarrow> u64 \<Rightarrow> bytes \<Rightarrow> (u64 \<times> u64) option \<times> stream_state \<times> waker list" where
  "push_data s sq d =
     (if sq < next_read_seq s \<or> bt_contains (read_buffer s) sq then (None, s, [])
      else
        let nack = (if mode s = ModeUdp \<and> next_read_seq s < sq
                    then Some (next_read_seq s, sq - 1) else None);
            (rb, n, acc) = drain (bt_insert sq d (read_buffer s)) (next_read_seq s)
                             (read_buf_bytes s)
        in (nack,
            s\<lparr>read_buffer := rb, next_read_seq := n, read_buf_bytes := acc,
              read_waker := None\<rparr>,
            wake (read_waker s)))"

section \<open>Retransmission timer\<close>

record reliability =
  streams :: "(u32, stream_state) hash_map"

definition reliability_new :: reliability where
  "reliability_new = \<lparr>streams = []\<rparr>"

text \<open>
  One pass over the send queue of a stream in TCP mode. The result is the updated queue, the
  packets to send again, and whether the loop broke off because a packet used up its
  attempts; the entries after the break are left as they are.
\<close>

fun rto_loop :: "instant \<Rightarrow> (u64, sent_packet) btree_map \<Rightarrow>
    (u64, sent_packet) btree_map \<times> (u64 \<times> bytes) list \<times> bool" where
  "rto_loop now [] = ([], [], False)"
| "rto_loop now ((sq, p) # m) =
     (if duration_since now (sent_at p) > millis 200 then
        (let p' = p\<lparr>sent_at := now, retransmits := retransmits p + 1\<rparr>
         in if retransmits p' > 100 then ((sq, p') # m, [], True)
            else (let (m', out, to) = rto_loop now m
                  in ((sq, p') # m', (sq, sp_data p') # out, to)))
      else (let (m', out, to) = rto_loop now m in ((sq, p) # m', out, to)))"

fun retransmission_loop :: "instant \<Rightarrow> (u32, stream_state) hash_map \<Rightarrow>
    (u32, stream_state) hash_map \<times> (u32 \<times> u64 \<times> bytes) list \<times> u32 list" where
  "retransmission_loop now [] = ([], [], [])"
| "retransmission_loop now ((sid, st) # m) =
     (let (m', out, timed_out) = retransmission_loop now m
      in if mode st = ModeUdp then
           ((sid, st\<lparr>write_queue :=
               bt_retain (\<lambda>_ p. duration_since now (sent_at p) < secs 30) (write_queue st)\<rparr>) # m',
            out, timed_out)
         else
           (let (wq, rs, to) = rto_loop now (write_queue st)
            in ((sid, st\<lparr>write_queue := wq\<rparr>) # m',
                map (\<lambda>(sq, d). (sid, sq, d)) rs @ out,
                (if to then sid # timed_out else timed_out))))"

definition get_retransmissions ::
  "reliability \<Rightarrow> instant \<Rightarrow> ((u32 \<times> u64 \<times> bytes) list \<times> u32 list) \<times> reliability" where
  "get_retransmissions r now =
     (let (m, out, timed_out) = retransmission_loop now (streams r)
      in ((out, timed_out), r\<lparr>streams := m\<rparr>))"

section \<open>The wire format of headers\<close>

lemma packet_kind_roundtrip [simp]: "packet_kind_from (packet_kind_as_u8 k) = k"
  by (cases k) (simp_all add: packet_kind_from_def)

lemma packet_kind_as_u8_from:
  "v \<le> 8 \<Longrightarrow> packet_kind_as_u8 (packet_kind_from v) = v"
proof -
  assume "v \<le> 8"
  then have "unat v \<le> 8" by (simp add: word_le_nat_alt)
  then have "v \<in> {0, 1, 2, 3, 4, 5, 6, 7, 8}"
    by (auto simp: word_unat_eq_iff)
  then show ?thesis by (auto simp: packet_kind_from_def)
qed

lemma length_encode [simp, wire_simps]: "length (encode h buf) = length buf + 29"
  by (simp add: encode_def)

lemma decode_encode [wire_simps]: "decode (encode h [] @ payload) = Some (h, payload)"
  by (simp add: decode_def byte_slice_def encode_def nth_append)

lemma byte_slice_drop: "i \<le> j \<Longrightarrow> byte_slice i j xs @ drop j xs = drop i xs"
  using append_take_drop_id [of "j - i" "drop i xs"] by (simp add: byte_slice_def)

lemma encode_decode:
  assumes "decode buf = Some (h, payload)" and "buf ! 4 \<le> 8"
  shows "encode h [] @ payload = buf"
proof -
  have len: "29 \<le> length buf" using assms(1) by (simp add: decode_def split: if_splits)
  have "buf = byte_slice 0 4 buf @ [buf ! 4] @ drop 5 buf"
    using len id_take_nth_drop [of 4 buf] by (simp add: byte_slice_def)
  also have "drop 5 buf = byte_slice 5 13 buf @ byte_slice 13 21 buf @ byte_slice 21 29 buf @ drop 29 buf"
    by (simp add: byte_slice_drop)
  finally have split: "buf = byte_slice 0 4 buf @ [buf ! 4] @ byte_slice 5 13 buf @ byte_slice 13 21 buf @
      byte_slice 21 29 buf @ drop 29 buf" .
  have lens: "length (byte_slice 0 4 buf) = 4" "length (byte_slice 5 13 buf) = 8"
      "length (byte_slice 13 21 buf) = 8" "length (byte_slice 21 29 buf) = 8"
    using len by (simp_all add: byte_slice_def)
  have "encode h [] @ payload = byte_slice 0 4 buf @ [buf ! 4] @ byte_slice 5 13 buf @ byte_slice 13 21 buf @
      byte_slice 21 29 buf @ drop 29 buf"
    using assms len lens
    by (auto simp: decode_def encode_def uN_be_parse packet_kind_as_u8_from)
  with split show ?thesis by simp
qed

lemma decode_None_iff: "decode buf = None \<longleftrightarrow> length buf < 29"
  by (simp add: decode_def)

interpretation header_codec: stream_codec "\<lambda>h. encode h []" decode "\<lambda>_. True"
  by unfold_locales (rule decode_encode)

section \<open>Acknowledgements\<close>

text \<open>
  What an acknowledgement says: \<open>acked ack bits q\<close> holds for the sequence numbers up to
  \<open>ack\<close> and for \<open>ack + 1 + i\<close> where bit \<open>i\<close> of the bitmap is set.
\<close>

definition acked :: "u64 \<Rightarrow> u64 \<Rightarrow> u64 \<Rightarrow> bool" where
  "acked ack bits q \<longleftrightarrow>
     unat q \<le> unat ack \<or> (\<exists>i < 64. unat q = unat ack + 1 + i \<and> bit bits i)"

text \<open>The sequence numbers the receiver holds: delivered, or waiting in the reorder buffer.\<close>

definition received :: "stream_state \<Rightarrow> u64 \<Rightarrow> bool" where
  "received s q \<longleftrightarrow> unat q < unat (next_read_seq s) \<or> bt_contains (read_buffer s) q"

definition in_window :: "u64 \<Rightarrow> u64 \<Rightarrow> bool" where
  "in_window ack q \<longleftrightarrow> unat ack < unat q \<and> unat q \<le> unat ack + 64"

lemma drop_bit_and_one: "drop_bit n (w :: u64) AND 1 = 1 \<longleftrightarrow> bit w n"
  by (simp add: and_one_eq bit_iff_odd_drop_bit odd_iff_mod_2_eq_one)

lemma window_offset:
  assumes "ack < sq"
  shows "unat (saturating_dec sq (ack + 1)) = unat sq - unat ack - 1"
proof -
  have lt: "unat ack < unat sq" using assms by (simp add: word_less_nat_alt)
  then have one: "unat (ack + 1) = unat ack + 1"
    using unat_u64_less [of sq] by (intro unat_plus_one) simp
  with lt have "ack + 1 \<le> sq" by (simp add: word_le_nat_alt)
  then show ?thesis
    using one lt by (auto simp: saturating_dec_def unat_sub)
qed

lemma ack_keeps_iff: "ack_keeps ack bits sq \<longleftrightarrow> \<not> acked ack bits sq"
proof (cases "ack < sq")
  case False
  then show ?thesis by (auto simp: ack_keeps_def acked_def word_le_nat_alt not_less)
next
  case True
  define k where "k = unat sq - unat ack - 1"
  have off: "unat (saturating_dec sq (ack + 1)) = k"
    using window_offset [OF True] by (simp add: k_def)
  have sq: "unat sq = unat ack + 1 + k"
    using True by (simp add: k_def word_less_nat_alt)
  have "saturating_dec sq (ack + 1) < 64 \<longleftrightarrow> k < 64"
    using off by (simp add: word_less_nat_alt)
  with True off sq show ?thesis
    by (auto simp: ack_keeps_def acked_def Let_def drop_bit_and_one not_le)
qed

lemma bit_ack_bits_loop:
  "bit (ack_bits_loop rb ack is bits) n \<longleftrightarrow>
     bit bits n \<or> (n < 64 \<and> n \<in> set is \<and> bt_contains rb (ack + 1 + of_nat n))"
  by (induction rb ack "is" bits rule: ack_bits_loop.induct) (auto simp: bit_simps)

lemma build_ack_bits:
  assumes "build_ack s = (ack, bits)"
  shows "bit bits n \<longleftrightarrow> n < 64 \<and> bt_contains (read_buffer s) (ack + 1 + of_nat n)"
  using assms by (auto simp: build_ack_def Let_def bit_ack_bits_loop)

lemma build_ack_seq:
  assumes "build_ack s = (ack, bits)" and "1 \<le> unat (next_read_seq s)"
  shows "unat ack + 1 = unat (next_read_seq s)"
proof -
  have "1 \<le> next_read_seq s" using assms(2) by (simp add: word_le_nat_alt)
  then have "unat (next_read_seq s - 1) = unat (next_read_seq s) - 1" by (simp add: unat_sub)
  with assms show ?thesis
    by (auto simp: build_ack_def Let_def saturating_dec_def)
qed

text \<open>
  An acknowledgement a receiver builds claims exactly what the receiver holds, as far as the
  window reaches.
\<close>

lemma build_ack_sound:
  assumes ack: "build_ack s = (ack, bits)" and pos: "1 \<le> unat (next_read_seq s)"
    and "acked ack bits q"
  shows "received s q"
proof -
  note seq = build_ack_seq [OF ack pos]
  from assms(3) consider "unat q \<le> unat ack"
    | i where "i < 64" "unat q = unat ack + 1 + i" "bit bits i"
    by (auto simp: acked_def)
  then show ?thesis
  proof cases
    case 1
    with seq show ?thesis by (simp add: received_def)
  next
    case 2
    then have "unat (ack + of_nat (1 + i)) = unat q"
      using unat_u64_less [of q] by (subst unat_plus_of_nat) simp_all
    then have "ack + 1 + of_nat i = q"
      by (intro u64_eqI) (simp add: add.assoc)
    with 2 build_ack_bits [OF ack, of i] show ?thesis by (simp add: received_def)
  qed
qed

lemma build_ack_complete:
  assumes ack: "build_ack s = (ack, bits)" and pos: "1 \<le> unat (next_read_seq s)"
    and "received s q" and "unat q \<le> unat ack + 64"
  shows "acked ack bits q"
proof (cases "unat q \<le> unat ack")
  case True
  then show ?thesis by (simp add: acked_def)
next
  case False
  define i where "i = unat q - unat ack - 1"
  have q: "unat q = unat ack + 1 + i" and i: "i < 64" using False assms(4) by (auto simp: i_def)
  have "unat (ack + of_nat (1 + i)) = unat q"
    using q unat_u64_less [of q] by (subst unat_plus_of_nat) simp_all
  then have eq: "ack + 1 + of_nat i = q" by (intro u64_eqI) (simp add: add.assoc)
  have "bt_contains (read_buffer s) q"
    using assms(3) False build_ack_seq [OF ack pos] by (auto simp: received_def)
  then have "bit bits i" using build_ack_bits [OF ack, of i] i eq by simp
  with q i show ?thesis by (auto simp: acked_def)
qed

lemma gap_loop_eq:
  "bt_inv m \<Longrightarrow> \<forall>q \<in> fst ` set m. ack < q \<Longrightarrow>
     gap_loop ack m = filter (in_window ack) (map fst m)"
proof (induction ack m rule: gap_loop.induct)
  case (2 ack sq p m)
  have lt: "ack < sq" using "2.prems" by simp
  have off: "64 \<le> saturating_dec sq (ack + 1) \<longleftrightarrow> 64 \<le> unat sq - unat ack - 1"
    using window_offset [OF lt] by (simp add: word_le_nat_alt)
  have later: "\<not> in_window ack q" if "\<not> in_window ack sq" "q \<in> fst ` set m" for q
    using that "2.prems"(1) lt by (auto simp: in_window_def word_less_nat_alt)
  show ?case
  proof (cases "in_window ack sq")
    case True
    with off lt have "\<not> 64 \<le> saturating_dec sq (ack + 1)" by (auto simp: in_window_def)
    with True lt "2.IH" "2.prems" show ?thesis by (simp add: not_le [symmetric])
  next
    case False
    with off lt have "64 \<le> saturating_dec sq (ack + 1)"
      by (auto simp: in_window_def word_less_nat_alt)
    moreover have "filter (in_window ack) (map fst m) = []"
      using later [OF False] by (auto simp: filter_empty_conv)
    ultimately show ?thesis using False lt by (simp add: not_le [symmetric])
  qed
qed simp

text \<open>
  The whole effect of an acknowledgement: the send queue keeps exactly the entries that are
  not acknowledged, and the entries inside the window among them are sent again, in order.
\<close>

lemma handle_ack_queue:
  assumes "bt_inv (write_queue s)" and "handle_ack s ack bits = (rs, s', ws)"
  shows "map_of (write_queue s') q =
           (if acked ack bits q then None else map_of (write_queue s) q)"
    and "rs = filter (in_window ack) (map fst (write_queue s'))"
    and "bt_inv (write_queue s')"
    and "s' = s\<lparr>write_queue := write_queue s', write_waker := write_waker s'\<rparr>"
proof -
  let ?q = "bt_retain (\<lambda>sq _. ack_keeps ack bits sq) (write_queue s)"
  from assms(2) have wq: "write_queue s' = ?q" and rs: "rs = gap_loop ack ?q"
    by (auto simp: handle_ack_def Let_def split: if_splits)
  show inv: "bt_inv (write_queue s')" using assms(1) wq by (simp add: bt_inv_retain)
  show "map_of (write_queue s') q =
           (if acked ack bits q then None else map_of (write_queue s) q)"
    using assms(1) wq by (simp add: map_of_bt_retain ack_keeps_iff split: option.split)
  have "\<forall>q \<in> fst ` set (write_queue s'). ack < q"
    unfolding wq by (auto simp: bt_retain_def ack_keeps_iff acked_def word_less_nat_alt not_le)
  with inv show "rs = filter (in_window ack) (map fst (write_queue s'))"
    using rs wq gap_loop_eq by metis
  show "s' = s\<lparr>write_queue := write_queue s', write_waker := write_waker s'\<rparr>"
    using assms(2) by (auto simp: handle_ack_def Let_def split: if_splits)
qed

section \<open>Reassembly\<close>

text \<open>
  A sender's history is the list of chunks it accepted; chunk \<open>q\<close> (counted from 1) travels
  under sequence number \<open>q\<close>. A buffer is consistent with a history when every entry is
  the chunk of its number.
\<close>

definition chunk_of :: "bytes list \<Rightarrow> u64 \<Rightarrow> bytes \<Rightarrow> bool" where
  "chunk_of hist q d \<longleftrightarrow> 1 \<le> unat q \<and> unat q \<le> length hist \<and> d = hist ! (unat q - 1)"

definition consistent :: "bytes list \<Rightarrow> (u64, bytes) btree_map \<Rightarrow> bool" where
  "consistent hist rb \<longleftrightarrow> (\<forall>q d. map_of rb q = Some d \<longrightarrow> chunk_of hist q d)"

text \<open>
  \<open>reads hist pre s\<close>: the bytes already handed to the reader (\<open>pre\<close>) and the delivered
  bytes still buffered are the first chunks of the history, and nothing contiguous is left in
  the reorder buffer.
\<close>

definition reads :: "bytes list \<Rightarrow> bytes \<Rightarrow> stream_state \<Rightarrow> bool" where
  "reads hist pre s \<longleftrightarrow>
     bt_inv (read_buffer s) \<and> consistent hist (read_buffer s) \<and>
     1 \<le> unat (next_read_seq s) \<and> unat (next_read_seq s) \<le> length hist + 1 \<and>
     map_of (read_buffer s) (next_read_seq s) = None \<and>
     pre @ read_buf_bytes s = concat (take (unat (next_read_seq s) - 1) hist)"

lemma readsD:
  assumes "reads hist pre s"
  shows "bt_inv (read_buffer s)" "consistent hist (read_buffer s)"
    "1 \<le> unat (next_read_seq s)" "unat (next_read_seq s) \<le> length hist + 1"
    "map_of (read_buffer s) (next_read_seq s) = None"
    "pre @ read_buf_bytes s = concat (take (unat (next_read_seq s) - 1) hist)"
  using assms by (simp_all add: reads_def)

lemma reads_new: "reads hist [] (stream_state_new m)"
  by (simp add: reads_def stream_state_new_def consistent_def)

lemma chunk_of_append: "chunk_of hist q d \<Longrightarrow> chunk_of (hist @ cs) q d"
  by (auto simp: chunk_of_def nth_append)

lemma reads_append: "reads hist pre s \<Longrightarrow> reads (hist @ cs) pre s"
  by (auto simp: reads_def consistent_def intro: chunk_of_append)

text \<open>Draining keeps what was received, and delivers whole chunks of the history in order.\<close>

lemma drain_reads:
  assumes "drain rb n acc = (rb', n', acc')"
    and "bt_inv rb" and "consistent hist rb" and "length hist + 1 < 2 ^ 64"
    and "1 \<le> unat n" and "unat n \<le> length hist + 1"
    and "pre @ acc = concat (take (unat n - 1) hist)"
  shows "bt_inv rb' \<and> consistent hist rb' \<and> unat n \<le> unat n' \<and> unat n' \<le> length hist + 1 \<and>
     map_of rb' n' = None \<and> pre @ acc' = concat (take (unat n' - 1) hist) \<and>
     (\<forall>q. unat q < unat n' \<or> bt_contains rb' q \<longleftrightarrow> unat q < unat n \<or> bt_contains rb q)"
  using assms
proof (induction rb n acc rule: drain.induct)
  case (1 rb n acc)
  show ?case
  proof (cases "map_of rb n")
    case None
    with "1.prems" show ?thesis by (simp add: drain.simps [of rb n acc])
  next
    case (Some d)
    from Some "1.prems"(3) have ch: "chunk_of hist n d" by (simp add: consistent_def)
    then have n1: "unat (n + 1) = unat n + 1"
      using "1.prems"(4) by (intro unat_plus_one) (simp add: chunk_of_def)
    have "take (unat n) hist = take (unat n - 1) hist @ [d]"
      using ch take_Suc_conv_app_nth [of "unat n - 1" hist] by (auto simp: chunk_of_def)
    then have acc: "pre @ acc @ d = concat (take (unat (n + 1) - 1) hist)"
      using "1.prems"(7) n1 by (simp flip: append_assoc)
    have eq: "drain (bt_remove n rb) (n + 1) (acc @ d) = (rb', n', acc')"
      using "1.prems"(1) Some by (simp add: drain.simps [of rb n acc])
    have cons: "consistent hist (bt_remove n rb)"
      using "1.prems"(3) by (simp add: consistent_def map_of_bt_remove)
    have up: "unat (n + 1) \<le> length hist + 1" using ch n1 by (simp add: chunk_of_def)
    have "unat q < unat (n + 1) \<or> bt_contains (bt_remove n rb) q \<longleftrightarrow>
        unat q < unat n \<or> bt_contains rb q" for q
      using n1 Some u64_eqI [of q n] by (auto simp: bt_contains_def map_of_bt_remove less_Suc_eq)
    then show ?thesis
      using "1.IH" [OF Some eq bt_inv_remove [OF "1.prems"(2)] cons "1.prems"(4) _ up acc] n1
      by auto
  qed
qed

lemma push_data_cases:
  assumes "push_data s sq d = (nack, s', ws)"
  obtains (dup) "sq < next_read_seq s \<or> bt_contains (read_buffer s) sq"
      "nack = None" "s' = s" "ws = []"
  | (new) rb n acc where "\<not> sq < next_read_seq s" "\<not> bt_contains (read_buffer s) sq"
      "drain (bt_insert sq d (read_buffer s)) (next_read_seq s) (read_buf_bytes s) = (rb, n, acc)"
      "nack = (if mode s = ModeUdp \<and> next_read_seq s < sq
               then Some (next_read_seq s, sq - 1) else None)"
      "s' = s\<lparr>read_buffer := rb, next_read_seq := n, read_buf_bytes := acc, read_waker := None\<rparr>"
      "ws = wake (read_waker s)"
proof (cases "sq < next_read_seq s \<or> bt_contains (read_buffer s) sq")
  case True
  then show thesis using assms by (intro dup) (simp_all add: push_data_def)
next
  case False
  obtain rb n acc where dr:
    "drain (bt_insert sq d (read_buffer s)) (next_read_seq s) (read_buf_bytes s) = (rb, n, acc)"
    by (metis prod_cases3)
  show thesis
    using assms False by (intro new [OF _ _ dr]) (simp_all only: push_data_def dr Let_def
      prod.case if_False prod.inject de_Morgan_disj simp_thms)
qed

text \<open>
  The contract of \<open>push_data\<close>: it keeps the reassembly invariant, and afterwards the
  receiver holds what it held before and the new packet, whatever the order of arrival.
\<close>

lemma push_data_reads:
  assumes push: "push_data s sq d = (nack, s', ws)" and reads: "reads hist pre s"
    and ch: "chunk_of hist sq d" and len: "length hist + 1 < 2 ^ 64"
  shows "reads hist pre s'" and "received s' q \<longleftrightarrow> received s q \<or> q = sq"
    and "unat (next_read_seq s) \<le> unat (next_read_seq s')"
proof -
  have "reads hist pre s' \<and> (\<forall>q. received s' q \<longleftrightarrow> received s q \<or> q = sq) \<and>
      unat (next_read_seq s) \<le> unat (next_read_seq s')"
    using push
  proof (cases rule: push_data_cases)
    case dup
    then show ?thesis using reads by (auto simp: received_def word_less_nat_alt)
  next
    case (new rb n acc)
    note r = readsD [OF reads]
    have cons: "consistent hist (bt_insert sq d (read_buffer s))"
      using r(2) ch by (auto simp: consistent_def map_of_bt_insert)
    from drain_reads [OF new(3) bt_inv_insert [OF r(1)] cons len r(3,4,6)]
    show ?thesis
      using new(5) r(3) by (auto simp: reads_def received_def bt_contains_def map_of_bt_insert)
  qed
  then show "reads hist pre s'" and "received s' q \<longleftrightarrow> received s q \<or> q = sq"
    and "unat (next_read_seq s) \<le> unat (next_read_seq s')" by auto
qed

lemma push_data_frame:
  assumes "push_data s sq d = (nack, s', ws)"
  shows "mode s' = mode s" "established s' = established s"
    "next_write_seq s' = next_write_seq s" "write_queue s' = write_queue s"
    "write_waker s' = write_waker s"
  using assms by (cases rule: push_data_cases; simp)+

lemma not_received_next: "reads hist pre s \<Longrightarrow> \<not> received s (next_read_seq s)"
  by (simp add: reads_def received_def bt_contains_def)

text \<open>A run of arrivals.\<close>

fun push_all :: "stream_state \<Rightarrow> (u64 \<times> bytes) list \<Rightarrow> stream_state" where
  "push_all s [] = s"
| "push_all s ((sq, d) # ps) = push_all (fst (snd (push_data s sq d))) ps"

lemma push_all_reads:
  assumes "reads hist pre s" and "\<forall>(q, d) \<in> set ps. chunk_of hist q d"
    and "length hist + 1 < 2 ^ 64"
  shows "reads hist pre (push_all s ps)"
    and "received (push_all s ps) q \<longleftrightarrow> received s q \<or> q \<in> fst ` set ps"
proof -
  have "reads hist pre (push_all s ps) \<and>
      (\<forall>q. received (push_all s ps) q \<longleftrightarrow> received s q \<or> q \<in> fst ` set ps)"
    using assms
  proof (induction s ps rule: push_all.induct)
    case (2 s sq d ps)
    obtain nack s' ws where push: "push_data s sq d = (nack, s', ws)" by (metis prod_cases3)
    from "2.prems" have ch: "chunk_of hist sq d" by simp
    note step = push_data_reads [OF push "2.prems"(1) ch "2.prems"(3)]
    from "2.IH" step(1) push "2.prems" show ?case using step(2) by auto
  qed simp
  then show "reads hist pre (push_all s ps)"
    and "received (push_all s ps) q \<longleftrightarrow> received s q \<or> q \<in> fst ` set ps" by auto
qed

text \<open>A stream that holds every chunk of the history has delivered all of it.\<close>

lemma reads_all_received:
  assumes "reads hist pre s" and "length hist + 1 < 2 ^ 64"
    and "\<And>q. 1 \<le> unat q \<Longrightarrow> unat q \<le> length hist \<Longrightarrow> received s q"
  shows "pre @ read_buf_bytes s = concat hist"
proof -
  note r = readsD [OF assms(1)]
  have "\<not> unat (next_read_seq s) \<le> length hist"
    using assms(3) not_received_next [OF assms(1)] r(3) by blast
  with r(4) have "unat (next_read_seq s) = length hist + 1" by simp
  with r(6) show ?thesis by simp
qed

section \<open>Negative acknowledgements\<close>

lemma u64_le_step:
  assumes "a \<noteq> b" and "\<not> b < (a :: u64)"
  shows "a + 1 \<le> q \<longleftrightarrow> a < q"
proof -
  have lt: "unat a < unat b"
    using assms by (simp add: word_less_nat_alt order_le_less word_unat_eq_iff not_less)
  then have "unat (a + 1) = unat a + 1"
    using unat_u64_less [of b] by (intro unat_plus_one) simp
  then show ?thesis by (auto simp: word_le_nat_alt word_less_nat_alt)
qed

lemma set_nack_loop: "set (nack_loop wq a b) = {q. a \<le> q \<and> q \<le> b \<and> bt_contains wq q}"
proof (induction wq a b rule: nack_loop.induct)
  case (1 wq a b)
  show ?case
  proof (cases "a = b \<or> b < a")
    case True
    then show ?thesis by (auto simp: nack_loop.simps [of wq a b])
  next
    case False
    then have "set (nack_loop wq (a + 1) b) = {q. a < q \<and> q \<le> b \<and> bt_contains wq q}"
      using 1 u64_le_step [of a b] by simp
    with False have "set (nack_loop wq a b) =
        (if bt_contains wq a then {a} else {}) \<union> {q. a < q \<and> q \<le> b \<and> bt_contains wq q}"
      by (simp add: nack_loop.simps [of wq a b])
    also have "\<dots> = {q. a \<le> q \<and> q \<le> b \<and> bt_contains wq q}"
      using False by (auto simp: not_less dest: le_neq_trans)
    finally show ?thesis .
  qed
qed

lemma sorted_nack_loop: "sorted_wrt (<) (nack_loop wq a b)"
proof (induction wq a b rule: nack_loop.induct)
  case (1 wq a b)
  show ?case
  proof (cases "a = b \<or> b < a")
    case True
    then show ?thesis by (auto simp: nack_loop.simps [of wq a b])
  next
    case False
    then show ?thesis
      using 1 by (auto simp: nack_loop.simps [of wq a b] set_nack_loop u64_le_step)
  qed
qed

text \<open>The scan of the whole range finds the queued entries of the range, in order.\<close>

lemma nack_loop_eq:
  assumes "bt_inv wq"
  shows "nack_loop wq a b = filter (\<lambda>q. a \<le> q \<and> q \<le> b) (map fst wq)"
proof (rule strict_sorted_equal)
  show "sorted_wrt (<) (nack_loop wq a b)" by (rule sorted_nack_loop)
  show "sorted_wrt (<) (filter (\<lambda>q. a \<le> q \<and> q \<le> b) (map fst wq))"
    using assms by (simp add: bt_inv_def sorted_wrt_filter)
  show "set (nack_loop wq a b) = set (filter (\<lambda>q. a \<le> q \<and> q \<le> b) (map fst wq))"
    by (auto simp: set_nack_loop bt_contains_def map_of_eq_None_iff)
qed

section \<open>Retransmission\<close>

definition expired :: "instant \<Rightarrow> sent_packet \<Rightarrow> bool" where
  "expired now p \<longleftrightarrow> duration_since now (sent_at p) > millis 200"

definition exhausted :: "instant \<Rightarrow> sent_packet \<Rightarrow> bool" where
  "exhausted now p \<longleftrightarrow> expired now p \<and> retransmits p + 1 > 100"

definition resend :: "instant \<Rightarrow> sent_packet \<Rightarrow> sent_packet" where
  "resend now p = (if expired now p then p\<lparr>sent_at := now, retransmits := retransmits p + 1\<rparr> else p)"

lemma sp_data_resend [simp]: "sp_data (resend now p) = sp_data p"
  by (simp add: resend_def)

lemma rto_loop_timed_out:
  "rto_loop now m = (m', out, to) \<Longrightarrow> to \<longleftrightarrow> (\<exists>p \<in> snd ` set m. exhausted now p)"
  by (induction now m arbitrary: m' out to rule: rto_loop.induct)
    (auto simp: exhausted_def expired_def Let_def split: if_splits prod.splits)

text \<open>Without a timeout the pass resends exactly the expired entries.\<close>

lemma rto_loop_ok:
  assumes "rto_loop now m = (m', out, False)"
  shows "m' = map (\<lambda>(q, p). (q, resend now p)) m"
    and "out = map (\<lambda>(q, p). (q, sp_data p)) (filter (\<lambda>(q, p). expired now p) m)"
proof -
  have "m' = map (\<lambda>(q, p). (q, resend now p)) m \<and>
      out = map (\<lambda>(q, p). (q, sp_data p)) (filter (\<lambda>(q, p). expired now p) m)"
    using assms
    by (induction now m arbitrary: m' out rule: rto_loop.induct)
      (auto simp: resend_def expired_def Let_def split: if_splits prod.splits)
  then show "m' = map (\<lambda>(q, p). (q, resend now p)) m"
    and "out = map (\<lambda>(q, p). (q, sp_data p)) (filter (\<lambda>(q, p). expired now p) m)" by auto
qed

text \<open>Timeout or not, a pass never changes the keys or the data of the queue.\<close>

lemma rto_loop_data:
  "rto_loop now m = (m', out, to) \<Longrightarrow>
     map (\<lambda>(q, p). (q, sp_data p)) m' = map (\<lambda>(q, p). (q, sp_data p)) m \<and>
     set out \<subseteq> set (map (\<lambda>(q, p). (q, sp_data p)) m)"
  by (induction now m arbitrary: m' out to rule: rto_loop.induct)
    (auto simp: Let_def split: if_splits prod.splits, (fastforce+)?)

text \<open>What the timer does to a stream when nothing times out.\<close>

definition timer_effect :: "instant \<Rightarrow> stream_state \<Rightarrow> stream_state" where
  "timer_effect now st =
     (if mode st = ModeUdp
      then st\<lparr>write_queue :=
             filter (\<lambda>(q, p). duration_since now (sent_at p) < secs 30) (write_queue st)\<rparr>
      else st\<lparr>write_queue := map (\<lambda>(q, p). (q, resend now p)) (write_queue st)\<rparr>)"

definition timer_packets :: "instant \<Rightarrow> u32 \<Rightarrow> stream_state \<Rightarrow> (u32 \<times> u64 \<times> bytes) list" where
  "timer_packets now sid st =
     (if mode st = ModeUdp then []
      else map (\<lambda>(q, p). (sid, q, sp_data p)) (filter (\<lambda>(q, p). expired now p) (write_queue st)))"

definition gives_up :: "instant \<Rightarrow> stream_state \<Rightarrow> bool" where
  "gives_up now st \<longleftrightarrow> mode st \<noteq> ModeUdp \<and> (\<exists>(q, p) \<in> set (write_queue st). exhausted now p)"

lemma retransmission_loop_timeouts:
  "retransmission_loop now m = (m', out, to) \<Longrightarrow>
     to = map fst (filter (\<lambda>(sid, st). gives_up now st) m)"
proof (induction now m arbitrary: m' out to rule: retransmission_loop.induct)
  case (2 now sid st m)
  obtain wq rs t where rto: "rto_loop now (write_queue st) = (wq, rs, t)" by (metis prod_cases3)
  have "t \<longleftrightarrow> (\<exists>(q, p) \<in> set (write_queue st). exhausted now p)"
    using rto_loop_timed_out [OF rto] by (force simp: image_iff)
  with 2 rto show ?case
    by (auto simp: gives_up_def Let_def split: prod.splits if_splits)
qed simp

lemma retransmission_loop_effect:
  "retransmission_loop now m = (m', out, []) \<Longrightarrow>
     m' = map (\<lambda>(sid, st). (sid, timer_effect now st)) m \<and>
     out = concat (map (\<lambda>(sid, st). timer_packets now sid st) m)"
proof (induction now m arbitrary: m' out rule: retransmission_loop.induct)
  case (2 now sid st m)
  obtain m1 out1 to1 where rec: "retransmission_loop now m = (m1, out1, to1)" by (metis prod_cases3)
  obtain wq rs t where rto: "rto_loop now (write_queue st) = (wq, rs, t)" by (metis prod_cases3)
  from "2.prems" rec rto have to1: "to1 = []" and t: "mode st \<noteq> ModeUdp \<Longrightarrow> \<not> t"
    by (auto split: if_splits)
  note IH = "2.IH" [OF rec [unfolded to1]]
  show ?case
  proof (cases "mode st = ModeUdp")
    case True
    with "2.prems" rec IH show ?thesis
      by (auto simp: timer_effect_def timer_packets_def bt_retain_def)
  next
    case False
    with t rto have rto': "rto_loop now (write_queue st) = (wq, rs, False)" by simp
    from False "2.prems" rec rto' to1
    have "m' = (sid, st\<lparr>write_queue := wq\<rparr>) # m1" "out = map (\<lambda>(q, d). (sid, q, d)) rs @ out1"
      by simp_all
    moreover have "map (\<lambda>(q, d). (sid, q, d)) rs = timer_packets now sid st"
      using False rto_loop_ok(2) [OF rto'] by (simp add: timer_packets_def case_prod_beta')
    moreover have "st\<lparr>write_queue := wq\<rparr> = timer_effect now st"
      using False rto_loop_ok(1) [OF rto'] by (simp add: timer_effect_def)
    ultimately show ?thesis using IH by simp
  qed
qed simp

section \<open>Properties\<close>

text \<open>
  C32: the wire format of packet headers loses nothing. Decoding an encoded header followed by
  any payload gives back the header and the payload; a buffer decodes exactly when it has at
  least 29 bytes; and a decoded buffer with a known kind byte is the encoding of its header.
\<close>

theorem header_wire_format:
  "decode (encode h [] @ payload) = Some (h, payload) \<and>
   (decode buf = None \<longleftrightarrow> length buf < 29) \<and>
   (decode buf = Some (h', p') \<and> buf ! 4 \<le> 8 \<longrightarrow> encode h' [] @ p' = buf)"
  using decode_encode [of h payload] encode_decode [of buf h' p'] decode_None_iff [of buf]
  by blast

theorem header_wire_format_witness:
  "encode \<lparr>channel_id = 1, hdr_kind = Sack, hdr_seq = 2, hdr_ack = 3, hdr_ack_bits = 4\<rparr> [] @ [9]
   = [0, 0, 0, 1, 4, 0, 0, 0, 0, 0, 0, 0, 2, 0, 0, 0, 0, 0, 0, 0, 3, 0, 0, 0, 0, 0, 0, 0, 4, 9]"
proof -
  let ?buf = "[0, 0, 0, 1, 4, 0, 0, 0, 0, 0, 0, 0, 2, 0, 0, 0, 0, 0, 0, 0, 3, 0, 0, 0, 0, 0, 0, 0, 4, 9] :: bytes"
  let ?h = "\<lparr>channel_id = 1, hdr_kind = Sack, hdr_seq = 2, hdr_ack = 3, hdr_ack_bits = 4\<rparr>"
  have "decode ?buf = Some (?h, [9])" "?buf ! 4 \<le> 8" by code_simp+
  then show ?thesis using header_wire_format [of ?h "[9]" ?buf ?h "[9]"] by blast
qed

text \<open>
  C18: reassembly does not depend on the order of arrival. Packets carrying chunks of a history,
  in any order and with any repetitions, leave exactly the longest gap-free prefix of the
  history delivered, where the gap-free prefix is read off the set of numbers that arrived.
\<close>

theorem in_order_reassembly:
  assumes "\<forall>(q, d) \<in> set ps. chunk_of hist q d" and "length hist + 1 < 2 ^ 64"
  shows "read_buf_bytes (push_all (stream_state_new m) ps) =
    concat (take (length (takeWhile (\<lambda>q. of_nat q \<in> fst ` set ps) [1..<length hist + 1])) hist)"
proof -
  let ?t = "push_all (stream_state_new m) ps" and ?P = "\<lambda>q. of_nat q \<in> fst ` set ps"
  note r = readsD [OF push_all_reads(1) [OF reads_new assms, of m]]
  define n where "n = unat (next_read_seq ?t) - 1"
  have rcv: "received ?t (of_nat q) \<longleftrightarrow> ?P q" if "1 \<le> q" "q \<le> length hist" for q
    using push_all_reads(2) [OF reads_new assms, of m "of_nat q"] that assms(2)
    by (auto simp: received_def stream_state_new_def bt_contains_def unat_of_nat_u64)
  have below: "?P q" if "1 \<le> q" "q \<le> n" for q
  proof -
    have "q \<le> length hist" "q < unat (next_read_seq ?t)" using that r(3,4) by (auto simp: n_def)
    then show ?thesis
      using rcv [of q] that assms(2) by (simp add: received_def unat_of_nat_u64)
  qed
  have stop: "\<not> ?P (n + 1)" if "n < length hist"
    using rcv [of "n + 1"] that not_received_next [OF push_all_reads(1) [OF reads_new assms, of m]]
      u64_eq_of_nat [of "next_read_seq ?t" "n + 1"] r(3) by (simp add: n_def)
  have le: "n \<le> length hist" using r(4) by (simp add: n_def)
  have "takeWhile ?P [1..<length hist + 1] = [1..<n + 1]"
  proof (rule takeWhile_eq_take_P_nth [THEN trans])
    show "take n [1..<length hist + 1] = [1..<n + 1]" 
      using le take_upt [of 1 n "length hist + 1"] by (simp del: upt_Suc add: add.commute)
    show "?P ([1..<length hist + 1] ! i)" if "i < n" "i < length [1..<length hist + 1]" for i
      using that below [of "1 + i"] by (simp del: upt_Suc)
    show "\<not> ?P ([1..<length hist + 1] ! n)" if "n < length [1..<length hist + 1]"
      using that stop by (simp del: upt_Suc add: add.commute)
  qed
  then have "length (takeWhile ?P [1..<length hist + 1]) = n" by (simp del: upt_Suc)
  with r(6) show ?thesis by (simp only: n_def append_Nil)
qed

theorem in_order_reassembly_witness:
  "read_buf_bytes (push_all (stream_state_new ModeTcp) [(2, [20]), (1, [10]), (2, [20]), (4, [40])])
   = [10, 20]"
proof -
  let ?ps = "[(2, [20]), (1, [10]), (2, [20]), (4, [40])] :: (u64 \<times> bytes) list"
  let ?hist = "[[10], [20], [30], [40]] :: bytes list"
  have h: "\<forall>(q, d) \<in> set ?ps. chunk_of ?hist q d" "length ?hist + 1 < 2 ^ 64"
    by (simp_all add: chunk_of_def)
  have "takeWhile (\<lambda>q. of_nat q \<in> fst ` set ?ps) [1..<length ?hist + 1] = [1, 2]"
    by (simp add: upt_rec)
  with in_order_reassembly [OF h, of ModeTcp] show ?thesis by simp
qed

text \<open>
  C20: a selective acknowledgement is exact. When a sender processes the acknowledgement its
  receiver built, its send queue loses precisely the entries the receiver holds inside the
  64-packet window or below it, and the packets sent again are, in order, the queued entries of
  the window that the receiver is missing.
\<close>

theorem sack_exact:
  assumes "build_ack rcv = (ack, bits)" and "1 \<le> unat (next_read_seq rcv)"
    and "bt_inv (write_queue tx)" and "handle_ack tx ack bits = (rs, tx', ws)"
  shows "(\<forall>q. map_of (write_queue tx') q =
      (if received rcv q \<and> unat q \<le> unat ack + 64 then None else map_of (write_queue tx) q)) \<and>
    rs = filter (\<lambda>q. unat q \<le> unat ack + 64 \<and> \<not> received rcv q) (map fst (write_queue tx))"
proof -
  have below: "received rcv q" if "unat q \<le> unat ack" for q
    using build_ack_sound [OF assms(1,2)] that by (simp add: acked_def)
  have acked: "acked ack bits q \<longleftrightarrow> received rcv q \<and> unat q \<le> unat ack + 64" for q
    using build_ack_sound [OF assms(1,2)] build_ack_complete [OF assms(1,2)]
    by (auto simp: acked_def)
  have "map_of (write_queue tx') q =
      (if received rcv q \<and> unat q \<le> unat ack + 64 then None else map_of (write_queue tx) q)" for q
    using handle_ack_queue(1) [OF assms(3,4)] by (simp add: acked)
  moreover have "write_queue tx' = bt_retain (\<lambda>sq _. \<not> acked ack bits sq) (write_queue tx)"
    using assms(4) by (auto simp: handle_ack_def Let_def ack_keeps_iff split: if_splits)
  then have "map fst (write_queue tx') = filter (\<lambda>q. \<not> acked ack bits q) (map fst (write_queue tx))"
    by (simp add: bt_retain_def filter_map comp_def case_prod_beta')
  then have "rs = filter (in_window ack) (filter (\<lambda>q. \<not> acked ack bits q) (map fst (write_queue tx)))"
    using handle_ack_queue(2) [OF assms(3,4)] by simp
  then have "rs = filter (\<lambda>q. unat q \<le> unat ack + 64 \<and> \<not> received rcv q) (map fst (write_queue tx))"
    using below by (force simp: acked in_window_def not_le [symmetric] intro!: filter_cong)
  ultimately show ?thesis by blast
qed

theorem sack_exact_witness:
  "fst (handle_ack \<lparr>mode = ModeTcp, established = True, next_write_seq = 5, next_read_seq = 1,
      write_queue = [(1, \<lparr>sp_data = [1], sent_at = 0, retransmits = 0\<rparr>),
        (2, \<lparr>sp_data = [2], sent_at = 0, retransmits = 0\<rparr>),
        (3, \<lparr>sp_data = [3], sent_at = 0, retransmits = 0\<rparr>)],
      read_buffer = [], read_buf_bytes = [], read_waker = None, write_waker = None\<rparr> 1 2) = [2]"
proof -
  let ?tx = "\<lparr>mode = ModeTcp, established = True, next_write_seq = 5, next_read_seq = 1,
      write_queue = [(1, \<lparr>sp_data = [1], sent_at = 0, retransmits = 0\<rparr>),
        (2, \<lparr>sp_data = [2], sent_at = 0, retransmits = 0\<rparr>),
        (3, \<lparr>sp_data = [3], sent_at = 0, retransmits = 0\<rparr>)],
      read_buffer = [], read_buf_bytes = [], read_waker = None, write_waker = None\<rparr>"
  let ?rcv = "(stream_state_new ModeTcp)\<lparr>next_read_seq := 2, read_buffer := [(3, [3])]\<rparr>"
  have ack: "build_ack ?rcv = (1, 2)" by code_simp
  have pos: "1 \<le> unat (next_read_seq ?rcv)" by simp
  have inv: "bt_inv (write_queue ?tx)" by simp
  obtain rs tx' ws where ha: "handle_ack ?tx 1 2 = (rs, tx', ws)" by (metis prod_cases3)
  from sack_exact [OF ack pos inv ha] have "rs = [2]"
    by (simp add: received_def bt_contains_def stream_state_new_def)
  with ha show ?thesis by simp
qed

text \<open>
  A negative acknowledgement is answered from the send queue. In UDP mode the scan over the
  (possibly huge) range returns the queued numbers of the range in ascending order; in TCP mode
  it returns nothing. The queue itself is never changed.
\<close>

theorem handle_nack_result:
  assumes "bt_inv (write_queue s)" and "handle_nack s a b = (rs, s', ws)"
  shows "rs = (if mode s = ModeUdp then filter (\<lambda>q. a \<le> q \<and> q \<le> b) (map fst (write_queue s)) else []) \<and>
    write_queue s' = write_queue s"
  using assms by (auto simp: handle_nack_def Let_def nack_loop_eq split: if_splits)

theorem handle_nack_result_witness:
  "fst (handle_nack ((stream_state_new ModeUdp)\<lparr>write_queue :=
      [(3, \<lparr>sp_data = [1], sent_at = 0, retransmits = 0\<rparr>), (7, \<lparr>sp_data = [2], sent_at = 0, retransmits = 0\<rparr>)]\<rparr>)
      4 (- 1)) = [7]"
proof -
  let ?s = "(stream_state_new ModeUdp)\<lparr>write_queue :=
      [(3, \<lparr>sp_data = [1], sent_at = 0, retransmits = 0\<rparr>), (7, \<lparr>sp_data = [2], sent_at = 0, retransmits = 0\<rparr>)]\<rparr>"
  have inv: "bt_inv (write_queue ?s)" by simp
  obtain rs s' ws where hn: "handle_nack ?s 4 (- 1) = (rs, s', ws)" by (metis prod_cases3)
  from handle_nack_result [OF inv hn] have "rs = [7]" by (simp add: stream_state_new_def)
  with hn show ?thesis by simp
qed

text \<open>
  In-order delivery waits for the missing packet. As long as the packet at the head of the
  line does not arrive, no arrival whatsoever adds a byte to the delivered data, in either mode.
\<close>

theorem delivery_blocks_on_gap:
  assumes "next_read_seq s \<notin> fst ` set ps" and "map_of (read_buffer s) (next_read_seq s) = None"
  shows "read_buf_bytes (push_all s ps) = read_buf_bytes s \<and>
    next_read_seq (push_all s ps) = next_read_seq s"
proof -
  have step: "read_buf_bytes s' = read_buf_bytes s \<and> next_read_seq s' = next_read_seq s \<and>
      map_of (read_buffer s') (next_read_seq s') = None"
    if "push_data s q d = (nack, s', ws)" "q \<noteq> next_read_seq s"
      "map_of (read_buffer s) (next_read_seq s) = None" for s q d nack s' ws
    using that(1)
  proof (cases rule: push_data_cases)
    case dup
    then show ?thesis using that by simp
  next
    case (new rb n acc)
    then show ?thesis using that by (auto simp: drain.simps map_of_bt_insert)
  qed
  show ?thesis using assms
  proof (induction s ps rule: push_all.induct)
    case (2 s q d ps)
    obtain nack s' ws where push: "push_data s q d = (nack, s', ws)" by (metis prod_cases3)
    from step [OF push] "2.prems" have "next_read_seq s' = next_read_seq s"
      "read_buf_bytes s' = read_buf_bytes s" "map_of (read_buffer s') (next_read_seq s') = None"
      by auto
    with "2.IH" "2.prems" push show ?case by auto
  qed simp
qed

theorem delivery_blocks_on_gap_witness:
  "read_buf_bytes (push_all (stream_state_new ModeUdp) [(2, [20]), (3, [30])]) = []"
proof -
  have h: "next_read_seq (stream_state_new ModeUdp) \<notin> fst ` set [(2, [20]), (3, [30] :: bytes)]"
    "map_of (read_buffer (stream_state_new ModeUdp)) (next_read_seq (stream_state_new ModeUdp)) = None"
    by (simp_all add: stream_state_new_def)
  show ?thesis using delivery_blocks_on_gap [OF h] by (simp add: stream_state_new_def)
qed

text \<open>
  C31: the retransmission timer. The streams reported as timed out are exactly the TCP-mode
  streams with an expired packet that has used up its 100 attempts. When there is none, every
  expired packet of every TCP-mode stream is sent again (in order of sequence number) with its
  time and counter updated, nothing else changes in those streams, and UDP-mode streams drop
  the entries older than 30 seconds.
\<close>

theorem retransmission_timer:
  assumes "get_retransmissions r now = ((rs, to), r')"
  shows "to = map fst (filter (\<lambda>(sid, st). gives_up now st) (streams r)) \<and>
    (to = [] \<longrightarrow>
       streams r' = map (\<lambda>(sid, st). (sid, timer_effect now st)) (streams r) \<and>
       rs = concat (map (\<lambda>(sid, st). timer_packets now sid st) (streams r)))"
  using assms retransmission_loop_timeouts retransmission_loop_effect
  by (auto simp: get_retransmissions_def split: prod.splits)

theorem retransmission_timer_witness:
  "fst (get_retransmissions \<lparr>streams = [(5, (stream_state_new ModeTcp)\<lparr>write_queue :=
      [(1, \<lparr>sp_data = [7], sent_at = 0, retransmits = 3\<rparr>),
       (2, \<lparr>sp_data = [8], sent_at = 200000000, retransmits = 3\<rparr>)]\<rparr>)]\<rparr> 300000000)
   = ([(5, 1, [7])], [])"
proof -
  let ?st = "(stream_state_new ModeTcp)\<lparr>write_queue :=
      [(1, \<lparr>sp_data = [7], sent_at = 0, retransmits = 3\<rparr>),
       (2, \<lparr>sp_data = [8], sent_at = 200000000, retransmits = 3\<rparr>)]\<rparr>"
  let ?r = "\<lparr>streams = [(5, ?st)]\<rparr> :: reliability"
  obtain rs to r' where gr: "get_retransmissions ?r 300000000 = ((rs, to), r')"
    by (metis prod.exhaust)
  have "\<not> gives_up 300000000 ?st"
    by (simp add: gives_up_def exhausted_def expired_def duration_since_def millis_def)
  moreover have "timer_packets 300000000 5 ?st = [(5, 1, [7])]"
    by (simp add: timer_packets_def expired_def duration_since_def millis_def stream_state_new_def)
  ultimately show ?thesis using retransmission_timer [OF gr] gr by simp
qed

text \<open>
  C40: the retransmission counters stay within 100. A timer run that reports no timed-out
  stream takes counters of at most 100 to counters of at most 100, so the 32-bit counter never
  wraps around on a stream that is kept alive.
\<close>

theorem retransmit_counter_bound:
  assumes "get_retransmissions r now = ((rs, []), r')"
    and "\<forall>(sid, st) \<in> set (streams r). \<forall>(q, p) \<in> set (write_queue st). retransmits p \<le> 100"
  shows "\<forall>(sid, st) \<in> set (streams r'). \<forall>(q, p) \<in> set (write_queue st). retransmits p \<le> 100"
proof -
  obtain m' out where loop: "retransmission_loop now (streams r) = (m', out, [])"
    and r': "streams r' = m'"
    using assms(1) by (auto simp: get_retransmissions_def split: prod.splits)
  have m': "m' = map (\<lambda>(sid, st). (sid, timer_effect now st)) (streams r)"
    and alive: "\<And>sid st. (sid, st) \<in> set (streams r) \<Longrightarrow> \<not> gives_up now st"
    using retransmission_loop_effect [OF loop] retransmission_loop_timeouts [OF loop]
    by (auto simp: filter_empty_conv dest: sym)
  have "retransmits p \<le> 100"
    if "(sid, st) \<in> set (streams r)" "(q, p) \<in> set (write_queue (timer_effect now st))" for sid st q p
    using assms(2) that alive [OF that(1)]
    by (fastforce simp: timer_effect_def resend_def gives_up_def exhausted_def not_less
        split: if_splits)
  then show ?thesis by (auto simp: r' m')
qed

theorem retransmit_counter_bound_witness:
  "\<exists>rs r'. get_retransmissions \<lparr>streams = [(5, (stream_state_new ModeTcp)\<lparr>write_queue :=
      [(1, \<lparr>sp_data = [7], sent_at = 0, retransmits = 99\<rparr>)]\<rparr>)]\<rparr> 300000000 = ((rs, []), r') \<and>
    (\<forall>(sid, st) \<in> set (streams r'). \<forall>(q, p) \<in> set (write_queue st). retransmits p \<le> 100)"
proof -
  let ?r = "\<lparr>streams = [(5, (stream_state_new ModeTcp)\<lparr>write_queue :=
      [(1, \<lparr>sp_data = [7], sent_at = 0, retransmits = 99\<rparr>)]\<rparr>)]\<rparr> :: reliability"
  have to: "snd (fst (get_retransmissions ?r 300000000)) = []"
    by (simp add: get_retransmissions_def stream_state_new_def duration_since_def millis_def)
  obtain rs r' where gr: "get_retransmissions ?r 300000000 = ((rs, []), r')"
    using to by (metis prod.collapse)
  have "\<forall>(sid, st) \<in> set (streams ?r). \<forall>(q, p) \<in> set (write_queue st). retransmits p \<le> 100"
    by simp
  with retransmit_counter_bound [OF gr] gr show ?thesis by blast
qed

end
