(* ===== verification/Udp_Transport.thy ===== *)
theory Udp_Transport
  imports Reliability
begin

text \<open>
  The UDP transport, src/src/transport/udp.rs: the state behind one stream's mutex, the
  handlers of the stream task (incoming packet, write request, tick, exit), the
  \<open>AsyncRead\<close>/\<open>AsyncWrite\<close> operations, datagram encryption and decryption, the two packet
  dispatchers and the client's connect loop.

  The cipher (crate chacha20poly1305) is a parameter: \<open>enc nonce plain\<close> and
  \<open>dec nonce cipher\<close>; so are the random nonces and the clock readings. A handler that
  sends several packets draws the nonce \<open>rng i\<close> for packet \<open>i\<close>. A mutex is poisoned only by
  a panic, and the profiles of Cargo.toml abort on panic, so locking does not fail here.
\<close>

section \<open>State\<close>

type_synonym cipher = "bytes \<Rightarrow> bytes \<Rightarrow> bytes option"

datatype udp_error =
    ErrClosed | ErrTimeout | ErrRetransmissionTimeout | ErrEncrypt
  | ErrHandshakeTimeout | ErrStreamClosed

datatype io_error = StreamNotFound | WriteZero

datatype 'a poll = Pending | Ready 'a

record udp_stream_inner =
  peer_addr :: sock_addr
  rel :: reliability
  last_received :: instant
  last_sent :: instant
  closed :: bool

record incoming_packet =
  pkt_header :: transport_packet_header
  pkt_payload :: bytes
  pkt_src :: sock_addr

type_synonym out_packet = "packet_kind \<times> u64 \<times> u64 \<times> u64 \<times> bytes"

type_synonym write_channel = "(u64 \<times> bytes) list"

abbreviation get_stream :: "udp_stream_inner \<Rightarrow> u32 \<Rightarrow> stream_state option" where
  "get_stream i sid \<equiv> map_of (streams (rel i)) sid"

definition put_stream :: "u32 \<Rightarrow> stream_state \<Rightarrow> udp_stream_inner \<Rightarrow> udp_stream_inner" where
  "put_stream sid st i = i\<lparr>rel := \<lparr>streams = hm_insert sid st (streams (rel i))\<rparr>\<rparr>"

definition try_send :: "nat \<Rightarrow> 'a \<Rightarrow> 'a list \<Rightarrow> 'a list" where
  "try_send cap x q = (if length q < cap then q @ [x] else q)"

text \<open>\<open>UdpStream::new\<close>: one stream in TCP mode behind the mutex, both channels empty.\<close>

definition udp_stream_new :: "u32 \<Rightarrow> sock_addr \<Rightarrow> instant \<Rightarrow> udp_stream_inner" where
  "udp_stream_new sid addr now =
     \<lparr>peer_addr = addr,
      rel = \<lparr>streams = hm_insert sid (stream_state_new ModeTcp) (streams reliability_new)\<rparr>,
      last_received = now, last_sent = now, closed = False\<rparr>"

section \<open>Sending\<close>

text \<open>
  \<open>send_packet_raw\<close>: choose the acknowledgement fields, encode, encrypt under a fresh nonce,
  hand the datagram to the socket (whose errors are ignored) and note the time. An encryption
  error leaves the state as it was.
\<close>

definition choose_ack ::
  "udp_stream_inner \<Rightarrow> u32 \<Rightarrow> packet_kind \<Rightarrow> u64 option \<Rightarrow> u64 option \<Rightarrow> u64 \<times> u64" where
  "choose_ack i sid pt ack_override bits_override =
     (case get_stream i sid of
        Some state \<Rightarrow>
          if pt = Nack \<or> pt = Sack then
            (case (ack_override, bits_override) of
               (Some a, Some b) \<Rightarrow> (a, b)
             | _ \<Rightarrow> build_ack state)
          else build_ack state
      | None \<Rightarrow> (0, 0))"

definition seal :: "cipher \<Rightarrow> bytes \<Rightarrow> bytes \<Rightarrow> udp_error + bytes" where
  "seal enc nonce buf =
     (case enc nonce buf of None \<Rightarrow> Inl ErrEncrypt | Some c \<Rightarrow> Inr (nonce @ c))"

definition send_packet_raw ::
  "cipher \<Rightarrow> bytes \<Rightarrow> instant \<Rightarrow> udp_stream_inner \<Rightarrow> u32 \<Rightarrow> packet_kind \<Rightarrow> u64 \<Rightarrow>
   u64 option \<Rightarrow> u64 option \<Rightarrow> bytes \<Rightarrow> udp_error + (udp_stream_inner \<times> sock_addr \<times> bytes)" where
  "send_packet_raw enc nonce now i sid pt sq ack_override bits_override d =
     (let (ack, bits) = choose_ack i sid pt ack_override bits_override;
          header = \<lparr>channel_id = sid, hdr_kind = pt, hdr_seq = sq, hdr_ack = ack,
                    hdr_ack_bits = bits\<rparr>;
          buf = encode header [] @ d
      in res_bind (seal enc nonce buf)
           (\<lambda>pkt. Inr (i\<lparr>last_sent := now\<rparr>, peer_addr i, pkt)))"

definition send_packet ::
  "cipher \<Rightarrow> bytes \<Rightarrow> instant \<Rightarrow> udp_stream_inner \<Rightarrow> u32 \<Rightarrow> packet_kind \<Rightarrow> u64 \<Rightarrow> bytes \<Rightarrow>
   udp_error + (udp_stream_inner \<times> sock_addr \<times> bytes)" where
  "send_packet enc nonce now i sid pt sq d = send_packet_raw enc nonce now i sid pt sq None None d"

text \<open>
  The send loop at the end of both handlers: packets go out in order and the loop leaves at
  the first error. The datagrams already sent stay sent.
\<close>

fun send_loop ::
  "cipher \<Rightarrow> (nat \<Rightarrow> bytes) \<Rightarrow> instant \<Rightarrow> udp_stream_inner \<Rightarrow> (u32 \<times> out_packet) list \<Rightarrow>
   udp_stream_inner \<times> (sock_addr \<times> bytes) list \<times> (udp_error + unit)" where
  "send_loop enc rng now i [] = (i, [], Inr ())"
| "send_loop enc rng now i ((sid, pt, sq, ack, bits, d) # ps) =
     (case send_packet_raw enc (rng 0) now i sid pt sq (Some ack) (Some bits) d of
        Inl e \<Rightarrow> (i, [], Inl e)
      | Inr (i', dest, pkt) \<Rightarrow>
          (let (i'', sent, r) = send_loop enc (\<lambda>n. rng (Suc n)) now i' ps
           in (i'', (dest, pkt) # sent, r)))"

section \<open>Incoming packets\<close>

fun resend_loop ::
  "instant \<Rightarrow> (u64, sent_packet) btree_map \<Rightarrow> u64 list \<Rightarrow>
   (u64, sent_packet) btree_map \<times> out_packet list" where
  "resend_loop now wq [] = (wq, [])"
| "resend_loop now wq (sq # sqs) =
     (case bt_get wq sq of
        None \<Rightarrow> resend_loop now wq sqs
      | Some p \<Rightarrow>
          (let (wq', outs) = resend_loop now (bt_insert sq (p\<lparr>sent_at := now\<rparr>) wq) sqs
           in (wq', (Stream, sq, 0, 0, sp_data p) # outs)))"

text \<open>
  What \<open>handle_incoming\<close> does to one stream for each packet kind: the new state, whether the
  connection is closed, the packets to send, and the wakers woken.
\<close>

definition on_stream_data ::
  "stream_state \<Rightarrow> transport_packet_header \<Rightarrow> bytes \<Rightarrow>
   stream_state \<times> out_packet list \<times> waker list" where
  "on_stream_data st h payload =
     (let (nack, st1, ws) = push_data st (hdr_seq h) payload;
          outs = (case nack of
                    Some (start, end) \<Rightarrow> [(Nack, start, end, 0, [])]
                  | None \<Rightarrow>
                      if mode st1 = ModeTcp
                      then (let (ack, bits) = build_ack st1 in [(Sack, 0, ack, bits, [])])
                      else [])
      in (st1\<lparr>read_waker := None\<rparr>, outs, ws @ wake (read_waker st1)))"

definition on_ack ::
  "instant \<Rightarrow> stream_state \<Rightarrow> transport_packet_header \<Rightarrow>
   stream_state \<times> out_packet list \<times> waker list" where
  "on_ack now st h =
     (let (retransmit, st1, ws) =
            (if hdr_kind h = Nack then handle_nack st (hdr_seq h) (hdr_ack h)
             else handle_ack st (hdr_ack h) (hdr_ack_bits h));
          (wq, outs) = resend_loop now (write_queue st1) retransmit;
          st2 = st1\<lparr>write_queue := wq\<rparr>
      in if wq = [] then (st2\<lparr>write_waker := None\<rparr>, outs, ws @ wake (write_waker st2))
         else (st2, outs, ws))"

definition handle_packet ::
  "instant \<Rightarrow> stream_state \<Rightarrow> transport_packet_header \<Rightarrow> bytes \<Rightarrow>
   stream_state \<times> bool \<times> out_packet list \<times> waker list" where
  "handle_packet now st h payload =
     (case hdr_kind h of
        StreamOpen \<Rightarrow> (st\<lparr>established := True\<rparr>, False, [(StreamOpenAck, 0, 0, 0, [])], [])
      | StreamOpenAck \<Rightarrow> (st\<lparr>established := True\<rparr>, False, [], [])
      | StreamClose \<Rightarrow>
          (st\<lparr>read_waker := None, write_waker := None\<rparr>, True, [],
           wake (read_waker st) @ wake (write_waker st))
      | Stream \<Rightarrow> (let (st1, outs, ws) = on_stream_data st h payload in (st1, False, outs, ws))
      | Sack \<Rightarrow> (let (st1, outs, ws) = on_ack now st h in (st1, False, outs, ws))
      | Nack \<Rightarrow> (let (st1, outs, ws) = on_ack now st h in (st1, False, outs, ws))
      | KeepalivePing \<Rightarrow> (st, False, [(KeepalivePong, 0, 0, 0, [])], [])
      | KeepalivePong \<Rightarrow> (st, False, [], [])
      | Service \<Rightarrow> (st, False, [], []))"

text \<open>The section of \<open>handle_incoming\<close> under the lock.\<close>

definition handle_incoming_locked ::
  "instant \<Rightarrow> udp_stream_inner \<Rightarrow> incoming_packet \<Rightarrow>
   udp_stream_inner \<times> out_packet list \<times> waker list" where
  "handle_incoming_locked now i pkt =
     (if closed i then (i, [], [])
      else
        (let sid = channel_id (pkt_header pkt);
             i1 = i\<lparr>last_received := now, peer_addr := pkt_src pkt\<rparr>;
             st = (case get_stream i1 sid of Some s \<Rightarrow> s | None \<Rightarrow> stream_state_new ModeTcp);
             (st', close, outs, ws) = handle_packet now st (pkt_header pkt) (pkt_payload pkt);
             i2 = put_stream sid st' i1
         in ((if close then i2\<lparr>closed := True\<rparr> else i2), outs, ws)))"

definition handle_incoming ::
  "cipher \<Rightarrow> (nat \<Rightarrow> bytes) \<Rightarrow> instant \<Rightarrow> udp_stream_inner \<Rightarrow> incoming_packet \<Rightarrow>
   udp_stream_inner \<times> (sock_addr \<times> bytes) list \<times> waker list \<times> (udp_error + unit)" where
  "handle_incoming enc rng now i pkt =
     (let (i1, outs, ws) = handle_incoming_locked now i pkt;
          sid = channel_id (pkt_header pkt);
          (i2, sent, r) = send_loop enc rng now i1 (map (\<lambda>p. (sid, p)) outs)
      in (i2, sent, ws, r))"

section \<open>The tick\<close>

definition handle_tick_locked ::
  "instant \<Rightarrow> udp_stream_inner \<Rightarrow> udp_stream_inner \<times> (udp_error + (u32 \<times> out_packet) list)" where
  "handle_tick_locked now i =
     (if closed i then (i, Inl ErrClosed)
      else
        let has_pending_writes = list_ex (\<lambda>(_, s). write_queue s \<noteq> []) (streams (rel i))
        in if \<not> has_pending_writes \<and> duration_since now (last_received i) > secs 300
           then (i, Inl ErrTimeout)
           else
             (let pings =
                    (if duration_since now (last_sent i) > secs 5
                     then map (\<lambda>(sid, _). (sid, KeepalivePing, 0, 0, 0, [])) (streams (rel i))
                     else []);
                  ((rs, timed_out), r') = get_retransmissions (rel i) now;
                  i1 = i\<lparr>rel := r'\<rparr>
              in if timed_out \<noteq> [] then (i1, Inl ErrRetransmissionTimeout)
                 else (i1, Inr (pings @ map (\<lambda>(sid, sq, d). (sid, Stream, sq, 0, 0, d)) rs))))"

definition handle_tick ::
  "cipher \<Rightarrow> (nat \<Rightarrow> bytes) \<Rightarrow> instant \<Rightarrow> udp_stream_inner \<Rightarrow>
   udp_stream_inner \<times> (sock_addr \<times> bytes) list \<times> (udp_error + unit)" where
  "handle_tick enc rng now i =
     (case handle_tick_locked now i of
        (i1, Inl e) \<Rightarrow> (i1, [], Inl e)
      | (i1, Inr outs) \<Rightarrow> send_loop enc rng now i1 outs)"

section \<open>The stream task\<close>

text \<open>
  One turn of the \<open>select!\<close> loop spawned by \<open>UdpStream::new\<close>: the event that fired, and the
  outcome. \<open>None\<close> as packet or write request is a closed channel. A turn that breaks out of
  the loop runs the clean-up at the end of the task.
\<close>

datatype task_event =
    PacketEv "incoming_packet option"
  | WriteEv "(u64 \<times> bytes) option"
  | TickEv
  | ShutdownEv

record task_result =
  tr_inner :: udp_stream_inner
  tr_sent :: "(sock_addr \<times> bytes) list"
  tr_woken :: "waker list"
  tr_break :: bool

definition task_turn ::
  "cipher \<Rightarrow> (nat \<Rightarrow> bytes) \<Rightarrow> instant \<Rightarrow> u32 \<Rightarrow> udp_stream_inner \<Rightarrow> task_event \<Rightarrow> task_result" where
  "task_turn enc rng now sid i ev =
     (case ev of
        PacketEv None \<Rightarrow> \<lparr>tr_inner = i, tr_sent = [], tr_woken = [], tr_break = True\<rparr>
      | PacketEv (Some pkt) \<Rightarrow>
          (let (i', sent, ws, r) = handle_incoming enc rng now i pkt
           in \<lparr>tr_inner = i', tr_sent = sent, tr_woken = ws, tr_break = isl r\<rparr>)
      | WriteEv None \<Rightarrow> \<lparr>tr_inner = i, tr_sent = [], tr_woken = [], tr_break = True\<rparr>
      | WriteEv (Some (sq, d)) \<Rightarrow>
          if sq = 0 then
            (case send_packet enc (rng 0) now i sid StreamClose 0 [] of
               Inl _ \<Rightarrow> \<lparr>tr_inner = i, tr_sent = [], tr_woken = [], tr_break = False\<rparr>
             | Inr (i', out) \<Rightarrow>
                 \<lparr>tr_inner = i', tr_sent = [out], tr_woken = [], tr_break = False\<rparr>)
          else
            (case send_packet enc (rng 0) now i sid Stream sq d of
               Inl _ \<Rightarrow> \<lparr>tr_inner = i, tr_sent = [], tr_woken = [], tr_break = True\<rparr>
             | Inr (i', out) \<Rightarrow>
                 \<lparr>tr_inner = i', tr_sent = [out], tr_woken = [], tr_break = False\<rparr>)
      | TickEv \<Rightarrow>
          (let (i', sent, r) = handle_tick enc rng now i
           in \<lparr>tr_inner = i', tr_sent = sent, tr_woken = [], tr_break = isl r\<rparr>)
      | ShutdownEv \<Rightarrow> \<lparr>tr_inner = i, tr_sent = [], tr_woken = [], tr_break = True\<rparr>)"

text \<open>Mark the stream closed and wake whoever waits on it; the same code runs at task exit
  and when the client's receive loop sees a socket error.\<close>

definition close_and_wake :: "u32 \<Rightarrow> udp_stream_inner \<Rightarrow> udp_stream_inner \<times> waker list" where
  "close_and_wake sid i =
     (let i1 = i\<lparr>closed := True\<rparr>
      in case get_stream i1 sid of
           None \<Rightarrow> (i1, [])
         | Some st \<Rightarrow>
             (put_stream sid (st\<lparr>read_waker := None, write_waker := None\<rparr>) i1,
              wake (read_waker st) @ wake (write_waker st)))"

definition task_exit ::
  "u32 \<Rightarrow> udp_stream_inner \<Rightarrow> (u32, 'c) hash_map option \<Rightarrow>
   udp_stream_inner \<times> waker list \<times> (u32, 'c) hash_map option" where
  "task_exit sid i active =
     (let (i', ws) = close_and_wake sid i
      in (i', ws, map_option (hm_remove sid) active))"

section \<open>Reading and writing\<close>

text \<open>\<open>poll_read\<close> with room for \<open>n\<close> bytes; the bytes put into the caller's buffer.\<close>

definition poll_read ::
  "waker \<Rightarrow> nat \<Rightarrow> u32 \<Rightarrow> udp_stream_inner \<Rightarrow> (io_error + bytes) poll \<times> udp_stream_inner" where
  "poll_read cx n sid i =
     (case get_stream i sid of
        None \<Rightarrow> (Ready (Inl StreamNotFound), i)
      | Some st \<Rightarrow>
          if read_buf_bytes st \<noteq> [] then
            (let len = min n (length (read_buf_bytes st))
             in (Ready (Inr (take len (read_buf_bytes st))),
                 put_stream sid (st\<lparr>read_buf_bytes := drop len (read_buf_bytes st)\<rparr>) i))
          else if closed i then (Ready (Inr []), i)
          else (Pending, put_stream sid (st\<lparr>read_waker := Some cx\<rparr>) i))"

definition poll_write ::
  "waker \<Rightarrow> instant \<Rightarrow> bytes \<Rightarrow> u32 \<Rightarrow> udp_stream_inner \<Rightarrow> write_channel \<Rightarrow>
   (io_error + nat) poll \<times> udp_stream_inner \<times> write_channel" where
  "poll_write cx now buf sid i tx =
     (if closed i then (Ready (Inl WriteZero), i, tx)
      else case get_stream i sid of
        None \<Rightarrow> (Ready (Inl StreamNotFound), i, tx)
      | Some st \<Rightarrow>
          if 1024 \<le> length (write_queue st)
          then (Pending, put_stream sid (st\<lparr>write_waker := Some cx\<rparr>) i, tx)
          else
            (let chunk_len = min (length buf) 1100;
                 chunk = take chunk_len buf;
                 sq = next_write_seq st;
                 st' = st\<lparr>next_write_seq := sq + 1,
                          write_queue := bt_insert sq
                            \<lparr>sp_data = chunk, sent_at = now, retransmits = 0\<rparr> (write_queue st)\<rparr>
             in (Ready (Inr chunk_len), put_stream sid st' i, try_send 1024 (sq, chunk) tx)))"

definition poll_flush :: "(io_error + unit) poll" where
  "poll_flush = Ready (Inr ())"

definition poll_shutdown ::
  "udp_stream_inner \<Rightarrow> write_channel \<Rightarrow> (io_error + unit) poll \<times> udp_stream_inner \<times> write_channel" where
  "poll_shutdown i tx = (Ready (Inr ()), i\<lparr>closed := True\<rparr>, try_send 1024 (0, []) tx)"

definition set_udp_nack_mode :: "u32 \<Rightarrow> udp_stream_inner \<Rightarrow> udp_stream_inner" where
  "set_udp_nack_mode sid i =
     (case get_stream i sid of
        None \<Rightarrow> i
      | Some st \<Rightarrow> put_stream sid (st\<lparr>mode := ModeUdp\<rparr>) i)"

section \<open>Receiving and dispatching datagrams\<close>

text \<open>
  The receive loops of \<open>bind\<close> and \<open>connect\<close>: the socket fills a buffer of 2048 bytes (the rest
  of a longer datagram is lost); short, undecryptable and headerless datagrams are skipped.
\<close>

definition recv_datagram :: "cipher \<Rightarrow> bytes \<Rightarrow> (transport_packet_header \<times> bytes) option" where
  "recv_datagram dec dgram =
     (let buf = take 2048 dgram
      in if length buf < 28 then None
         else case dec (take 12 buf) (drop 12 buf) of
                None \<Rightarrow> None
              | Some decrypted \<Rightarrow> decode decrypted)"

text \<open>
  The listener: the packet channels of the active streams, and the streams handed to
  \<open>accept\<close>. A stream is represented by its identifier, its inner state and its packet
  channel.
\<close>

record listener_stream =
  ls_inner :: udp_stream_inner
  ls_chan :: "incoming_packet list"

record listener =
  active_streams :: "(u32, listener_stream) hash_map"
  incoming :: "u32 list"

definition listener_new :: listener where
  "listener_new = \<lparr>active_streams = [], incoming = []\<rparr>"

definition enqueue_packet :: "incoming_packet \<Rightarrow> listener_stream \<Rightarrow> listener_stream" where
  "enqueue_packet pkt ls = ls\<lparr>ls_chan := try_send 1024 pkt (ls_chan ls)\<rparr>"

definition listener_on_packet ::
  "cipher \<Rightarrow> bytes \<Rightarrow> instant \<Rightarrow> listener \<Rightarrow> sock_addr \<Rightarrow> transport_packet_header \<Rightarrow> bytes \<Rightarrow>
   listener \<times> (sock_addr \<times> bytes) option" where
  "listener_on_packet enc nonce now l src h payload =
     (let sid = channel_id h;
          pkt = \<lparr>pkt_header = h, pkt_payload = payload, pkt_src = src\<rparr>
      in case map_of (active_streams l) sid of
           Some ls \<Rightarrow>
             (l\<lparr>active_streams := hm_insert sid (enqueue_packet pkt ls) (active_streams l)\<rparr>, None)
         | None \<Rightarrow>
             if hdr_kind h = StreamOpen then
               (let ls = \<lparr>ls_inner = udp_stream_new sid src now, ls_chan = []\<rparr>
                in (l\<lparr>active_streams := hm_insert sid (enqueue_packet pkt ls) (active_streams l),
                      incoming := incoming l @ [sid]\<rparr>, None))
             else
               (let close_header = \<lparr>channel_id = sid, hdr_kind = StreamClose, hdr_seq = 0,
                                    hdr_ack = 0, hdr_ack_bits = 0\<rparr>
                in (l, (case seal enc nonce (encode close_header []) of
                          Inl _ \<Rightarrow> None
                        | Inr pkt \<Rightarrow> Some (src, pkt)))))"

definition connected_on_packet ::
  "u32 \<Rightarrow> sock_addr \<Rightarrow> incoming_packet list \<Rightarrow> sock_addr \<Rightarrow> transport_packet_header \<Rightarrow> bytes \<Rightarrow>
   incoming_packet list" where
  "connected_on_packet sid dest chan src h payload =
     (if src \<noteq> dest \<or> channel_id h \<noteq> sid then chan
      else try_send 1024 \<lparr>pkt_header = h, pkt_payload = payload, pkt_src = src\<rparr> chan)"

text \<open>One datagram of the listener's receive loop, from the socket to the stream's channel.\<close>

definition listener_recv ::
  "cipher \<Rightarrow> cipher \<Rightarrow> bytes \<Rightarrow> instant \<Rightarrow> listener \<Rightarrow> sock_addr \<Rightarrow> bytes \<Rightarrow>
   listener \<times> (sock_addr \<times> bytes) option" where
  "listener_recv enc dec nonce now l src dgram =
     (case recv_datagram dec dgram of
        None \<Rightarrow> (l, None)
      | Some (h, payload) \<Rightarrow> listener_on_packet enc nonce now l src h payload)"

section \<open>Connecting\<close>

text \<open>
  \<open>UdpStream::connect\<close>. A turn of the loop looks at the time since the start and at the state
  under the lock; it ends the loop or sends a \<open>StreamOpen\<close> and waits for the next tick. The
  turns see the clock readings and states the environment leaves, in order; \<open>None\<close> means the
  loop is still waiting after the last one.
\<close>

fun connect_loop ::
  "instant \<Rightarrow> (instant \<times> udp_stream_inner) list \<Rightarrow> cipher \<Rightarrow> (nat \<Rightarrow> bytes) \<Rightarrow> u32 \<Rightarrow>
   (udp_error + unit) option \<times> bytes list" where
  "connect_loop start [] enc rng sid = (None, [])"
| "connect_loop start ((now, i) # turns) enc rng sid =
     (if duration_since now start > secs 10 then (Some (Inl ErrHandshakeTimeout), [])
      else if closed i then (Some (Inl ErrStreamClosed), [])
      else if (case get_stream i sid of Some st \<Rightarrow> established st | None \<Rightarrow> False)
      then (Some (Inr ()), [])
      else case send_packet enc (rng 0) now i sid StreamOpen 0 [] of
             Inl e \<Rightarrow> (Some (Inl e), [])
           | Inr (_, _, pkt) \<Rightarrow>
               (let (r, sent) = connect_loop start turns enc (\<lambda>n. rng (Suc n)) sid
                in (r, pkt # sent)))"

text \<open>
  One turn of the receive loop that \<open>UdpTransport::connect\<close> spawns: datagrams go to the stream's packet channel, an
  error of the socket closes the stream and ends the loop (the last component).
\<close>

datatype recv_result = RecvErr | RecvFrom sock_addr bytes

definition connected_recv ::
  "cipher \<Rightarrow> u32 \<Rightarrow> sock_addr \<Rightarrow> recv_result \<Rightarrow> udp_stream_inner \<Rightarrow> incoming_packet list \<Rightarrow>
   udp_stream_inner \<times> incoming_packet list \<times> waker list \<times> bool" where
  "connected_recv dec sid dest res i chan =
     (case res of
        RecvErr \<Rightarrow> (let (i', ws) = close_and_wake sid i in (i', chan, ws, True))
      | RecvFrom src dgram \<Rightarrow>
          (case recv_datagram dec dgram of
             None \<Rightarrow> (i, chan, [], False)
           | Some (h, payload) \<Rightarrow> (i, connected_on_packet sid dest chan src h payload, [], False)))"

section \<open>Frame lemmas\<close>

lemma get_put_stream [simp]:
  "map_of (streams (rel (put_stream sid st i))) = (map_of (streams (rel i)))(sid \<mapsto> st)"
  by (simp add: put_stream_def update_conv')

lemma put_stream_frame [simp]:
  "closed (put_stream sid st i) = closed i" "peer_addr (put_stream sid st i) = peer_addr i"
  "last_sent (put_stream sid st i) = last_sent i"
  by (simp_all add: put_stream_def)

lemma set_bt_insert_length: "length (bt_insert k v m) \<le> Suc (length m)"
  by (induction k v m rule: bt_insert.induct) auto

lemma length_bt_insert_present:
  "map_of m k = Some v0 \<Longrightarrow> bt_inv m \<Longrightarrow> length (bt_insert k v m) = length m"
  using btm.length_keys [of "bt_insert k v m"] btm.length_keys [of m]
  by (simp add: btm.invar_ins btm.get_ins insert_absorb domIff)

section \<open>Properties\<close>



text \<open>
  C36: dispatch by the listener. A datagram that decrypts to a header for a known stream goes
  to the end of that stream's channel (or is dropped when the channel holds 1024 packets); an
  unknown \<open>StreamOpen\<close> creates the stream and announces it once; anything else for an unknown
  stream changes nothing and is answered with a \<open>StreamClose\<close>. No other stream is touched.
\<close>

theorem listener_dispatch:
  fixes enc :: cipher
  assumes "listener_on_packet enc nonce now l src h payload = (l', reply)"
  shows "(\<forall>sid. sid \<noteq> channel_id h \<longrightarrow>
            map_of (active_streams l') sid = map_of (active_streams l) sid) \<and>
    (case map_of (active_streams l) (channel_id h) of
       Some ls \<Rightarrow> reply = None \<and> incoming l' = incoming l \<and>
         map_of (active_streams l') (channel_id h) =
           Some (ls\<lparr>ls_chan := try_send 1024
             \<lparr>pkt_header = h, pkt_payload = payload, pkt_src = src\<rparr> (ls_chan ls)\<rparr>)
     | None \<Rightarrow>
         if hdr_kind h = StreamOpen
         then reply = None \<and> incoming l' = incoming l @ [channel_id h] \<and>
           map_of (active_streams l') (channel_id h) =
             Some \<lparr>ls_inner = udp_stream_new (channel_id h) src now,
                   ls_chan = [\<lparr>pkt_header = h, pkt_payload = payload, pkt_src = src\<rparr>]\<rparr>
         else l' = l \<and> (\<forall>c. enc nonce (encode \<lparr>channel_id = channel_id h, hdr_kind = StreamClose,
             hdr_seq = 0, hdr_ack = 0, hdr_ack_bits = 0\<rparr> []) = Some c \<longrightarrow>
             reply = Some (src, nonce @ c)))"
proof (cases "map_of (active_streams l) (channel_id h)")
  case (Some ls)
  with assms show ?thesis
    by (auto simp: listener_on_packet_def Let_def enqueue_packet_def update_conv')
next
  case None
  with assms show ?thesis
    by (cases "hdr_kind h = StreamOpen")
      (auto simp: listener_on_packet_def Let_def enqueue_packet_def try_send_def update_conv'
        seal_def split: option.splits)
qed

theorem listener_dispatch_witness:
  "incoming (fst (listener_on_packet (\<lambda>n p. Some p) [] 0 listener_new (V4 1 2)
     \<lparr>channel_id = 9, hdr_kind = StreamOpen, hdr_seq = 0, hdr_ack = 0, hdr_ack_bits = 0\<rparr> [])) = [9]"
proof -
  let ?h = "\<lparr>channel_id = 9, hdr_kind = StreamOpen, hdr_seq = 0, hdr_ack = 0, hdr_ack_bits = 0\<rparr>"
  obtain l' reply where l: "listener_on_packet (\<lambda>n p. Some p) [] 0 listener_new (V4 1 2) ?h [] = (l', reply)"
    by (metis prod.exhaust)
  from listener_dispatch [OF l] l show ?thesis by (simp add: listener_new_def)
qed



text \<open>
  Shutting down abandons unacknowledged data. Whatever the send queue of the stream holds,
  after \<open>poll_shutdown\<close> the next tick ends the task without a retransmission, and an
  acknowledgement or a retransmission request that arrives meanwhile is ignored.
\<close>

theorem shutdown_abandons_queue:
  assumes "poll_shutdown i tx = (r, i', tx')"
  shows "handle_tick_locked now i' = (i', Inl ErrClosed) \<and>
    handle_incoming_locked now i' pkt = (i', [], []) \<and> rel i' = rel i"
  using assms by (auto simp: poll_shutdown_def handle_tick_locked_def handle_incoming_locked_def)

theorem shutdown_abandons_queue_witness:
  "handle_tick_locked 1 ((udp_stream_new 1 (V4 0 0) 0)\<lparr>closed := True\<rparr>) =
     ((udp_stream_new 1 (V4 0 0) 0)\<lparr>closed := True\<rparr>, Inl ErrClosed)"
proof -
  have "poll_shutdown (udp_stream_new 1 (V4 0 0) 0) [] =
      (Ready (Inr ()), (udp_stream_new 1 (V4 0 0) 0)\<lparr>closed := True\<rparr>, [(0, [])])"
    by (simp add: poll_shutdown_def try_send_def)
  from shutdown_abandons_queue [OF this] show ?thesis by blast
qed

text \<open>
  A writer parked in UDP mode is not woken by the timer. A UDP-mode stream whose queue is
  full parks the writer; a later tick that empties the queue of stale entries succeeds, yet the
  writer's waker is still registered and no waker is woken.
\<close>

theorem udp_writer_stays_parked:
  assumes "\<not> closed i" and "streams (rel i) = [(sid, st)]" and "mode st = ModeUdp"
    and "1024 \<le> length (write_queue st)"
    and "\<forall>(q, p) \<in> set (write_queue st). sent_at p + secs 30 \<le> later"
  shows "\<exists>i1 i2 outs st2. poll_write cx now buf sid i tx = (Pending, i1, tx) \<and>
    handle_tick_locked later i1 = (i2, Inr outs) \<and> get_stream i2 sid = Some st2 \<and>
    write_queue st2 = [] \<and> write_waker st2 = Some cx"
proof -
  let ?st = "st\<lparr>write_waker := Some cx\<rparr>"
  let ?i = "put_stream sid ?st i"
  have pw: "poll_write cx now buf sid i tx = (Pending, ?i, tx)"
    using assms by (simp add: poll_write_def)
  have s: "streams (rel ?i) = [(sid, ?st)]" using assms(2) by (simp add: put_stream_def)
  have "bt_retain (\<lambda>_ p. duration_since later (sent_at p) < secs 30) (write_queue st) = []"
    using assms(5) by (fastforce simp: bt_retain_def duration_since_def filter_empty_conv)
  then have gr: "get_retransmissions (rel ?i) later =
      (([], []), (rel ?i)\<lparr>streams := [(sid, ?st\<lparr>write_queue := []\<rparr>)]\<rparr>)"
    using s assms(3) by (simp add: get_retransmissions_def)
  have "list_ex (\<lambda>(_, s). write_queue s \<noteq> []) (streams (rel ?i))"
    using s assms(4) by (auto simp: s)
  then obtain outs where "handle_tick_locked later ?i =
      (?i\<lparr>rel := (rel ?i)\<lparr>streams := [(sid, ?st\<lparr>write_queue := []\<rparr>)]\<rparr>\<rparr>, Inr outs)"
    using assms(1) gr by (simp add: handle_tick_locked_def)
  with pw show ?thesis by auto
qed

theorem udp_writer_stays_parked_witness:
  "\<exists>i i1 i2 outs st2. poll_write 7 0 [1] 1 i [] = (Pending, i1, []) \<and>
    handle_tick_locked (secs 60) i1 = (i2, Inr outs) \<and> get_stream i2 1 = Some st2 \<and>
    write_queue st2 = [] \<and> write_waker st2 = Some 7"
proof -
  let ?q = "map (\<lambda>k. (of_nat k :: u64, \<lparr>sp_data = [], sent_at = 0, retransmits = 0\<rparr>)) [1..<1025]"
  let ?st = "(stream_state_new ModeUdp)\<lparr>write_queue := ?q\<rparr>"
  let ?i = "\<lparr>peer_addr = V4 0 0, rel = \<lparr>streams = [(1, ?st)]\<rparr>, last_received = 0, last_sent = 0,
      closed = False\<rparr>"
  have h: "\<not> closed ?i" "streams (rel ?i) = [(1, ?st)]" "mode ?st = ModeUdp"
    "1024 \<le> length (write_queue ?st)"
    "\<forall>(q, p) \<in> set (write_queue ?st). sent_at p + secs 30 \<le> secs 60"
    by (auto simp: stream_state_new_def secs_def)
  show ?thesis using udp_writer_stays_parked [OF h, of 7 0 "[1]" "[]"] by blast
qed

text \<open>
  The receive loop of a connected stream. The packet channel only ever gains, at its end, a datagram of the
  peer for this stream, and never holds more than 1024 packets; the state behind the lock changes only when
  the socket fails, and then the stream is closed with nobody left waiting on it.
\<close>

lemma connected_recv_exact:
  assumes "connected_recv dec sid dest res i chan = (i', chan', ws, stop)" and "length chan \<le> 1024"
  shows "length chan' \<le> 1024 \<and> stop = (res = RecvErr) \<and> (\<not> stop \<longrightarrow> i' = i \<and> ws = []) \<and>
    (chan' = chan \<or> (\<exists>h p dgram. res = RecvFrom dest dgram \<and> recv_datagram dec dgram = Some (h, p) \<and> channel_id h = sid \<and>
       chan' = chan @ [\<lparr>pkt_header = h, pkt_payload = p, pkt_src = dest\<rparr>])) \<and>
    (stop \<longrightarrow> closed i' \<and> (\<forall>st. get_stream i' sid = Some st \<longrightarrow> read_waker st = None \<and> write_waker st = None))"
proof (cases res)
  case RecvErr
  with assms show ?thesis
    by (auto simp: connected_recv_def close_and_wake_def Let_def split: option.splits)
next
  case (RecvFrom src dgram)
  with assms show ?thesis
    by (auto simp: connected_recv_def connected_on_packet_def try_send_def split: option.splits if_splits)
qed

end
