(* ===== verification/Udp_Channel.thy ===== *)
theory Udp_Channel
  imports Udp_Transport
begin

text \<open>
  Two endpoints of one UDP stream over a hostile network. The steps are the operations of
  \<open>Udp_Transport\<close>, interleaved at the points where the code releases the lock: a reader or a
  writer may run between the locked section of a handler and each of its sends. The network
  may lose, duplicate, delay and reorder datagrams, and may carry forged ones as long as they
  do not decrypt. The endpoints record two histories: the chunks \<open>poll_write\<close> accepted and the
  bytes \<open>poll_read\<close> returned.
\<close>

section \<open>The system\<close>

datatype side = Near | Far

fun other :: "side \<Rightarrow> side" where
  "other Near = Far"
| "other Far = Near"

lemma other_simps [simp]: "other (other x) = x" "other x \<noteq> x" "x \<noteq> other x"
  by (cases x; simp)+

record endpoint =
  ep_inner :: udp_stream_inner
  ep_tx :: write_channel
  ep_out :: "(u32 \<times> out_packet) list"
  ep_hist :: "bytes list"
  ep_read :: bytes

record system =
  ep :: "side \<Rightarrow> endpoint"
  net :: "side \<Rightarrow> bytes set"

definition set_ep :: "side \<Rightarrow> endpoint \<Rightarrow> system \<Rightarrow> system" where
  "set_ep x e s = s\<lparr>ep := (ep s)(x := e)\<rparr>"

definition emit :: "side \<Rightarrow> bytes set \<Rightarrow> system \<Rightarrow> system" where
  "emit x ds s = s\<lparr>net := (net s)(x := net s x \<union> ds)\<rparr>"

definition system_new :: "u32 \<Rightarrow> (side \<Rightarrow> sock_addr) \<Rightarrow> instant \<Rightarrow> system" where
  "system_new sid addr now =
     \<lparr>ep = (\<lambda>x. \<lparr>ep_inner = udp_stream_new sid (addr x) now, ep_tx = [], ep_out = [],
                 ep_hist = [], ep_read = []\<rparr>),
      net = (\<lambda>_. {})\<rparr>"

definition accepted :: "(io_error + nat) poll \<Rightarrow> bytes \<Rightarrow> bytes list" where
  "accepted r buf = (case r of Ready (Inr n) \<Rightarrow> [take n buf] | _ \<Rightarrow> [])"

definition returned :: "(io_error + bytes) poll \<Rightarrow> bytes" where
  "returned r = (case r of Ready (Inr bs) \<Rightarrow> bs | _ \<Rightarrow> [])"

text \<open>A task that leaves its loop closes the stream; whatever it still had to send is lost.\<close>

definition stop_task :: "u32 \<Rightarrow> endpoint \<Rightarrow> endpoint" where
  "stop_task sid e = e\<lparr>ep_inner := fst (close_and_wake sid (ep_inner e)), ep_out := []\<rparr>"

inductive chan_step :: "cipher \<Rightarrow> cipher \<Rightarrow> u32 \<Rightarrow> system \<Rightarrow> system \<Rightarrow> bool"
  for enc dec :: cipher and sid :: u32 where
  app_write: "e = ep s x \<Longrightarrow> poll_write cx now buf sid (ep_inner e) (ep_tx e) = (r, i, tx) \<Longrightarrow>
    chan_step enc dec sid s
      (set_ep x (e\<lparr>ep_inner := i, ep_tx := tx, ep_hist := ep_hist e @ accepted r buf\<rparr>) s)"
| app_read: "e = ep s x \<Longrightarrow> poll_read cx n sid (ep_inner e) = (r, i) \<Longrightarrow>
    chan_step enc dec sid s
      (set_ep x (e\<lparr>ep_inner := i, ep_read := ep_read e @ returned r\<rparr>) s)"
| app_shutdown: "e = ep s x \<Longrightarrow> poll_shutdown (ep_inner e) (ep_tx e) = (r, i, tx) \<Longrightarrow>
    chan_step enc dec sid s (set_ep x (e\<lparr>ep_inner := i, ep_tx := tx\<rparr>) s)"
| set_nack_mode: "e = ep s x \<Longrightarrow>
    chan_step enc dec sid s (set_ep x (e\<lparr>ep_inner := set_udp_nack_mode sid (ep_inner e)\<rparr>) s)"
| task_transmit: "e = ep s x \<Longrightarrow> ep_out e = [] \<Longrightarrow> ep_tx e = w # tx \<Longrightarrow>
    \<forall>n. length (rng n) = 12 \<Longrightarrow>
    task_turn enc rng now sid (ep_inner e) (WriteEv (Some w)) = tr \<Longrightarrow>
    e' = e\<lparr>ep_inner := tr_inner tr, ep_tx := tx\<rparr> \<Longrightarrow>
    chan_step enc dec sid s
      (emit x (snd ` set (tr_sent tr)) (set_ep x (if tr_break tr then stop_task sid e' else e') s))"
| task_deliver: "e = ep s x \<Longrightarrow> ep_out e = [] \<Longrightarrow> dgram \<in> net s (other x) \<Longrightarrow>
    recv_datagram dec dgram = Some (h, payload) \<Longrightarrow> channel_id h = sid \<Longrightarrow>
    handle_incoming_locked now (ep_inner e)
      \<lparr>pkt_header = h, pkt_payload = payload, pkt_src = src\<rparr> = (i, outs, ws) \<Longrightarrow>
    chan_step enc dec sid s
      (set_ep x (e\<lparr>ep_inner := i, ep_out := map (\<lambda>p. (sid, p)) outs\<rparr>) s)"
| task_tick: "e = ep s x \<Longrightarrow> ep_out e = [] \<Longrightarrow>
    handle_tick_locked now (ep_inner e) = (i, Inr outs) \<Longrightarrow>
    chan_step enc dec sid s (set_ep x (e\<lparr>ep_inner := i, ep_out := outs\<rparr>) s)"
| task_tick_fail: "e = ep s x \<Longrightarrow> ep_out e = [] \<Longrightarrow>
    handle_tick_locked now (ep_inner e) = (i, Inl err) \<Longrightarrow>
    chan_step enc dec sid s (set_ep x (stop_task sid (e\<lparr>ep_inner := i\<rparr>)) s)"
| task_flush: "e = ep s x \<Longrightarrow> ep_out e = (sid', pt, sq, ack, bits, d) # ps \<Longrightarrow> length nonce = 12 \<Longrightarrow>
    send_packet_raw enc nonce now (ep_inner e) sid' pt sq (Some ack) (Some bits) d
      = Inr (i, dest, pkt) \<Longrightarrow>
    chan_step enc dec sid s (emit x {pkt} (set_ep x (e\<lparr>ep_inner := i, ep_out := ps\<rparr>) s))"
| task_flush_fail: "e = ep s x \<Longrightarrow> ep_out e = (sid', pt, sq, ack, bits, d) # ps \<Longrightarrow>
    send_packet_raw enc nonce now (ep_inner e) sid' pt sq (Some ack) (Some bits) d = Inl err \<Longrightarrow>
    chan_step enc dec sid s (set_ep x (stop_task sid e) s)"
| connect_open: "e = ep s x \<Longrightarrow> length nonce = 12 \<Longrightarrow>
    send_packet enc nonce now (ep_inner e) sid StreamOpen 0 [] = Inr (i, dest, pkt) \<Longrightarrow>
    chan_step enc dec sid s (emit x {pkt} (set_ep x (e\<lparr>ep_inner := i\<rparr>) s))"
| task_stop: "chan_step enc dec sid s (set_ep x (stop_task sid (ep s x)) s)"
| net_forge: "recv_datagram dec dgram = None \<Longrightarrow> chan_step enc dec sid s (emit x {dgram} s)"

inductive reachable :: "cipher \<Rightarrow> cipher \<Rightarrow> u32 \<Rightarrow> system \<Rightarrow> bool"
  for enc dec :: cipher and sid :: u32 where
  start: "reachable enc dec sid (system_new sid addr now)"
| step: "reachable enc dec sid s \<Longrightarrow> chan_step enc dec sid s t \<Longrightarrow> reachable enc dec sid t"

text \<open>
  What the program relies on in the cipher: decryption inverts encryption under the same nonce,
  and a ciphertext is 16 bytes (the tag) longer than its plaintext.
\<close>

definition aead_ok :: "cipher \<Rightarrow> cipher \<Rightarrow> bool" where
  "aead_ok enc dec \<longleftrightarrow>
     (\<forall>nonce plain c. enc nonce plain = Some c \<longrightarrow>
        dec nonce c = Some plain \<and> length c = length plain + 16)"

section \<open>The invariant\<close>

definition sender_ok :: "bytes list \<Rightarrow> stream_state \<Rightarrow> bool" where
  "sender_ok hist st \<longleftrightarrow>
     unat (next_write_seq st) = length hist + 1 \<and> bt_inv (write_queue st) \<and>
     (\<forall>q p. map_of (write_queue st) q = Some p \<longrightarrow> chunk_of hist q (sp_data p)) \<and>
     (\<forall>c \<in> set hist. length c \<le> 1100) \<and> length (write_queue st) \<le> 1024"

text \<open>
  What a packet on its way may claim: a data packet carries the chunk of its number, a
  selective acknowledgement only what its sender has received.
\<close>

definition claim_ok ::
  "bytes list \<Rightarrow> stream_state \<Rightarrow> packet_kind \<Rightarrow> u64 \<Rightarrow> u64 \<Rightarrow> u64 \<Rightarrow> bytes \<Rightarrow> bool" where
  "claim_ok hist st pt sq ack bits d \<longleftrightarrow>
     (pt = Stream \<longrightarrow> chunk_of hist sq d) \<and>
     (pt = Sack \<longrightarrow> (\<forall>q. acked ack bits q \<longrightarrow> received st q))"

definition out_ok :: "u32 \<Rightarrow> bytes list \<Rightarrow> stream_state \<Rightarrow> u32 \<times> out_packet \<Rightarrow> bool" where
  "out_ok sid hist st = (\<lambda>(sid', pt, sq, ack, bits, d).
     sid' = sid \<and> claim_ok hist st pt sq ack bits d \<and> (pt \<noteq> Stream \<longrightarrow> d = []))"

definition dgram_ok :: "cipher \<Rightarrow> bytes list \<Rightarrow> stream_state \<Rightarrow> bytes \<Rightarrow> bool" where
  "dgram_ok dec hist st dgram \<longleftrightarrow>
     (\<forall>h p. recv_datagram dec dgram = Some (h, p) \<longrightarrow>
        claim_ok hist st (hdr_kind h) (hdr_seq h) (hdr_ack h) (hdr_ack_bits h) p)"

definition tx_ok :: "bytes list \<Rightarrow> write_channel \<Rightarrow> bool" where
  "tx_ok hist tx \<longleftrightarrow> (\<forall>(q, d) \<in> set tx. q \<noteq> 0 \<longrightarrow> chunk_of hist q d)"

definition no_loss :: "bytes list \<Rightarrow> stream_state \<Rightarrow> stream_state \<Rightarrow> bool" where
  "no_loss hist st peer \<longleftrightarrow> (mode st = ModeTcp \<longrightarrow>
     (\<forall>q. 1 \<le> unat q \<and> unat q \<le> length hist \<longrightarrow>
        bt_contains (write_queue st) q \<or> received peer q))"

definition side_inv ::
  "cipher \<Rightarrow> u32 \<Rightarrow> endpoint \<Rightarrow> stream_state \<Rightarrow> bytes set \<Rightarrow> bytes list \<Rightarrow> stream_state \<Rightarrow> bool" where
  "side_inv dec sid e st ds peer_hist peer \<longleftrightarrow>
     streams (rel (ep_inner e)) = [(sid, st)] \<and>
     sender_ok (ep_hist e) st \<and>
     reads peer_hist (ep_read e) st \<and>
     tx_ok (ep_hist e) (ep_tx e) \<and>
     (\<forall>p \<in> set (ep_out e). out_ok sid (ep_hist e) st p) \<and>
     (\<forall>d \<in> ds. dgram_ok dec (ep_hist e) st d) \<and>
     no_loss (ep_hist e) st peer"

definition sys_inv :: "cipher \<Rightarrow> u32 \<Rightarrow> system \<Rightarrow> (side \<Rightarrow> stream_state) \<Rightarrow> bool" where
  "sys_inv dec sid s st \<longleftrightarrow>
     (\<forall>x. side_inv dec sid (ep s x) (st x) (net s x) (ep_hist (ep s (other x))) (st (other x)))"

definition bounded :: "system \<Rightarrow> bool" where
  "bounded s \<longleftrightarrow> (\<forall>x. length (ep_hist (ep s x)) + 1 < 2 ^ 64)"

section \<open>Moving the invariant along\<close>

lemma claim_ok_mono:
  assumes "claim_ok hist st pt sq ack bits d" and "\<And>q. received st q \<Longrightarrow> received st' q"
  shows "claim_ok (hist @ cs) st' pt sq ack bits d"
  using assms by (auto simp: claim_ok_def intro: chunk_of_append)

lemma out_ok_mono:
  "out_ok sid hist st p \<Longrightarrow> (\<And>q. received st q \<Longrightarrow> received st' q) \<Longrightarrow>
   out_ok sid (hist @ cs) st' p"
  by (auto simp: out_ok_def intro: claim_ok_mono)

lemma dgram_ok_mono:
  "dgram_ok dec hist st d \<Longrightarrow> (\<And>q. received st q \<Longrightarrow> received st' q) \<Longrightarrow>
   dgram_ok dec (hist @ cs) st' d"
  by (auto simp: dgram_ok_def intro: claim_ok_mono)

lemma tx_ok_append: "tx_ok hist tx \<Longrightarrow> tx_ok (hist @ cs) tx"
  by (auto simp: tx_ok_def intro: chunk_of_append)

lemma no_loss_mono:
  "no_loss hist st peer \<Longrightarrow> (\<And>q. received peer q \<Longrightarrow> received peer' q) \<Longrightarrow> no_loss hist st peer'"
  by (auto simp: no_loss_def)

text \<open>
  One side's step: the side's own part of the invariant is re-established, its history only
  grows and it forgets nothing it received; then the whole invariant holds again.
\<close>

lemma sys_inv_local:
  assumes inv: "sys_inv dec sid s st"
    and own: "side_inv dec sid e' st' (net s x \<union> ds) (ep_hist (ep s (other x))) (st (other x))"
    and hist: "ep_hist e' = ep_hist (ep s x) @ cs"
    and mono: "\<And>q. received (st x) q \<Longrightarrow> received st' q"
  shows "sys_inv dec sid (emit x ds (set_ep x e' s)) (st(x := st'))"
  unfolding sys_inv_def
proof
  fix y
  let ?s = "emit x ds (set_ep x e' s)"
  show "side_inv dec sid (ep ?s y) ((st(x := st')) y) (net ?s y)
      (ep_hist (ep ?s (other y))) ((st(x := st')) (other y))"
  proof (cases "y = x")
    case True
    then show ?thesis using own by (simp add: emit_def set_ep_def)
  next
    case False
    then have y: "y = other x" by (cases x; cases y; simp)
    have "side_inv dec sid (ep s y) (st y) (net s y) (ep_hist (ep s x)) (st x)"
      using inv y by (auto simp: sys_inv_def dest: spec [of _ y])
    then show ?thesis
      using y hist mono
      by (auto simp: side_inv_def emit_def set_ep_def intro: reads_append no_loss_mono)
  qed
qed

lemma side_inv_update:
  assumes old: "side_inv dec sid e st D ph peer"
    and "streams (rel (ep_inner e')) = [(sid, st')]"
    and "sender_ok (ep_hist e') st'" and "reads ph (ep_read e') st'"
    and hist: "ep_hist e' = ep_hist e @ cs"
    and "tx_ok (ep_hist e') (ep_tx e')"
    and "\<forall>p \<in> set (ep_out e'). out_ok sid (ep_hist e') st' p"
    and "\<forall>d \<in> ds. dgram_ok dec (ep_hist e') st' d"
    and mono: "\<And>q. received st q \<Longrightarrow> received st' q"
    and "no_loss (ep_hist e') st' peer"
  shows "side_inv dec sid e' st' (D \<union> ds) ph peer"
  using assms by (auto simp: side_inv_def hist intro: dgram_ok_mono)

lemma side_inv_sys:
  "sys_inv dec sid s st \<Longrightarrow>
   side_inv dec sid (ep s x) (st x) (net s x) (ep_hist (ep s (other x))) (st (other x))"
  by (simp add: sys_inv_def)

lemma emit_empty [simp]: "emit x {} s = s"
  by (simp add: emit_def)

text \<open>The parts of a stream state the invariant looks at; wakers and flags do not count.\<close>

definition same_core :: "stream_state \<Rightarrow> stream_state \<Rightarrow> bool" where
  "same_core st st' \<longleftrightarrow>
     next_write_seq st' = next_write_seq st \<and> next_read_seq st' = next_read_seq st \<and>
     write_queue st' = write_queue st \<and> read_buffer st' = read_buffer st \<and>
     read_buf_bytes st' = read_buf_bytes st \<and> (mode st' = ModeTcp \<longrightarrow> mode st = ModeTcp)"

lemma same_core_simps:
  assumes "same_core st st'"
  shows "received st' = received st" "sender_ok hist st' = sender_ok hist st"
    "reads hist pre st' = reads hist pre st" "no_loss hist st peer \<Longrightarrow> no_loss hist st' peer"
  using assms by (auto simp: same_core_def received_def fun_eq_iff sender_ok_def reads_def no_loss_def)

lemma out_ok_received: "received st' = received st \<Longrightarrow> out_ok sid hist st' = out_ok sid hist st"
  by (simp add: fun_eq_iff out_ok_def claim_ok_def)

lemma side_inv_core:
  assumes "side_inv dec sid e st D ph peer" and "same_core st st'"
    and "streams (rel (ep_inner e')) = [(sid, st')]"
    and "ep_hist e' = ep_hist e" "ep_read e' = ep_read e"
    and "tx_ok (ep_hist e') (ep_tx e')"
    and "\<forall>p \<in> set (ep_out e'). out_ok sid (ep_hist e') st' p"
    and "\<forall>d \<in> ds. dgram_ok dec (ep_hist e') st' d"
  shows "side_inv dec sid e' st' (D \<union> ds) ph peer"
  using assms
  by (intro side_inv_update [OF assms(1), where cs = "[]"])
    (auto simp: side_inv_def same_core_simps)

lemma streams_put_stream:
  "streams (rel i) = [(sid, st)] \<Longrightarrow> streams (rel (put_stream sid st' i)) = [(sid, st')]"
  by (simp add: put_stream_def)

section \<open>Packets on the wire\<close>

lemma recv_seal:
  assumes "aead_ok enc dec" and "length nonce = 12" and "length buf \<le> 2000"
    and "seal enc nonce buf = Inr pkt"
  shows "recv_datagram dec pkt = decode buf"
proof -
  from assms(4) obtain c where c: "enc nonce buf = Some c" "pkt = nonce @ c"
    by (auto simp: seal_def split: option.splits)
  with assms(1) have "dec nonce c = Some buf" "length c = length buf + 16"
    by (auto simp: aead_ok_def)
  with c assms(2,3) show ?thesis by (simp add: recv_datagram_def)
qed

lemma recv_sent_packet:
  assumes "aead_ok enc dec" and "length nonce = 12" and "length d \<le> 1100"
    and "send_packet_raw enc nonce now i sid pt sq ao bo d = Inr (i', dest, pkt)"
    and "choose_ack i sid pt ao bo = (ack, bits)"
  shows "recv_datagram dec pkt =
      Some (\<lparr>channel_id = sid, hdr_kind = pt, hdr_seq = sq, hdr_ack = ack, hdr_ack_bits = bits\<rparr>, d)"
    and "i' = i\<lparr>last_sent := now\<rparr>" and "dest = peer_addr i"
proof -
  let ?h = "\<lparr>channel_id = sid, hdr_kind = pt, hdr_seq = sq, hdr_ack = ack, hdr_ack_bits = bits\<rparr>"
  from assms(4,5) have s: "seal enc nonce (encode ?h [] @ d) = Inr pkt"
    and "i' = i\<lparr>last_sent := now\<rparr>" "dest = peer_addr i"
    by (auto simp: send_packet_raw_def Let_def res_bind_eq_Inr)
  then show "i' = i\<lparr>last_sent := now\<rparr>" "dest = peer_addr i" by simp_all
  show "recv_datagram dec pkt = Some (?h, d)"
    using recv_seal [OF assms(1,2) _ s] assms(3) by (simp add: header_codec.roundtrip)
qed

lemma choose_ack_sack:
  "streams (rel i) = [(sid, st)] \<Longrightarrow> choose_ack i sid Sack (Some a) (Some b) = (a, b)"
  by (simp add: choose_ack_def)

text \<open>A packet the invariant allows to be sent becomes a datagram the invariant allows.\<close>

lemma sent_dgram_ok:
  assumes "aead_ok enc dec" and "length nonce = 12" and "length d \<le> 1100"
    and send: "send_packet_raw enc nonce now i sid pt sq ao bo d = Inr (i', dest, pkt)"
    and "streams (rel i) = [(sid, st)]" and "pt = Stream \<longrightarrow> chunk_of hist sq d"
    and "pt = Sack \<longrightarrow> (\<exists>a b. ao = Some a \<and> bo = Some b \<and> (\<forall>q. acked a b q \<longrightarrow> received st q))"
  shows "dgram_ok dec hist st pkt"
proof -
  obtain ack bits where ca: "choose_ack i sid pt ao bo = (ack, bits)" by (metis prod.exhaust)
  note r = recv_sent_packet(1) [OF assms(1-3) send ca]
  show ?thesis
    using assms(5-7) ca by (auto simp: dgram_ok_def r claim_ok_def choose_ack_sack)
qed

section \<open>The operations keep the invariant\<close>

text \<open>Queue updates that touch times and counters only.\<close>

definition same_data :: "(u64, sent_packet) btree_map \<Rightarrow> (u64, sent_packet) btree_map \<Rightarrow> bool" where
  "same_data wq wq' \<longleftrightarrow> bt_inv wq' \<and>
     (\<forall>q. map_option sp_data (map_of wq' q) = map_option sp_data (map_of wq q))"

lemma same_data_trans: "same_data a b \<Longrightarrow> same_data b c \<Longrightarrow> same_data a c"
  by (simp add: same_data_def)

lemma same_data_contains: "same_data wq wq' \<Longrightarrow> bt_contains wq' q = bt_contains wq q"
  by (metis bt_contains_def map_option_is_None same_data_def)

lemma same_data_chunks:
  assumes "same_data wq wq'" and "\<forall>q p. map_of wq q = Some p \<longrightarrow> chunk_of hist q (sp_data p)"
  shows "\<forall>q p. map_of wq' q = Some p \<longrightarrow> chunk_of hist q (sp_data p)"
proof (intro allI impI)
  fix q p assume "map_of wq' q = Some p"
  then have "map_option sp_data (map_of wq q) = Some (sp_data p)"
    using assms(1) unfolding same_data_def by (metis option.map(2))
  then obtain p0 where "map_of wq q = Some p0" "sp_data p0 = sp_data p" by auto
  then show "chunk_of hist q (sp_data p)" using assms(2) by metis
qed

lemma resend_loop_spec:
  "bt_inv wq \<Longrightarrow> resend_loop now wq qs = (wq', outs) \<Longrightarrow>
     same_data wq wq' \<and>
     (\<forall>r \<in> set outs. \<exists>q p. map_of wq q = Some p \<and> r = (Stream, q, 0, 0, sp_data p))"
proof (induction now wq qs arbitrary: wq' outs rule: resend_loop.induct)
  case (1 now wq)
  then show ?case by (auto simp: same_data_def)
next
  case (2 now wq sq sqs)
  show ?case
  proof (cases "map_of wq sq")
    case None
    with 2 show ?thesis by simp
  next
    case (Some p)
    let ?wq = "bt_insert sq (p\<lparr>sent_at := now\<rparr>) wq"
    obtain outs' where rec: "resend_loop now ?wq sqs = (wq', outs')"
      and outs: "outs = (Stream, sq, 0, 0, sp_data p) # outs'"
      using 2 Some by (auto split: prod.splits)
    have inv: "bt_inv ?wq" using 2 by (simp add: bt_inv_insert)
    have sd: "same_data wq ?wq" using inv Some by (auto simp: same_data_def map_of_bt_insert)
    note IH = "2.IH"(2) [OF Some inv rec]
    have "\<exists>q p'. map_of wq q = Some p' \<and> r = (Stream, q, 0, 0, sp_data p')" if "r \<in> set outs" for r
    proof (cases "r \<in> set outs'")
      case True
      with IH obtain q p' where "map_of ?wq q = Some p'" "r = (Stream, q, 0, 0, sp_data p')"
        by blast
      then show ?thesis using Some by (auto simp: map_of_bt_insert split: if_splits)
    next
      case False
      with that outs Some show ?thesis by auto
    qed
    with IH sd show ?thesis by (blast intro: same_data_trans)
  qed
qed

lemma same_data_length:
  assumes "same_data wq wq'" and "bt_inv wq"
  shows "length wq' = length wq"
proof -
  have "dom (map_of wq') = dom (map_of wq)"
    using assms(1) unfolding same_data_def dom_def by (metis map_option_is_None)
  then show ?thesis
    using btm.length_keys [of wq'] btm.length_keys [of wq] assms by (simp add: same_data_def)
qed

lemma sender_ok_same_data:
  assumes "sender_ok hist st" and "same_data (write_queue st) wq"
  shows "sender_ok hist (st\<lparr>write_queue := wq\<rparr>)"
  using assms same_data_chunks [OF assms(2)] same_data_length [OF assms(2)]
  by (auto simp: sender_ok_def same_data_def)

text \<open>An incoming acknowledgement.\<close>

lemma on_ack_inv:
  assumes ack: "on_ack now st h = (st', outs, ws)"
    and kind: "hdr_kind h = Sack \<or> hdr_kind h = Nack"
    and snd: "sender_ok hist st" and "reads ph pre st" and nl: "no_loss hist st peer"
    and claim: "hdr_kind h = Sack \<longrightarrow>
      (\<forall>q. acked (hdr_ack h) (hdr_ack_bits h) q \<longrightarrow> received peer q)"
  shows "sender_ok hist st' \<and> reads ph pre st' \<and> received st' = received st \<and>
     no_loss hist st' peer \<and> (\<forall>p \<in> set outs. out_ok sid hist st' (sid, p))"
proof -
  obtain rs st1 ws1 where step: "(if hdr_kind h = Nack then handle_nack st (hdr_seq h) (hdr_ack h)
      else handle_ack st (hdr_ack h) (hdr_ack_bits h)) = (rs, st1, ws1)"
    by (metis prod_cases3)
  obtain wq where loop: "resend_loop now (write_queue st1) rs = (wq, outs)"
    and core: "same_core (st1\<lparr>write_queue := wq\<rparr>) st'"
    using ack step by (auto simp: on_ack_def Let_def same_core_def split: prod.splits if_splits)
  have st1: "sender_ok hist st1 \<and> reads ph pre st1 \<and> received st1 = received st \<and>
      no_loss hist st1 peer"
  proof (cases "hdr_kind h = Nack")
    case True
    with step have "same_core st st1"
      by (auto simp: handle_nack_def Let_def same_core_def split: if_splits)
    with assms show ?thesis by (simp add: same_core_simps)
  next
    case False
    with step have ha: "handle_ack st (hdr_ack h) (hdr_ack_bits h) = (rs, st1, ws1)" by simp
    have inv: "bt_inv (write_queue st)" using snd by (simp add: sender_ok_def)
    note eff = handle_ack_queue [OF inv ha]
    have frame: "mode st1 = mode st" "next_write_seq st1 = next_write_seq st"
        "next_read_seq st1 = next_read_seq st" "read_buffer st1 = read_buffer st"
        "read_buf_bytes st1 = read_buf_bytes st"
      using arg_cong [OF eff(4), of mode] arg_cong [OF eff(4), of next_write_seq]
        arg_cong [OF eff(4), of next_read_seq] arg_cong [OF eff(4), of read_buffer]
        arg_cong [OF eff(4), of read_buf_bytes] by simp_all
    have rcv: "received st1 = received st" by (simp add: fun_eq_iff received_def frame)
    have "no_loss hist st1 peer"
      using nl claim kind False by (auto simp: no_loss_def bt_contains_def eff(1) frame)
    moreover have "length (write_queue st1) \<le> length (write_queue st)"
      using ha by (auto simp: handle_ack_def Let_def bt_retain_def split: if_splits)
    ultimately show ?thesis
      using assms eff rcv frame by (auto simp: sender_ok_def reads_def)
  qed
  then have "bt_inv (write_queue st1)" by (simp add: sender_ok_def)
  note rl = resend_loop_spec [OF this loop]
  have st2: "sender_ok hist (st1\<lparr>write_queue := wq\<rparr>)"
    using st1 rl by (blast intro: sender_ok_same_data)
  have "no_loss hist (st1\<lparr>write_queue := wq\<rparr>) peer"
    using st1 by (simp add: no_loss_def same_data_contains [OF conjunct1 [OF rl]])
  moreover have "\<forall>p \<in> set outs. out_ok sid hist st' (sid, p)"
    using rl st1 by (fastforce simp: out_ok_def claim_ok_def sender_ok_def)
  moreover have "received st' = received st" "reads ph pre st'"
    using core st1 by (auto simp: same_core_def received_def reads_def fun_eq_iff)
  ultimately show ?thesis using core st2 by (auto simp: same_core_simps)
qed

text \<open>An incoming data packet.\<close>

lemma on_stream_data_inv:
  assumes dat: "on_stream_data st h payload = (st', outs, ws)"
    and "sender_ok hist st" and rd: "reads ph pre st" and "no_loss hist st peer"
    and ch: "chunk_of ph (hdr_seq h) payload" and len: "length ph + 1 < 2 ^ 64"
  shows "sender_ok hist st' \<and> reads ph pre st' \<and> (\<forall>q. received st q \<longrightarrow> received st' q) \<and>
     no_loss hist st' peer \<and> (\<forall>p \<in> set outs. out_ok sid hist st' (sid, p))"
proof -
  obtain nack st1 ws1 where push: "push_data st (hdr_seq h) payload = (nack, st1, ws1)"
    by (metis prod_cases3)
  note fr = push_data_frame [OF push] and eff = push_data_reads [OF push rd ch len]
  have core: "same_core st1 st'" and outs: "outs = (case nack of
        Some (a, b) \<Rightarrow> [(Nack, a, b, 0, [])]
      | None \<Rightarrow> if mode st1 = ModeTcp
                then (let (ack, bits) = build_ack st1 in [(Sack, 0, ack, bits, [])]) else [])"
    using dat push by (auto simp: on_stream_data_def Let_def same_core_def split: prod.splits)
  have rcv: "received st' = received st1" using core by (simp add: same_core_simps)
  have pos: "1 \<le> unat (next_read_seq st1)" using eff(1) by (simp add: reads_def)
  have "\<forall>p \<in> set outs. out_ok sid hist st' (sid, p)"
    using outs build_ack_sound [OF _ pos]
    by (auto simp: out_ok_def claim_ok_def rcv split: option.splits if_splits prod.splits)
  moreover have "no_loss hist st1 peer" "sender_ok hist st1"
    using assms(2,4) fr by (auto simp: no_loss_def sender_ok_def)
  ultimately show ?thesis
    using core eff rcv by (auto simp: same_core_simps)
qed

text \<open>Any incoming packet.\<close>

lemma handle_packet_inv:
  assumes hp: "handle_packet now st h payload = (st', cl, outs, ws)"
    and "sender_ok hist st" and "reads ph pre st" and "no_loss hist st peer"
    and claim: "claim_ok ph peer (hdr_kind h) (hdr_seq h) (hdr_ack h) (hdr_ack_bits h) payload"
    and len: "length ph + 1 < 2 ^ 64"
  shows "sender_ok hist st' \<and> reads ph pre st' \<and> (\<forall>q. received st q \<longrightarrow> received st' q) \<and>
     no_loss hist st' peer \<and> (\<forall>p \<in> set outs. out_ok sid hist st' (sid, p))"
proof (cases "hdr_kind h = Stream \<or> hdr_kind h = Sack \<or> hdr_kind h = Nack")
  case False
  then have "same_core st st'" and "\<forall>p \<in> set outs. out_ok sid hist st' (sid, p)"
    using hp by (auto simp: handle_packet_def same_core_def out_ok_def claim_ok_def
        split: packet_kind.splits)
  with assms show ?thesis by (simp add: same_core_simps)
next
  case True
  then consider "hdr_kind h = Stream" | "hdr_kind h = Sack \<or> hdr_kind h = Nack" by blast
  then show ?thesis
  proof cases
    case 1
    with hp have "on_stream_data st h payload = (st', outs, ws)"
      by (auto simp: handle_packet_def split: prod.splits)
    with on_stream_data_inv assms 1 show ?thesis by (simp add: claim_ok_def)
  next
    case 2
    with hp have oa: "on_ack now st h = (st', outs, ws)"
      by (auto simp: handle_packet_def split: prod.splits)
    from claim have "hdr_kind h = Sack \<longrightarrow>
        (\<forall>q. acked (hdr_ack h) (hdr_ack_bits h) q \<longrightarrow> received peer q)"
      by (simp add: claim_ok_def)
    from on_ack_inv [OF oa 2 assms(2-4) this] show ?thesis by simp
  qed
qed

lemma handle_incoming_streams:
  assumes "handle_incoming_locked now i \<lparr>pkt_header = h, pkt_payload = p, pkt_src = src\<rparr> = (i', outs, ws)"
    and "streams (rel i) = [(sid, st)]" and "channel_id h = sid"
  obtains (ignored) "closed i" "i' = i" "outs = []"
  | (handled) st' cl where "handle_packet now st h p = (st', cl, outs, ws)"
      "streams (rel i') = [(sid, st')]"
proof (cases "closed i")
  case True
  then show thesis using assms by (intro ignored) (auto simp: handle_incoming_locked_def)
next
  case False
  obtain st' cl outs' ws' where hp: "handle_packet now st h p = (st', cl, outs', ws')"
    by (metis prod_cases4)
  with assms False show thesis
    by (intro handled [of st' cl])
      (auto simp: handle_incoming_locked_def Let_def put_stream_def split: if_splits)
qed

lemma deliver_inv:
  assumes inv: "side_inv dec sid e st D ph peer" and "ep_out e = []"
    and claim: "claim_ok ph peer (hdr_kind h) (hdr_seq h) (hdr_ack h) (hdr_ack_bits h) p"
    and sid: "channel_id h = sid" and len: "length ph + 1 < 2 ^ 64"
    and hi: "handle_incoming_locked now (ep_inner e)
      \<lparr>pkt_header = h, pkt_payload = p, pkt_src = src\<rparr> = (i, outs, ws)"
  shows "\<exists>st'. side_inv dec sid (e\<lparr>ep_inner := i, ep_out := map (\<lambda>p. (sid, p)) outs\<rparr>) st' D ph peer \<and>
     (\<forall>q. received st q \<longrightarrow> received st' q)"
proof -
  have s: "streams (rel (ep_inner e)) = [(sid, st)]" using inv by (simp add: side_inv_def)
  from hi s sid show ?thesis
  proof (cases rule: handle_incoming_streams)
    case ignored
    then show ?thesis using inv assms(2) by (auto simp: side_inv_def)
  next
    case (handled st' cl)
    have "sender_ok (ep_hist e) st" "reads ph (ep_read e) st" "no_loss (ep_hist e) st peer"
      using inv by (simp_all add: side_inv_def)
    note hp = handle_packet_inv [OF handled(1) this claim len, of sid]
    have "side_inv dec sid (e\<lparr>ep_inner := i, ep_out := map (\<lambda>p. (sid, p)) outs\<rparr>) st' (D \<union> {}) ph peer"
      using inv hp handled(2)
      by (intro side_inv_update [OF inv, where cs = "[]"]) (auto simp: side_inv_def)
    with hp show ?thesis by auto
  qed
qed

text \<open>The reader and the writer.\<close>

lemma poll_read_inv:
  assumes inv: "side_inv dec sid e st D ph peer"
    and pr: "poll_read cx n sid (ep_inner e) = (r, i)"
  shows "\<exists>st'. side_inv dec sid (e\<lparr>ep_inner := i, ep_read := ep_read e @ returned r\<rparr>) st' D ph peer \<and>
     received st' = received st"
proof -
  have s: "streams (rel (ep_inner e)) = [(sid, st)]" using inv by (simp add: side_inv_def)
  define st' where "st' = the (map_of (streams (rel i)) sid)"
  have st': "streams (rel i) = [(sid, st')]"
    using pr s by (auto simp: st'_def poll_read_def Let_def put_stream_def split: if_splits)
  have fr: "same_core (st\<lparr>read_buf_bytes := read_buf_bytes st'\<rparr>) st'"
    and bs: "returned r @ read_buf_bytes st' = read_buf_bytes st"
    using pr s by (auto simp: st'_def poll_read_def Let_def put_stream_def same_core_def
        returned_def split: if_splits)
  have rcv: "received st' = received st"
    using fr by (auto simp: same_core_def received_def fun_eq_iff)
  have "reads ph (ep_read e @ returned r) st'" "sender_ok (ep_hist e) st'"
    "no_loss (ep_hist e) st' peer"
    using inv fr bs by (auto simp: side_inv_def same_core_def reads_def sender_ok_def no_loss_def)
  then have "side_inv dec sid (e\<lparr>ep_inner := i, ep_read := ep_read e @ returned r\<rparr>) st' (D \<union> {}) ph peer"
    using inv st' rcv
    by (intro side_inv_update [OF inv, where cs = "[]"])
      (simp_all add: side_inv_def out_ok_received [OF rcv])
  with rcv show ?thesis by auto
qed

lemma poll_write_inv:
  assumes inv: "side_inv dec sid e st D ph peer"
    and pw: "poll_write cx now buf sid (ep_inner e) (ep_tx e) = (r, i, tx)"
    and len: "length (ep_hist e @ accepted r buf) + 1 < 2 ^ 64"
  shows "\<exists>st'. side_inv dec sid (e\<lparr>ep_inner := i, ep_tx := tx, ep_hist := ep_hist e @ accepted r buf\<rparr>)
      st' D ph peer \<and> received st' = received st"
proof (cases "\<exists>k. r = Ready (Inr k)")
  case False
  have s: "streams (rel (ep_inner e)) = [(sid, st)]" using inv by (simp add: side_inv_def)
  from False have acc: "accepted r buf = []"
    by (auto simp: accepted_def split: poll.splits sum.splits)
  obtain st' where st': "streams (rel i) = [(sid, st')]" "same_core st st'" "tx = ep_tx e"
    using pw s False
    by (auto simp: poll_write_def Let_def put_stream_def same_core_def split: if_splits)
  have "side_inv dec sid (e\<lparr>ep_inner := i, ep_tx := tx, ep_hist := ep_hist e @ accepted r buf\<rparr>) st' (D \<union> {}) ph peer"
    using inv st' acc
    by (intro side_inv_core [OF inv st'(2)])
      (simp_all add: side_inv_def out_ok_received [OF same_core_simps(1) [OF st'(2)]])
  with st' show ?thesis by (auto simp: same_core_simps)
next
  case True
  have s: "streams (rel (ep_inner e)) = [(sid, st)]" and snd: "sender_ok (ep_hist e) st"
    using inv by (simp_all add: side_inv_def)
  let ?c = "take (min (length buf) 1100) buf" and ?sq = "next_write_seq st"
  define st' where "st' = st\<lparr>next_write_seq := ?sq + 1, write_queue := bt_insert ?sq
      \<lparr>sp_data = ?c, sent_at = now, retransmits = 0\<rparr> (write_queue st)\<rparr>"
  have st': "streams (rel i) = [(sid, st')]" and tx: "tx = try_send 1024 (?sq, ?c) (ep_tx e)"
    and acc: "accepted r buf = [?c]" and room: "length (write_queue st) < 1024"
    using pw s True by (auto simp: st'_def poll_write_def Let_def put_stream_def accepted_def
        split: if_splits)
  let ?hist = "ep_hist e @ [?c]"
  have sq: "unat ?sq = length (ep_hist e) + 1" using snd by (simp add: sender_ok_def)
  then have sq1: "unat (?sq + 1) = length ?hist + 1"
    using len acc by (subst unat_plus_one) simp_all
  have ch: "chunk_of ?hist ?sq ?c" using sq by (simp add: chunk_of_def nth_append)
  have rcv: "received st' = received st" by (simp add: st'_def received_def fun_eq_iff)
  have "length (write_queue st') \<le> 1024"
    using room by (simp add: st'_def) (rule le_trans [OF set_bt_insert_length], simp)
  then have snd': "sender_ok ?hist st'"
    using snd sq1 ch by (auto simp: sender_ok_def st'_def map_of_bt_insert bt_inv_insert
        intro: chunk_of_append)
  have "bt_contains (write_queue st') q \<or> received peer q"
    if "mode st = ModeTcp" "1 \<le> unat q" "unat q \<le> length ?hist" for q
  proof (cases "q = ?sq")
    case True
    then show ?thesis by (simp add: st'_def bt_contains_def map_of_bt_insert)
  next
    case False
    then have "unat q \<noteq> unat ?sq" using u64_eqI by blast
    then have "unat q \<le> length (ep_hist e)" using that(3) sq by simp
    then show ?thesis
      using inv that False by (auto simp: side_inv_def no_loss_def st'_def bt_contains_def map_of_bt_insert)
  qed
  then have nl: "no_loss ?hist st' peer" by (simp add: no_loss_def st'_def)
  have txok: "tx_ok ?hist tx"
    using inv ch by (auto simp: tx try_send_def side_inv_def tx_ok_def intro: chunk_of_append)
  have rd: "reads ph (ep_read e) st'" using inv by (simp add: side_inv_def reads_def st'_def)
  have "side_inv dec sid (e\<lparr>ep_inner := i, ep_tx := tx, ep_hist := ep_hist e @ accepted r buf\<rparr>)
      st' (D \<union> {}) ph peer"
    using inv st' acc snd' nl txok rd rcv
    by (intro side_inv_update [OF inv, where cs = "[?c]"])
      (auto simp: side_inv_def intro: out_ok_mono)
  with rcv show ?thesis by auto
qed

text \<open>The retransmission timer.\<close>

lemma map_of_sp_data:
  "map_of (map (\<lambda>(q, p). (q, sp_data p)) m) q = map_option sp_data (map_of m q)"
  by (induction m) auto

lemma rto_loop_same_data:
  assumes "bt_inv m" and "rto_loop now m = (m', out, to)"
  shows "same_data m m'" and "(q, d) \<in> set out \<Longrightarrow> \<exists>p. map_of m q = Some p \<and> d = sp_data p"
proof -
  note eff = rto_loop_data [OF assms(2)]
  have "map fst m' = map fst m"
    using arg_cong [OF conjunct1 [OF eff], of "map fst"] by (simp add: comp_def case_prod_beta')
  then have "bt_inv m'" using assms(1) by (simp add: bt_inv_def)
  moreover have "map_option sp_data (map_of m' q) = map_option sp_data (map_of m q)" for q
    using eff by (simp flip: map_of_sp_data)
  ultimately show "same_data m m'" by (simp add: same_data_def)
  show "\<exists>p. map_of m q = Some p \<and> d = sp_data p" if "(q, d) \<in> set out"
    using eff that assms(1) by (auto simp: bt_get_iff)
qed

lemma retransmission_single:
  assumes gr: "get_retransmissions r now = ((rs, to), r')" and s: "streams r = [(sid, st)]"
    and snd: "sender_ok hist st" and nl: "no_loss hist st peer"
  shows "\<exists>wq. streams r' = [(sid, st\<lparr>write_queue := wq\<rparr>)] \<and>
     sender_ok hist (st\<lparr>write_queue := wq\<rparr>) \<and> no_loss hist (st\<lparr>write_queue := wq\<rparr>) peer \<and>
     (\<forall>(sid', q, d) \<in> set rs. sid' = sid \<and> chunk_of hist q d)"
proof (cases "mode st = ModeUdp")
  case True
  let ?wq = "bt_retain (\<lambda>_ p. duration_since now (sent_at p) < secs 30) (write_queue st)"
  have "streams r' = [(sid, st\<lparr>write_queue := ?wq\<rparr>)]" "rs = []"
    using gr s True by (auto simp: get_retransmissions_def)
  moreover have "sender_ok hist (st\<lparr>write_queue := ?wq\<rparr>)"
    using snd by (auto simp: sender_ok_def bt_inv_retain map_of_bt_retain
        intro: le_trans [OF length_bt_retain_le] split: option.splits if_splits)
  moreover have "no_loss hist (st\<lparr>write_queue := ?wq\<rparr>) peer" using True by (simp add: no_loss_def)
  ultimately show ?thesis by auto
next
  case False
  obtain wq out t where rto: "rto_loop now (write_queue st) = (wq, out, t)" by (metis prod_cases3)
  have inv: "bt_inv (write_queue st)" using snd by (simp add: sender_ok_def)
  note eff = rto_loop_same_data [OF inv rto]
  have "streams r' = [(sid, st\<lparr>write_queue := wq\<rparr>)]" "rs = map (\<lambda>(q, d). (sid, q, d)) out"
    using gr s False rto by (auto simp: get_retransmissions_def split: if_splits)
  moreover have "no_loss hist (st\<lparr>write_queue := wq\<rparr>) peer"
    using nl by (simp add: no_loss_def same_data_contains [OF eff(1)])
  moreover have "\<forall>(sid', q, d) \<in> set (map (\<lambda>(q, d). (sid, q, d)) out). sid' = sid \<and> chunk_of hist q d"
    using eff(2) snd by (fastforce simp: sender_ok_def)
  ultimately show ?thesis
    using sender_ok_same_data [OF snd eff(1)] by blast
qed

lemma handle_tick_streams:
  assumes ht: "handle_tick_locked now i = (i', r)" and s: "streams (rel i) = [(sid, st)]"
    and snd: "sender_ok hist st" and nl: "no_loss hist st peer"
  shows "\<exists>wq. streams (rel i') = [(sid, st\<lparr>write_queue := wq\<rparr>)] \<and>
     sender_ok hist (st\<lparr>write_queue := wq\<rparr>) \<and> no_loss hist (st\<lparr>write_queue := wq\<rparr>) peer \<and>
     (\<forall>outs. r = Inr outs \<longrightarrow> (\<forall>p \<in> set outs. out_ok sid hist (st\<lparr>write_queue := wq\<rparr>) p))"
proof (cases "i' = i \<and> isl r")
  case True
  then show ?thesis using s snd nl by (intro exI [of _ "write_queue st"]) auto
next
  case False
  obtain rs to r' where gr: "get_retransmissions (rel i) now = ((rs, to), r')"
    by (metis prod.exhaust)
  have i': "i' = i\<lparr>rel := r'\<rparr>"
    using ht gr False by (auto simp: handle_tick_locked_def Let_def split: if_splits)
  have outs: "p \<in> set (map (\<lambda>(sid, sq, d). (sid, Stream, sq, 0, 0, d)) rs) \<or>
      p = (sid, KeepalivePing, 0, 0, 0, [])" if "r = Inr outs" "p \<in> set outs" for outs p
    using ht gr s that by (auto simp: handle_tick_locked_def Let_def split: if_splits)
  from retransmission_single [OF gr s snd nl] obtain wq where
    wq: "streams r' = [(sid, st\<lparr>write_queue := wq\<rparr>)]" "sender_ok hist (st\<lparr>write_queue := wq\<rparr>)"
      "no_loss hist (st\<lparr>write_queue := wq\<rparr>) peer"
    and ch: "\<forall>(sid', q, d) \<in> set rs. sid' = sid \<and> chunk_of hist q d" by blast
  have "\<forall>p \<in> set outs. out_ok sid hist (st\<lparr>write_queue := wq\<rparr>) p" if "r = Inr outs" for outs
    using outs [OF that] ch by (fastforce simp: out_ok_def claim_ok_def)
  with wq i' show ?thesis by auto
qed

lemma tick_inv:
  assumes inv: "side_inv dec sid e st D ph peer" and ht: "handle_tick_locked now (ep_inner e) = (i, r)"
    and out: "ep_out e = []" "outs = (case r of Inl _ \<Rightarrow> [] | Inr os \<Rightarrow> os)"
  shows "\<exists>st'. side_inv dec sid (e\<lparr>ep_inner := i, ep_out := outs\<rparr>) st' D ph peer \<and>
     received st' = received st"
proof -
  have s: "streams (rel (ep_inner e)) = [(sid, st)]" "sender_ok (ep_hist e) st"
    "no_loss (ep_hist e) st peer" using inv by (simp_all add: side_inv_def)
  obtain wq where wq: "streams (rel i) = [(sid, st\<lparr>write_queue := wq\<rparr>)]"
      "sender_ok (ep_hist e) (st\<lparr>write_queue := wq\<rparr>)"
      "no_loss (ep_hist e) (st\<lparr>write_queue := wq\<rparr>) peer"
      "\<forall>outs. r = Inr outs \<longrightarrow> (\<forall>p \<in> set outs. out_ok sid (ep_hist e) (st\<lparr>write_queue := wq\<rparr>) p)"
    using handle_tick_streams [OF ht s] by blast
  let ?st = "st\<lparr>write_queue := wq\<rparr>"
  have rcv: "received ?st = received st" by (simp add: fun_eq_iff received_def)
  have "reads ph (ep_read e) ?st" using inv by (simp add: side_inv_def reads_def)
  moreover have "\<forall>p \<in> set outs. out_ok sid (ep_hist e) ?st p"
    using wq(4) out by (simp split: sum.splits)
  ultimately have "side_inv dec sid (e\<lparr>ep_inner := i, ep_out := outs\<rparr>) ?st (D \<union> {}) ph peer"
    using inv wq rcv
    by (intro side_inv_update [OF inv, where cs = "[]"]) (simp_all add: side_inv_def)
  with rcv show ?thesis by auto
qed

text \<open>Sending, stopping, switching the mode.\<close>

lemma send_inv:
  assumes aead: "aead_ok enc dec" and inv: "side_inv dec sid e st D ph peer"
    and n: "length nonce = 12"
    and send: "send_packet_raw enc nonce now (ep_inner e) sid pt sq ao bo d = Inr (i, dest, pkt)"
    and "pt = Stream \<longrightarrow> chunk_of (ep_hist e) sq d" and "pt \<noteq> Stream \<longrightarrow> d = []"
    and "pt = Sack \<longrightarrow> (\<exists>a b. ao = Some a \<and> bo = Some b \<and> (\<forall>q. acked a b q \<longrightarrow> received st q))"
    and "set tx \<subseteq> set (ep_tx e)" and "set outs \<subseteq> set (ep_out e)"
  shows "side_inv dec sid (e\<lparr>ep_inner := i, ep_tx := tx, ep_out := outs\<rparr>) st (D \<union> {pkt}) ph peer"
proof -
  have s: "streams (rel (ep_inner e)) = [(sid, st)]" and snd: "sender_ok (ep_hist e) st"
    using inv by (simp_all add: side_inv_def)
  have len: "length d \<le> 1100"
    using assms(5,6) snd by (cases "pt = Stream") (auto simp: chunk_of_def sender_ok_def)
  have "i = (ep_inner e)\<lparr>last_sent := now\<rparr>"
    using recv_sent_packet(2) [OF aead n len send] by (metis prod.exhaust)
  moreover have "dgram_ok dec (ep_hist e) st pkt"
    using sent_dgram_ok [OF aead n len send s] assms(5,7) by blast
  ultimately show ?thesis
    using inv assms(8,9) s
    by (intro side_inv_core [OF inv, where st' = st]) (auto simp: same_core_def side_inv_def tx_ok_def)
qed

lemma stop_task_inv:
  assumes inv: "side_inv dec sid e st D ph peer"
  shows "\<exists>st'. side_inv dec sid (stop_task sid e) st' D ph peer \<and> received st' = received st"
proof -
  let ?st = "st\<lparr>read_waker := None, write_waker := None\<rparr>"
  have s: "streams (rel (ep_inner e)) = [(sid, st)]" using inv by (simp add: side_inv_def)
  have core: "same_core st ?st" by (simp add: same_core_def)
  have "side_inv dec sid (stop_task sid e) ?st (D \<union> {}) ph peer"
    using inv s by (intro side_inv_core [OF inv core])
      (simp_all add: stop_task_def close_and_wake_def put_stream_def side_inv_def)
  then show ?thesis using same_core_simps(1) [OF core] by auto
qed

section \<open>Every reachable state satisfies the invariant\<close>

lemma sys_step:
  assumes inv: "sys_inv dec sid s st" and "\<exists>cs. ep_hist e' = ep_hist (ep s x) @ cs"
    and "\<exists>st'. side_inv dec sid e' st' (net s x \<union> ds) (ep_hist (ep s (other x))) (st (other x)) \<and>
      (\<forall>q. received (st x) q \<longrightarrow> received st' q)"
  shows "\<exists>st'. sys_inv dec sid (emit x ds (set_ep x e' s)) st'"
  using assms(2,3) sys_inv_local [OF inv] by blast

lemma sys_step_quiet:
  assumes inv: "sys_inv dec sid s st" and hist: "\<exists>cs. ep_hist e' = ep_hist (ep s x) @ cs"
    and own: "\<exists>st'. side_inv dec sid e' st' (net s x) (ep_hist (ep s (other x))) (st (other x)) \<and>
      received st' = received (st x)"
  shows "\<exists>st'. sys_inv dec sid (set_ep x e' s) st'"
proof -
  have "\<exists>st'. side_inv dec sid e' st' (net s x \<union> {}) (ep_hist (ep s (other x))) (st (other x)) \<and>
      (\<forall>q. received (st x) q \<longrightarrow> received st' q)"
    using own by auto
  from sys_step [OF inv hist this] show ?thesis by simp
qed

lemma sys_inv_new: "\<exists>st. sys_inv dec sid (system_new sid addr now) st"
proof
  show "sys_inv dec sid (system_new sid addr now) (\<lambda>_. stream_state_new ModeTcp)"
    by (simp add: sys_inv_def side_inv_def system_new_def udp_stream_new_def reliability_new_def
        reads_new tx_ok_def no_loss_def) (auto simp: sender_ok_def stream_state_new_def)
qed

lemma chan_step_hist:
  "chan_step enc dec sid s t \<Longrightarrow> \<exists>cs. ep_hist (ep t y) = ep_hist (ep s y) @ cs"
  by (induction rule: chan_step.induct) (auto simp: set_ep_def emit_def stop_task_def)

lemma chan_step_bounded:
  assumes "chan_step enc dec sid s t" and "bounded t"
  shows "bounded s"
  unfolding bounded_def
proof
  fix x
  obtain cs where "ep_hist (ep t x) = ep_hist (ep s x) @ cs"
    using chan_step_hist [OF assms(1)] by blast
  moreover have "length (ep_hist (ep t x)) + 1 < 2 ^ 64"
    using assms(2) by (simp add: bounded_def)
  ultimately show "length (ep_hist (ep s x)) + 1 < 2 ^ 64" by simp
qed

text \<open>The write requests of the task: the sentinel 0 closes, anything else is data.\<close>

lemma transmit_inv:
  assumes aead: "aead_ok enc dec" and inv: "side_inv dec sid e st D ph peer"
    and "ep_out e = []" and tx: "ep_tx e = w # tx" and rng: "\<forall>n. length (rng n) = 12"
    and tr: "task_turn enc rng now sid (ep_inner e) (WriteEv (Some w)) = tr"
  shows "side_inv dec sid (e\<lparr>ep_inner := tr_inner tr, ep_tx := tx\<rparr>) st
      (D \<union> snd ` set (tr_sent tr)) ph peer"
proof -
  obtain sq d where w: "w = (sq, d)" by (cases w)
  define pt d' where "pt = (if sq = 0 then StreamClose else Stream)"
    and "d' = (if sq = 0 then [] else d)"
  have turn: "tr = (case send_packet enc (rng 0) now (ep_inner e) sid pt sq d' of
      Inl _ \<Rightarrow> \<lparr>tr_inner = ep_inner e, tr_sent = [], tr_woken = [], tr_break = sq \<noteq> 0\<rparr>
    | Inr (i', out) \<Rightarrow> \<lparr>tr_inner = i', tr_sent = [out], tr_woken = [], tr_break = False\<rparr>)"
    using tr w by (auto simp: task_turn_def pt_def d'_def split: sum.splits)
  show ?thesis
  proof (cases "send_packet enc (rng 0) now (ep_inner e) sid pt sq d'")
    case (Inl err)
    then have "side_inv dec sid (e\<lparr>ep_inner := tr_inner tr, ep_tx := tx\<rparr>) st (D \<union> {}) ph peer"
      using turn inv tx by (intro side_inv_core [OF inv, where st' = st])
        (auto simp: same_core_def side_inv_def tx_ok_def)
    with Inl turn show ?thesis by simp
  next
    case (Inr out)
    obtain i dest pkt where out: "out = (i, dest, pkt)" by (cases out)
    have send: "send_packet_raw enc (rng 0) now (ep_inner e) sid pt sq None None d' = Inr (i, dest, pkt)"
      using Inr out by (simp add: send_packet_def)
    have "(sq, d) \<in> set (ep_tx e)" using tx w by simp
    then have "pt = Stream \<longrightarrow> chunk_of (ep_hist e) sq d'"
      using inv by (auto simp: pt_def d'_def side_inv_def tx_ok_def)
    from send_inv [OF aead inv _ send this, where tx = tx and outs = "ep_out e"] rng tx turn Inr out
    show ?thesis by (simp add: pt_def d'_def subset_insertI split: if_splits)
  qed
qed

lemma set_mode_inv:
  assumes inv: "side_inv dec sid e st D ph peer"
  shows "\<exists>st'. side_inv dec sid (e\<lparr>ep_inner := set_udp_nack_mode sid (ep_inner e)\<rparr>) st' D ph peer \<and>
     received st' = received st"
proof -
  let ?st = "st\<lparr>mode := ModeUdp\<rparr>"
  have s: "streams (rel (ep_inner e)) = [(sid, st)]" using inv by (simp add: side_inv_def)
  have core: "same_core st ?st" by (simp add: same_core_def)
  have "side_inv dec sid (e\<lparr>ep_inner := set_udp_nack_mode sid (ep_inner e)\<rparr>) ?st (D \<union> {}) ph peer"
    using inv s by (intro side_inv_core [OF inv core])
      (simp_all add: set_udp_nack_mode_def put_stream_def side_inv_def
        out_ok_received [OF same_core_simps(1) [OF core]])
  then show ?thesis using same_core_simps(1) [OF core] by auto
qed

lemma chan_step_inv:
  assumes "chan_step enc dec sid s t" and aead: "aead_ok enc dec"
    and inv: "sys_inv dec sid s st" and bd: "bounded t"
  shows "\<exists>st'. sys_inv dec sid t st'"
  using assms(1)
proof cases
  case (app_write e x cx now buf r i tx)
  have len: "length (ep_hist (ep s x) @ accepted r buf) + 1 < 2 ^ 64"
    using bd app_write by (auto simp: bounded_def set_ep_def dest: spec [of _ x])
  show ?thesis unfolding app_write(1,2)
    by (rule sys_step_quiet [OF inv _ poll_write_inv [OF side_inv_sys [OF inv]
          app_write(3) [unfolded app_write(2)] len]]) simp
next
  case (app_read e x cx n r i)
  show ?thesis unfolding app_read(1,2)
    by (rule sys_step_quiet [OF inv _ poll_read_inv [OF side_inv_sys [OF inv]
          app_read(3) [unfolded app_read(2)]]]) simp
next
  case (app_shutdown e x r i tx)
  have "side_inv dec sid (e\<lparr>ep_inner := i, ep_tx := tx\<rparr>) (st x) (net s x \<union> {})
      (ep_hist (ep s (other x))) (st (other x))"
    using side_inv_sys [OF inv, of x] app_shutdown
    by (intro side_inv_core [OF side_inv_sys [OF inv, of x]])
      (auto simp: same_core_def side_inv_def poll_shutdown_def try_send_def tx_ok_def split: if_splits)
  then show ?thesis unfolding app_shutdown(1)
    by (intro sys_step_quiet [OF inv]) (auto simp: app_shutdown(2))
next
  case (set_nack_mode e x)
  show ?thesis unfolding set_nack_mode(1,2)
    by (rule sys_step_quiet [OF inv _ set_mode_inv [OF side_inv_sys [OF inv]]]) simp
next
  case (task_transmit e x w tx rng now tr e')
  let ?ds = "snd ` set (tr_sent tr)"
  have own: "side_inv dec sid e' (st x) (net s x \<union> ?ds) (ep_hist (ep s (other x))) (st (other x))"
    using transmit_inv [OF aead side_inv_sys [OF inv, of x]] task_transmit by simp
  have "\<exists>st'. side_inv dec sid (if tr_break tr then stop_task sid e' else e') st' (net s x \<union> ?ds)
      (ep_hist (ep s (other x))) (st (other x)) \<and> (\<forall>q. received (st x) q \<longrightarrow> received st' q)"
    using stop_task_inv [OF own] own by (cases "tr_break tr") auto
  then show ?thesis unfolding task_transmit(1)
    by (intro sys_step [OF inv]) (simp_all add: stop_task_def task_transmit(2,7))
next
  case (task_deliver e x dgram h payload now src i outs ws)
  have claim: "claim_ok (ep_hist (ep s (other x))) (st (other x)) (hdr_kind h) (hdr_seq h)
      (hdr_ack h) (hdr_ack_bits h) payload"
    using side_inv_sys [OF inv, of "other x"] task_deliver by (auto simp: side_inv_def dgram_ok_def)
  have len: "length (ep_hist (ep s (other x))) + 1 < 2 ^ 64"
    using chan_step_bounded [OF assms(1) bd] by (simp add: bounded_def)
  note own = deliver_inv [OF side_inv_sys [OF inv] _ claim task_deliver(6) len
      task_deliver(7) [unfolded task_deliver(2)]]
  show ?thesis unfolding task_deliver(1,2)
    using sys_step [OF inv, of _ x "{}"] own task_deliver(2,3) by simp
next
  case (task_tick e x now i outs)
  show ?thesis unfolding task_tick(1,2)
    by (rule sys_step_quiet [OF inv _ tick_inv [OF side_inv_sys [OF inv]
          task_tick(4) [unfolded task_tick(2)] task_tick(3) [unfolded task_tick(2)]]]) simp_all
next
  case (task_tick_fail e x now i err)
  have "ep_out (ep s x) = []" using task_tick_fail by simp
  then have "\<exists>st'. side_inv dec sid (e\<lparr>ep_inner := i, ep_out := []\<rparr>) st' (net s x)
      (ep_hist (ep s (other x))) (st (other x)) \<and> received st' = received (st x)"
    unfolding task_tick_fail(2)
    by (rule tick_inv [OF side_inv_sys [OF inv] task_tick_fail(4) [unfolded task_tick_fail(2)]]) simp
  then have "\<exists>st'. side_inv dec sid (stop_task sid (e\<lparr>ep_inner := i\<rparr>)) st' (net s x)
      (ep_hist (ep s (other x))) (st (other x)) \<and> received st' = received (st x)"
    using stop_task_inv by (fastforce simp: stop_task_def)
  then show ?thesis unfolding task_tick_fail(1)
    by (intro sys_step_quiet [OF inv]) (simp_all add: stop_task_def task_tick_fail(2))
next
  case (task_flush e x sid' pt sq ack bits d ps nonce now i dest pkt)
  have out: "out_ok sid (ep_hist (ep s x)) (st x) (sid', pt, sq, ack, bits, d)"
    using side_inv_sys [OF inv, of x] task_flush by (auto simp: side_inv_def)
  then have sid': "sid' = sid" by (simp add: out_ok_def)
  have "side_inv dec sid ((ep s x)\<lparr>ep_inner := i, ep_tx := ep_tx (ep s x), ep_out := ps\<rparr>) (st x)
      (net s x \<union> {pkt}) (ep_hist (ep s (other x))) (st (other x))"
    using out task_flush(2,3)
    by (intro send_inv [OF aead side_inv_sys [OF inv] task_flush(4)
          task_flush(5) [unfolded task_flush(2) sid']]) (auto simp: out_ok_def claim_ok_def)
  then show ?thesis unfolding task_flush(1,2) by (intro sys_step [OF inv]) auto
next
  case (task_flush_fail e x sid' pt sq ack bits d ps nonce now err)
  show ?thesis unfolding task_flush_fail(1,2)
    by (rule sys_step_quiet [OF inv _ stop_task_inv [OF side_inv_sys [OF inv]]])
      (simp add: stop_task_def)
next
  case (connect_open e x nonce now i dest pkt)
  have "side_inv dec sid ((ep s x)\<lparr>ep_inner := i, ep_tx := ep_tx (ep s x), ep_out := ep_out (ep s x)\<rparr>)
      (st x) (net s x \<union> {pkt}) (ep_hist (ep s (other x))) (st (other x))"
    by (intro send_inv [OF aead side_inv_sys [OF inv] connect_open(3)
          connect_open(4) [unfolded connect_open(2) send_packet_def]]) auto
  then show ?thesis unfolding connect_open(1,2) by (intro sys_step [OF inv]) auto
next
  case (task_stop x)
  show ?thesis unfolding task_stop
    by (rule sys_step_quiet [OF inv _ stop_task_inv [OF side_inv_sys [OF inv]]])
      (simp add: stop_task_def)
next
  case (net_forge dgram x)
  have "side_inv dec sid (ep s x) (st x) (net s x \<union> {dgram}) (ep_hist (ep s (other x))) (st (other x))"
    using side_inv_sys [OF inv, of x] net_forge by (auto simp: side_inv_def dgram_ok_def)
  moreover have "set_ep x (ep s x) s = s" by (simp add: set_ep_def)
  ultimately show ?thesis
    using sys_step [OF inv, of "ep s x" x "{dgram}"] net_forge by auto
qed

lemma reachable_inv:
  assumes "reachable enc dec sid s" and "aead_ok enc dec" and "bounded s"
  shows "\<exists>st. sys_inv dec sid s st"
  using assms
proof (induction rule: reachable.induct)
  case (start addr now)
  show ?case by (rule sys_inv_new)
next
  case (step s t)
  then have "bounded s" by (blast intro: chan_step_bounded)
  with step obtain st where "sys_inv dec sid s st" by blast
  with step show ?case by (blast intro: chan_step_inv)
qed

section \<open>A concrete run\<close>

text \<open>
  A cipher that leaves the bytes in the clear and adds a tag of 16 zeros satisfies
  \<open>aead_ok\<close>. The run writes six bytes on one side, transmits, delivers and reads them.
\<close>

definition demo_enc :: cipher where
  "demo_enc nonce plain = Some (plain @ replicate 16 0)"

definition demo_dec :: cipher where
  "demo_dec nonce c = (if length c < 16 then None else Some (take (length c - 16) c))"

definition demo_start :: system where
  "demo_start = system_new 1 (\<lambda>_. V4 0 0) 0"

definition do_write :: "side \<Rightarrow> bytes \<Rightarrow> system \<Rightarrow> system" where
  "do_write x buf s =
     (let e = ep s x; (r, i, tx) = poll_write 0 0 buf 1 (ep_inner e) (ep_tx e)
      in set_ep x (e\<lparr>ep_inner := i, ep_tx := tx, ep_hist := ep_hist e @ accepted r buf\<rparr>) s)"

definition do_read :: "side \<Rightarrow> nat \<Rightarrow> system \<Rightarrow> system" where
  "do_read x n s =
     (let e = ep s x; (r, i) = poll_read 0 n 1 (ep_inner e)
      in set_ep x (e\<lparr>ep_inner := i, ep_read := ep_read e @ returned r\<rparr>) s)"

definition do_transmit :: "side \<Rightarrow> system \<Rightarrow> system" where
  "do_transmit x s =
     (let e = ep s x;
          tr = task_turn demo_enc (\<lambda>_. replicate 12 0) 0 1 (ep_inner e) (WriteEv (Some (hd (ep_tx e))));
          e' = e\<lparr>ep_inner := tr_inner tr, ep_tx := tl (ep_tx e)\<rparr>
      in emit x (snd ` set (tr_sent tr)) (set_ep x (if tr_break tr then stop_task 1 e' else e') s))"

definition do_deliver :: "side \<Rightarrow> bytes \<Rightarrow> system \<Rightarrow> system" where
  "do_deliver x dgram s =
     (let e = ep s x; (h, payload) = the (recv_datagram demo_dec dgram);
          (i, outs, ws) = handle_incoming_locked 0 (ep_inner e)
            \<lparr>pkt_header = h, pkt_payload = payload, pkt_src = V4 0 0\<rparr>
      in set_ep x (e\<lparr>ep_inner := i, ep_out := map (\<lambda>p. (1, p)) outs\<rparr>) s)"

definition demo_dgram :: bytes where
  "demo_dgram = replicate 12 0 @ [0, 0, 0, 1, 0] @ [0, 0, 0, 0, 0, 0, 0, 1] @ replicate 16 0 @
     [0, 0, 0, 2, 4, 0] @ replicate 16 0"

lemma demo_aead_ok: "aead_ok demo_enc demo_dec"
  by (simp add: aead_ok_def demo_enc_def demo_dec_def)

abbreviation demo_reachable :: "system \<Rightarrow> bool" where
  "demo_reachable \<equiv> reachable demo_enc demo_dec 1"

lemma demo_reachable_write: "demo_reachable s \<Longrightarrow> demo_reachable (do_write x buf s)"
  by (erule reachable.step) (auto simp: do_write_def Let_def split: prod.splits intro: app_write)

lemma demo_reachable_read: "demo_reachable s \<Longrightarrow> demo_reachable (do_read x n s)"
  by (erule reachable.step) (auto simp: do_read_def Let_def split: prod.splits intro: app_read)

lemma demo_reachable_transmit:
  "demo_reachable s \<Longrightarrow> ep_out (ep s x) = [] \<Longrightarrow> ep_tx (ep s x) \<noteq> [] \<Longrightarrow>
   demo_reachable (do_transmit x s)"
  unfolding do_transmit_def Let_def
  by (erule reachable.step, rule task_transmit [OF refl, where rng = "\<lambda>_. replicate 12 0"]) simp_all

lemma demo_reachable_deliver:
  "demo_reachable s \<Longrightarrow> ep_out (ep s x) = [] \<Longrightarrow> dgram \<in> net s (other x) \<Longrightarrow>
   recv_datagram demo_dec dgram = Some (h, p) \<Longrightarrow> channel_id h = 1 \<Longrightarrow>
   demo_reachable (do_deliver x dgram s)"
  by (erule reachable.step) (auto simp: do_deliver_def Let_def split: prod.splits intro: task_deliver)

definition demo_written :: system where
  "demo_written = do_write Near [0, 0, 0, 2, 4, 0] demo_start"

definition demo_done :: system where
  "demo_done = do_read Far 10 (do_deliver Far demo_dgram (do_transmit Near demo_written))"

lemma demo_written_ep:
  "ep demo_written Near = \<lparr>ep_inner = \<lparr>peer_addr = V4 0 0,
       rel = \<lparr>streams = [(1, (stream_state_new ModeTcp)\<lparr>next_write_seq := 2,
          write_queue := [(1, \<lparr>sp_data = [0, 0, 0, 2, 4, 0], sent_at = 0, retransmits = 0\<rparr>)]\<rparr>)]\<rparr>,
       last_received = 0, last_sent = 0, closed = False\<rparr>,
     ep_tx = [(1, [0, 0, 0, 2, 4, 0])], ep_out = [], ep_hist = [[0, 0, 0, 2, 4, 0]], ep_read = []\<rparr>"
  "ep demo_written Far = ep demo_start Far" "net demo_written = (\<lambda>_. {})"
  by (simp_all add: demo_written_def do_write_def demo_start_def system_new_def poll_write_def
      udp_stream_new_def reliability_new_def stream_state_new_def Let_def put_stream_def
      set_ep_def accepted_def try_send_def)

lemma demo_written_reachable: "demo_reachable demo_written"
  unfolding demo_written_def demo_start_def by (intro demo_reachable_write start)

lemma demo_transmit_net: "net (do_transmit Near demo_written) Near = {demo_dgram}"
  "ep (do_transmit Near demo_written) Far = ep demo_start Far"
  "ep_hist (ep (do_transmit Near demo_written) Near) = [[0, 0, 0, 2, 4, 0]]"
  by code_simp+


lemma demo_done_reachable: "demo_reachable demo_done"
  unfolding demo_done_def
proof (rule demo_reachable_read, rule demo_reachable_deliver)
  show "demo_reachable (do_transmit Near demo_written)"
    by (intro demo_reachable_transmit demo_written_reachable) (simp_all add: demo_written_ep)
  show "ep_out (ep (do_transmit Near demo_written) Far) = []"
    by (simp add: demo_transmit_net demo_start_def system_new_def)
  show "demo_dgram \<in> net (do_transmit Near demo_written) (other Far)"
    by (simp add: demo_transmit_net)
  show "recv_datagram demo_dec demo_dgram =
      Some (\<lparr>channel_id = 1, hdr_kind = Stream, hdr_seq = 1, hdr_ack = 0, hdr_ack_bits = 0\<rparr>, [0, 0, 0, 2, 4, 0])"
    by code_simp
qed simp

lemma demo_done_ep:
  "ep_read (ep demo_done Far) = [0, 0, 0, 2, 4, 0]" "ep_hist (ep demo_done Near) = [[0, 0, 0, 2, 4, 0]]"
  "ep_hist (ep demo_done Far) = []"
  by code_simp+

lemma demo_bounded: "bounded demo_written" "bounded demo_done"
proof -
  have far: "ep_hist (ep demo_written Far) = []" by code_simp
  show "bounded demo_written"
    unfolding bounded_def
  proof
    fix x show "length (ep_hist (ep demo_written x)) + 1 < 2 ^ 64"
      by (cases x) (simp_all add: far demo_written_ep(1))
  qed
  show "bounded demo_done"
    unfolding bounded_def
  proof
    fix x show "length (ep_hist (ep demo_done x)) + 1 < 2 ^ 64"
      by (cases x) (simp_all add: demo_done_ep)
  qed
qed

text \<open>What has been read is a prefix of what was accepted.\<close>

lemma delivered_prefix:
  assumes "reachable enc dec sid s" and "aead_ok enc dec" and "bounded s"
  shows "\<exists>rest. concat (ep_hist (ep s x)) = ep_read (ep s (other x)) @ rest"
proof -
  obtain st where "sys_inv dec sid s st" using reachable_inv [OF assms] by blast
  then have "reads (ep_hist (ep s x)) (ep_read (ep s (other x))) (st (other x))"
    using side_inv_sys [of dec sid s st "other x"] by (simp add: side_inv_def)
  note r = readsD(6) [OF this]
  let ?n = "unat (next_read_seq (st (other x))) - 1"
  have "concat (ep_hist (ep s x)) = concat (take ?n (ep_hist (ep s x))) @ concat (drop ?n (ep_hist (ep s x)))"
    by (simp flip: concat_append)
  then have "concat (ep_hist (ep s x)) = (ep_read (ep s (other x)) @ read_buf_bytes (st (other x))) @
      concat (drop ?n (ep_hist (ep s x)))"
    using r by simp
  then show ?thesis by auto
qed

section \<open>Properties\<close>

text \<open>
  C1: the UDP transport delivers a prefix of what was written. In every reachable state, with
  any losses, duplications, reorderings and undecryptable forgeries in between, the bytes one
  side has read are a prefix of the concatenation of the chunks the other side accepted.
\<close>

theorem stream_prefix_delivery:
  assumes "reachable enc dec sid s" and "aead_ok enc dec" and "bounded s"
  shows "\<exists>rest. concat (ep_hist (ep s x)) = ep_read (ep s (other x)) @ rest"
  by (rule delivered_prefix [OF assms])

theorem stream_prefix_delivery_witness:
  "\<exists>rest. concat (ep_hist (ep demo_done Near)) = ep_read (ep demo_done Far) @ rest \<and>
     ep_read (ep demo_done Far) = [0, 0, 0, 2, 4, 0]"
  using stream_prefix_delivery [OF demo_done_reachable demo_aead_ok demo_bounded(2), of Near]
    demo_done_ep by simp

text \<open>
  C6: the reliable mode loses nothing. In every reachable state, while the sending side is in
  TCP mode, each accepted chunk is still in the send queue or already held by the receiver; the
  send queue never holds more than 1024 packets.
\<close>

theorem reliable_mode_loses_nothing:
  assumes "reachable enc dec sid s" and "aead_ok enc dec" and "bounded s"
    and "get_stream (ep_inner (ep s x)) sid = Some st"
    and "get_stream (ep_inner (ep s (other x))) sid = Some peer"
  shows "length (write_queue st) \<le> 1024 \<and>
    (mode st = ModeTcp \<longrightarrow> (\<forall>q. 1 \<le> unat q \<and> unat q \<le> length (ep_hist (ep s x)) \<longrightarrow>
       bt_contains (write_queue st) q \<or> received peer q))"
proof -
  obtain sts where inv: "sys_inv dec sid s sts" using reachable_inv [OF assms(1-3)] by blast
  have st: "sts x = st" "sts (other x) = peer"
    using side_inv_sys [OF inv, of x] side_inv_sys [OF inv, of "other x"] assms(4,5)
    by (simp_all add: side_inv_def)
  with side_inv_sys [OF inv, of x] show ?thesis
    by (auto simp: side_inv_def no_loss_def sender_ok_def)
qed

theorem reliable_mode_loses_nothing_witness:
  "\<exists>st peer. get_stream (ep_inner (ep demo_written Near)) 1 = Some st \<and>
     get_stream (ep_inner (ep demo_written Far)) 1 = Some peer \<and>
     (bt_contains (write_queue st) 1 \<or> received peer 1)"
proof -
  have far: "get_stream (ep_inner (ep demo_written (other Near))) 1 = Some (stream_state_new ModeTcp)"
    by (simp add: demo_written_ep demo_start_def system_new_def udp_stream_new_def reliability_new_def)
  obtain st where near: "get_stream (ep_inner (ep demo_written Near)) 1 = Some st"
    and "mode st = ModeTcp"
    by (simp add: demo_written_ep stream_state_new_def)
  with reliable_mode_loses_nothing [OF demo_written_reachable demo_aead_ok demo_bounded(1) near far]
  have "bt_contains (write_queue st) 1 \<or> received (stream_state_new ModeTcp) 1"
    by (auto simp: demo_written_ep dest: spec [of _ "1 :: u64"])
  with near far show ?thesis by auto
qed

text \<open>
  C17: one round of retransmission recovers everything. In any reachable state with the sender
  in TCP mode, let the timer fire when every queued packet has expired and none has used up its
  attempts. If the packets it resends reach the receiver, in any order and with any
  repetitions, the receiver has delivered all that was ever written.
\<close>

theorem retransmission_recovers:
  assumes "reachable enc dec sid s" and "aead_ok enc dec" and "bounded s"
    and "get_stream (ep_inner (ep s x)) sid = Some st"
    and "get_stream (ep_inner (ep s (other x))) sid = Some peer"
    and tcp: "mode st = ModeTcp" and exp: "\<forall>(q, p) \<in> set (write_queue st). expired now p"
    and gr: "get_retransmissions (rel (ep_inner (ep s x))) now = ((rs, []), r')"
    and ps: "set ps = (\<lambda>(sid, q, d). (q, d)) ` set rs"
  shows "ep_read (ep s (other x)) @ read_buf_bytes (push_all peer ps) = concat (ep_hist (ep s x))"
proof -
  obtain sts where inv: "sys_inv dec sid s sts" using reachable_inv [OF assms(1-3)] by blast
  note own = side_inv_sys [OF inv, of x] and far = side_inv_sys [OF inv, of "other x"]
  have st: "sts x = st" "sts (other x) = peer" and strm: "streams (rel (ep_inner (ep s x))) = [(sid, st)]"
    using own far assms(4,5) by (auto simp: side_inv_def)
  let ?hist = "ep_hist (ep s x)" and ?pre = "ep_read (ep s (other x))"
  have len: "length ?hist + 1 < 2 ^ 64" using assms(3) by (simp add: bounded_def)
  have rd: "reads ?hist ?pre peer" using far st by (simp add: side_inv_def)
  have snd: "sender_ok ?hist st" and nl: "no_loss ?hist st peer"
    using own st by (simp_all add: side_inv_def)
  have "rs = timer_packets now sid st"
    using retransmission_loop_effect [of now "streams (rel (ep_inner (ep s x)))"] gr strm
    by (auto simp: get_retransmissions_def split: prod.splits)
  moreover have "filter (\<lambda>(q, p). expired now p) (write_queue st) = write_queue st"
    using exp by (intro filter_True) blast
  ultimately have "rs = map (\<lambda>(q, p). (sid, q, sp_data p)) (write_queue st)"
    using tcp by (simp add: timer_packets_def)
  then have "set ps = (\<lambda>(q, p). (q, sp_data p)) ` set (write_queue st)"
    using ps by (simp add: image_image case_prod_beta')
  then have keys: "fst ` set ps = fst ` set (write_queue st)"
    and mem: "\<And>q d. (q, d) \<in> set ps \<Longrightarrow> \<exists>p. (q, p) \<in> set (write_queue st) \<and> d = sp_data p"
    by (auto simp: image_image case_prod_beta')
  have chunks: "\<forall>(q, d) \<in> set ps. chunk_of ?hist q d"
    using snd mem by (fastforce simp: sender_ok_def bt_get_iff)
  show ?thesis
  proof (rule reads_all_received [OF push_all_reads(1) [OF rd chunks len] len])
    fix q :: u64 assume "1 \<le> unat q" "unat q \<le> length ?hist"
    with nl tcp have "bt_contains (write_queue st) q \<or> received peer q" by (simp add: no_loss_def)
    then show "received (push_all peer ps) q"
      using push_all_reads(2) [OF rd chunks len, of q] keys
      by (auto simp: bt_contains_def map_of_eq_None_iff)
  qed
qed

theorem retransmission_recovers_witness:
  "ep_read (ep demo_written Far) @
     read_buf_bytes (push_all (stream_state_new ModeTcp) [(1, [0, 0, 0, 2, 4, 0]), (1, [0, 0, 0, 2, 4, 0])]) =
   concat (ep_hist (ep demo_written Near)) \<and> concat (ep_hist (ep demo_written Near)) = [0, 0, 0, 2, 4, 0]"
proof -
  let ?st = "(stream_state_new ModeTcp)\<lparr>next_write_seq := 2,
      write_queue := [(1, \<lparr>sp_data = [0, 0, 0, 2, 4, 0], sent_at = 0, retransmits = 0\<rparr>)]\<rparr>"
  have far: "get_stream (ep_inner (ep demo_written (other Near))) 1 = Some (stream_state_new ModeTcp)"
    by (simp add: demo_written_ep demo_start_def system_new_def udp_stream_new_def reliability_new_def)
  have near: "get_stream (ep_inner (ep demo_written Near)) 1 = Some ?st"
    and tcp: "mode ?st = ModeTcp"
    and exp: "\<forall>(q, p) \<in> set (write_queue ?st). expired (secs 1) p"
    by (simp_all add: demo_written_ep stream_state_new_def expired_def secs_def millis_def
        duration_since_def)
  obtain r' where gr: "get_retransmissions (rel (ep_inner (ep demo_written Near))) (secs 1) =
      (([(1, 1, [0, 0, 0, 2, 4, 0])], []), r')"
    by (simp add: demo_written_ep get_retransmissions_def stream_state_new_def secs_def millis_def
        duration_since_def)
  from retransmission_recovers [OF demo_written_reachable demo_aead_ok demo_bounded(1) near far tcp
      exp gr, of "[(1, [0, 0, 0, 2, 4, 0]), (1, [0, 0, 0, 2, 4, 0])]"]
  show ?thesis by (simp add: demo_written_ep)
qed

end
