(* ===== verification/Rust_Str.thy ===== *)
theory Rust_Str
  imports Prelude
begin

text \<open>
  The string operations the program takes from Rust's standard library: splitting, trimming,
  parsing and printing decimal numbers. A string is a list of characters with code points
  below 256; the whitespace characters are those of Unicode in that range.
\<close>

section \<open>Splitting and trimming\<close>

fun split_char :: "char \<Rightarrow> string \<Rightarrow> string list" where
  "split_char d [] = [[]]"
| "split_char d (c # cs) =
     (if c = d then [] # split_char d cs
      else (case split_char d cs of [] \<Rightarrow> [[c]] | w # ws \<Rightarrow> (c # w) # ws))"

fun split_once :: "char \<Rightarrow> string \<Rightarrow> (string \<times> string) option" where
  "split_once d [] = None"
| "split_once d (c # cs) =
     (if c = d then Some ([], cs)
      else map_option (\<lambda>(a, b). (c # a, b)) (split_once d cs))"

definition is_whitespace :: "char \<Rightarrow> bool" where
  "is_whitespace c = (let n = of_char c :: nat in 9 \<le> n \<and> n \<le> 13 \<or> n = 32 \<or> n = 133 \<or> n = 160)"

definition trim :: "string \<Rightarrow> string" where
  "trim s = rev (dropWhile is_whitespace (rev (dropWhile is_whitespace s)))"

section \<open>Decimal numbers\<close>

definition digit_value :: "char \<Rightarrow> nat option" where
  "digit_value c = (let n = of_char c :: nat in if 48 \<le> n \<and> n \<le> 57 then Some (n - 48) else None)"

text \<open>The digit loop of \<open>from_str_radix\<close>: a bad digit or an overflow ends it with an error.\<close>

fun parse_digits :: "nat \<Rightarrow> string \<Rightarrow> nat \<Rightarrow> nat option" where
  "parse_digits limit [] acc = Some acc"
| "parse_digits limit (c # cs) acc =
     (case digit_value c of
        None \<Rightarrow> None
      | Some d \<Rightarrow>
          if limit < acc * 10 then None
          else if limit < acc * 10 + d then None
          else parse_digits limit cs (acc * 10 + d))"

text \<open>\<open>str::parse\<close> for an unsigned type with the given largest value: a leading plus sign is
  accepted, the empty string and a sign alone are not.\<close>

definition parse_uint :: "nat \<Rightarrow> string \<Rightarrow> nat option" where
  "parse_uint limit s =
     (case s of
        [] \<Rightarrow> None
      | c # cs \<Rightarrow>
          if (c = CHR ''+'' \<or> c = CHR ''-'') \<and> cs = [] then None
          else if c = CHR ''+'' then parse_digits limit cs 0
          else parse_digits limit s 0)"

definition parse_u16 :: "string \<Rightarrow> u16 option" where
  "parse_u16 s = map_option of_nat (parse_uint 65535 s)"

definition digit_char :: "nat \<Rightarrow> char" where
  "digit_char d = char_of (48 + d)"

fun show_nat :: "nat \<Rightarrow> string" where
  "show_nat n = (if n < 10 then [digit_char n] else show_nat (n div 10) @ [digit_char (n mod 10)])"

declare show_nat.simps [simp del]

section \<open>Lemmas\<close>

lemma digit_value_char [simp]: "d < 10 \<Longrightarrow> digit_value (digit_char d) = Some d"
  by (simp add: digit_value_def digit_char_def)

lemma digit_char_literals:
  "digit_char 0 = CHR ''0''" "digit_char (Suc 0) = CHR ''1''" "digit_char 2 = CHR ''2''"
  "digit_char 3 = CHR ''3''" "digit_char 4 = CHR ''4''" "digit_char 5 = CHR ''5''"
  "digit_char 6 = CHR ''6''" "digit_char 7 = CHR ''7''" "digit_char 8 = CHR ''8''"
  "digit_char 9 = CHR ''9''"
  by code_simp+

lemma split_char_ne [simp]: "split_char d s \<noteq> []"
  by (induction s) (auto split: list.splits)

lemma split_char_plain: "d \<notin> set s \<Longrightarrow> split_char d s = [s]"
  by (induction s) auto

lemma split_char_sep: "d \<notin> set s \<Longrightarrow> split_char d (s @ d # t) = s # split_char d t"
  by (induction s) auto

lemma split_once_plain: "split_once d s = None \<longleftrightarrow> d \<notin> set s"
  by (induction s) auto

lemma split_once_sep: "d \<notin> set s \<Longrightarrow> split_once d (s @ d # t) = Some (s, t)"
  by (induction s) auto

lemma dropWhile_prefix:
  assumes "\<forall>c \<in> set a. P c" and "s = [] \<or> \<not> P (hd s)"
  shows "dropWhile P (a @ s) = s"
  using assms by (induction a) (auto simp: dropWhile_eq_self_iff)

lemma trim_pad:
  assumes "\<forall>c \<in> set a. is_whitespace c" and "\<forall>c \<in> set b. is_whitespace c"
    and "s \<noteq> []" and "\<not> is_whitespace (hd s)" and "\<not> is_whitespace (last s)"
  shows "trim (a @ s @ b) = s"
proof -
  have "dropWhile is_whitespace (a @ s @ b) = s @ b"
    using assms(1,3,4) by (intro dropWhile_prefix) simp_all
  moreover have "dropWhile is_whitespace (rev b @ rev s) = rev s"
    using assms(2,3,5) by (intro dropWhile_prefix) (simp_all add: hd_rev)
  ultimately show ?thesis by (simp add: trim_def)
qed

lemma trim_plain: "\<forall>c \<in> set s. \<not> is_whitespace c \<Longrightarrow> trim s = s"
  using trim_pad [of "[]" "[]" s] by (cases "s = []") (simp_all add: trim_def)

lemma digit_char_plain:
  assumes "d < 10"
  shows "\<not> is_whitespace (digit_char d)" "digit_char d \<noteq> CHR '',''" "digit_char d \<noteq> CHR ''-''"
    "digit_char d \<noteq> CHR ''+''" "digit_char d \<noteq> CHR ''*''"
proof -
  have "of_char (digit_char d) = 48 + d" using assms by (simp add: digit_char_def)
  then show "\<not> is_whitespace (digit_char d)" using assms by (simp add: is_whitespace_def)
  have "d \<in> {0, 1, 2, 3, 4, 5, 6, 7, 8, 9}" using assms by auto
  then show "digit_char d \<noteq> CHR '',''" "digit_char d \<noteq> CHR ''-''" "digit_char d \<noteq> CHR ''+''"
    "digit_char d \<noteq> CHR ''*''"
    by (auto simp: digit_char_def char_of_def)
qed

lemma show_nat_rec:
  "n < 10 \<Longrightarrow> show_nat n = [digit_char n]"
  "\<not> n < 10 \<Longrightarrow> show_nat n = show_nat (n div 10) @ [digit_char (n mod 10)]"
  by (subst show_nat.simps, simp)+

lemma show_nat_ne [simp]: "show_nat n \<noteq> []"
  by (cases "n < 10") (simp_all add: show_nat_rec)

lemma set_show_nat: "c \<in> set (show_nat n) \<Longrightarrow> \<exists>d < 10. c = digit_char d"
proof (induction n rule: show_nat.induct)
  case (1 n)
  from 1(2) have "n < 10 \<and> c = digit_char n \<or> \<not> n < 10 \<and> c \<in> set (show_nat (n div 10)) \<or> c = digit_char (n mod 10)"
    by (subst (asm) show_nat.simps) (auto split: if_splits)
  then show ?case using 1(1) mod_less_divisor [of 10 n] by fastforce
qed

lemma show_nat_chars:
  assumes "c \<in> set (show_nat n)"
  shows "\<not> is_whitespace c" "c \<noteq> CHR '',''" "c \<noteq> CHR ''-''" "c \<noteq> CHR ''+''" "c \<noteq> CHR ''*''"
proof -
  obtain d where "d < 10" "c = digit_char d" using set_show_nat [OF assms] by blast
  then show "\<not> is_whitespace c" "c \<noteq> CHR '',''" "c \<noteq> CHR ''-''" "c \<noteq> CHR ''+''" "c \<noteq> CHR ''*''"
    by (simp_all add: digit_char_plain)
qed

lemma parse_digits_append:
  "parse_digits limit (s @ t) acc = Option.bind (parse_digits limit s acc) (parse_digits limit t)"
  by (induction s arbitrary: acc) (auto split: option.splits)

lemma parse_digits_show_nat: "n \<le> limit \<Longrightarrow> parse_digits limit (show_nat n) 0 = Some n"
proof (induction n rule: show_nat.induct)
  case (1 n)
  show ?case
  proof (cases "n < 10")
    case True
    then show ?thesis using 1 by (simp add: show_nat.simps)
  next
    case False
    then have "parse_digits limit (show_nat (n div 10)) 0 = Some (n div 10)" using 1 by simp
    moreover have "n div 10 * 10 \<le> limit" "n div 10 * 10 + n mod 10 \<le> limit"
      using 1(2) by (simp_all add: div_mult_mod_eq)
    ultimately show ?thesis
      using False by (subst show_nat.simps) (simp add: parse_digits_append)
  qed
qed

lemma parse_uint_show_nat:
  assumes "n \<le> limit"
  shows "parse_uint limit (show_nat n) = Some n"
proof -
  obtain c cs where s: "show_nat n = c # cs" by (cases "show_nat n") auto
  then have "c \<noteq> CHR ''+''" "c \<noteq> CHR ''-''" using show_nat_chars [of c n] by auto
  with s parse_digits_show_nat [OF assms] show ?thesis by (simp add: parse_uint_def)
qed

lemma parse_u16_show_nat [simp]: "parse_u16 (show_nat (unat p)) = Some p"
proof -
  have "unat p \<le> 65535" using unsigned_less [where 'a = nat, of p] by simp
  then show ?thesis by (simp add: parse_u16_def parse_uint_show_nat)
qed

lemma trim_show_nat [simp]: "trim (show_nat n) = show_nat n"
  using show_nat_chars by (intro trim_plain) blast

text \<open>A number that is read is within the limit, so converting it to the type loses nothing.\<close>

lemma parse_digits_bound: "acc \<le> limit \<Longrightarrow> parse_digits limit s acc = Some n \<Longrightarrow> n \<le> limit"
  by (induction s arbitrary: acc) (auto simp: not_less split: option.splits if_splits)

lemma parse_uint_bound: "parse_uint limit s = Some n \<Longrightarrow> n \<le> limit"
  using parse_digits_bound [of 0 limit s n] parse_digits_bound [of 0 limit "tl s" n]
  by (simp add: parse_uint_def del: parse_digits.simps split: list.splits if_splits)

lemma parse_u16_unat: "parse_u16 s = Some p \<Longrightarrow> parse_uint 65535 s = Some (unat p)"
  using parse_uint_bound [of 65535 s] by (auto simp: parse_u16_def unat_of_nat take_bit_nat_eq_self)

section \<open>Bytes of a string\<close>

text \<open>\<open>as_bytes\<close>: UTF-8, where a code point from 128 to 255 takes two bytes.\<close>

definition utf8 :: "char \<Rightarrow> bytes" where
  "utf8 c =
     (let n = of_char c :: nat
      in if n < 128 then [of_nat n] else [of_nat (192 + n div 64), of_nat (128 + n mod 64)])"

definition as_bytes :: "string \<Rightarrow> bytes" where
  "as_bytes s = concat (map utf8 s)"

lemma as_bytes_simps [simp]:
  "as_bytes [] = []" "as_bytes (c # s) = utf8 c @ as_bytes s" "as_bytes (s @ t) = as_bytes s @ as_bytes t"
  by (simp_all add: as_bytes_def)

lemma of_char_less_256: "(of_char c :: nat) < 256"
  using of_char_mod_256 [of c] by (metis mod_less_divisor zero_less_numeral)

lemma utf8_unat:
  "map unat (utf8 c) = (let n = of_char c :: nat
     in if n < 128 then [n] else [192 + n div 64, 128 + n mod 64])"
proof -
  have n: "(of_char c :: nat) < 256" by (rule of_char_less_256)
  then have "192 + of_char c div 64 < (256 :: nat)" "128 + of_char c mod 64 < (256 :: nat)"
    by linarith+
  then have "unat (of_nat (192 + of_char c div 64) :: u8) = 192 + of_char c div 64"
    "unat (of_nat (128 + of_char c mod 64) :: u8) = 128 + of_char c mod 64"
    by (simp_all only: unat_of_nat_u8 mod_less)
  moreover have "unat (of_nat (of_char c) :: u8) = of_char c" using n by (simp only: unat_of_nat_u8 mod_less)
  ultimately show ?thesis by (simp only: utf8_def Let_def split: if_split) simp
qed

lemma utf8_prefix_free: "utf8 c @ r = utf8 d @ s \<Longrightarrow> c = d \<and> r = s"
proof -
  assume eq: "utf8 c @ r = utf8 d @ s"
  let ?c = "of_char c :: nat" and ?d = "of_char d :: nat"
  have "map unat (utf8 c) @ map unat r = map unat (utf8 d) @ map unat s"
    using arg_cong [OF eq, of "map unat"] by simp
  then have "?c = ?d"
    unfolding utf8_unat Let_def
    by (auto split: if_splits simp del: of_char_eq_iff) (metis div_mult_mod_eq)
  then have "c = d" by simp
  with eq show ?thesis by simp
qed

lemma utf8_ne [simp]: "utf8 c \<noteq> []"
  by (simp add: utf8_def Let_def)

lemma as_bytes_inj: "as_bytes s = as_bytes t \<Longrightarrow> s = t"
proof (induction s arbitrary: t)
  case Nil
  then show ?case by (cases t) auto
next
  case (Cons c s)
  then show ?case by (cases t) (auto dest: utf8_prefix_free)
qed

end
