(* ===== verification/Config.thy ===== *)
theory Config
  imports Rust_Str
begin

text \<open>
  The configuration, src/src/config.rs: the data model, the defaults of its fields, the list of
  allowed ports, and the validation that runs after the TOML text has been parsed. The parser
  (crate toml) is a parameter. A hash map is an association list in the order its iterator
  visits the entries; equality of hash maps does not depend on that order.
\<close>

section \<open>Data\<close>

datatype transport_type = TransportTcp | TransportUdp

datatype service_type = ServiceTcp | ServiceUdp

datatype proxy_protocol = ProxyV1 | ProxyV2

record client_service_config =
  cs_type :: service_type
  cs_name :: string
  cs_local_addr :: string
  cs_prefer_ipv6 :: bool
  cs_user :: "string option"
  cs_token :: "string option"
  cs_nodelay :: "bool option"
  cs_retry_interval :: "u64 option"
  cs_remote_bind_addr :: "string option"
  cs_proxy_protocol :: "proxy_protocol option"

definition client_service_with_name :: "string \<Rightarrow> client_service_config" where
  "client_service_with_name name =
     \<lparr>cs_type = ServiceTcp, cs_name = name, cs_local_addr = '''', cs_prefer_ipv6 = False,
      cs_user = None, cs_token = None, cs_nodelay = None, cs_retry_interval = None,
      cs_remote_bind_addr = None, cs_proxy_protocol = None\<rparr>"

definition is_visitor_mode :: "client_service_config \<Rightarrow> bool" where
  "is_visitor_mode c = (cs_remote_bind_addr c \<noteq> None)"

record server_service_config =
  ss_type :: service_type
  ss_name :: string
  ss_bind_addr :: string
  ss_user :: "string option"
  ss_token :: "string option"
  ss_nodelay :: "bool option"

definition server_service_with_name :: "string \<Rightarrow> server_service_config" where
  "server_service_with_name name =
     \<lparr>ss_type = ServiceTcp, ss_name = name, ss_bind_addr = '''', ss_user = None,
      ss_token = None, ss_nodelay = None\<rparr>"

section \<open>Allowed ports\<close>

text \<open>One part of the comma-separated list: a range, or a single port.\<close>

definition part_allows :: "u16 \<Rightarrow> string \<Rightarrow> bool" where
  "part_allows port part0 =
     (let part = trim part0
      in case split_once CHR ''-'' part of
           Some (start, end) \<Rightarrow>
             (case (parse_u16 (trim start), parse_u16 (trim end)) of
                (Some s, Some e) \<Rightarrow> s \<le> port \<and> port \<le> e
              | _ \<Rightarrow> False)
         | None \<Rightarrow> (case parse_u16 part of Some p \<Rightarrow> p = port | None \<Rightarrow> False))"

definition is_port_allowed :: "string \<Rightarrow> u16 \<Rightarrow> bool" where
  "is_port_allowed allowed_ports port =
     (if allowed_ports = ''*'' then True
      else list_ex (part_allows port) (split_char CHR '','' allowed_ports))"

section \<open>Transport and instance configurations\<close>

record noise_config =
  nz_pattern :: string
  nz_local_private_key :: "string option"
  nz_remote_public_key :: "string option"
  nz_psk :: "string option"

definition default_noise_pattern :: string where
  "default_noise_pattern = ''Noise_IK_25519_ChaChaPoly_BLAKE2s''"

record user_config =
  uc_token :: "string option"
  uc_allowed_ports :: string

definition default_allowed_ports :: string where
  "default_allowed_ports = ''''"

record udp_transport_config =
  ut_psk :: string

definition udp_transport_config_default :: udp_transport_config where
  "udp_transport_config_default = \<lparr>ut_psk = ''rathole''\<rparr>"

text \<open>A parsed URL (crate url): what its accessors return.\<close>

record url =
  url_scheme :: string
  url_host :: "string option"
  url_port :: "u16 option"
  url_username :: string
  url_password :: "string option"

record tcp_config =
  tcp_nodelay :: bool
  tcp_keepalive_secs :: u64
  tcp_keepalive_interval :: u64
  tcp_proxy :: "url option"

definition tcp_config_default :: tcp_config where
  "tcp_config_default =
     \<lparr>tcp_nodelay = True, tcp_keepalive_secs = 20, tcp_keepalive_interval = 8, tcp_proxy = None\<rparr>"

record transport_config =
  tr_type :: transport_type
  tr_tcp :: tcp_config
  tr_noise :: "noise_config option"
  tr_udp :: "udp_transport_config option"

definition transport_config_default :: transport_config where
  "transport_config_default =
     \<lparr>tr_type = TransportUdp, tr_tcp = tcp_config_default, tr_noise = None,
      tr_udp = Some udp_transport_config_default\<rparr>"

record client_config =
  cc_remote_addr :: string
  cc_user :: "string option"
  cc_token :: "string option"
  cc_prefer_ipv6 :: "bool option"
  cc_services :: "(string, client_service_config) hash_map"
  cc_transport :: transport_config
  cc_heartbeat_timeout :: u64
  cc_retry_interval :: u64

record server_config =
  sc_bind_addr :: string
  sc_users :: "(string, user_config) hash_map"
  sc_services :: "(string, server_service_config) hash_map"
  sc_transport :: transport_config
  sc_heartbeat_interval :: u64

record config =
  cfg_server :: "server_config option"
  cfg_client :: "client_config option"

section \<open>Validation\<close>

datatype config_error =
    ReadFailed
  | ParseFailed
  | UserNotDefined string string
  | NoOwner string
  | TokenNotSet string
  | UnknownProxyScheme string
  | MissingUdpConfig
  | EmptyUdpPsk
  | NoInstance

definition validate_transport_config :: "transport_config \<Rightarrow> config_error + unit" where
  "validate_transport_config c =
     res_bind
       (case tcp_proxy (tr_tcp c) of
          None \<Rightarrow> Inr ()
        | Some u \<Rightarrow>
            if url_scheme u = ''socks5'' then Inr ()
            else if url_scheme u = ''http'' then Inr ()
            else Inl (UnknownProxyScheme (url_scheme u)))
       (\<lambda>_. case tr_type c of
          TransportTcp \<Rightarrow> Inr ()
        | TransportUdp \<Rightarrow>
            (case tr_udp c of
               None \<Rightarrow> Inl MissingUdpConfig
             | Some u \<Rightarrow> if ut_psk u = '''' then Inl EmptyUdpPsk else Inr ()))"

text \<open>The body of the loop over the services of a server.\<close>

definition validate_server_service ::
  "(string, user_config) hash_map \<Rightarrow> string \<Rightarrow> server_service_config \<Rightarrow>
   config_error + server_service_config" where
  "validate_server_service users name s0 =
     (let s1 = s0\<lparr>ss_name := name\<rparr>
      in res_bind
           (case ss_user s1 of
              Some user_name \<Rightarrow>
                if map_of users user_name = None then Inl (UserNotDefined user_name name) else Inr s1
            | None \<Rightarrow>
                if map_of users ''default'' \<noteq> None then Inr (s1\<lparr>ss_user := Some ''default''\<rparr>)
                else Inl (NoOwner name))
           (\<lambda>s2. let s3 = (if ss_token s2 = None
                           then (case map_of users (the (ss_user s2)) of
                                   Some user \<Rightarrow> s2\<lparr>ss_token := uc_token user\<rparr>
                                 | None \<Rightarrow> s2)
                           else s2)
                 in if ss_token s3 = None then Inl (TokenNotSet name) else Inr s3))"

text \<open>A loop over the entries of a map that rewrites the values and stops at the first error.\<close>

fun map_values :: "('k \<Rightarrow> 'v \<Rightarrow> 'e + 'w) \<Rightarrow> ('k \<times> 'v) list \<Rightarrow> 'e + ('k \<times> 'w) list" where
  "map_values f [] = Inr []"
| "map_values f ((k, v) # m) =
     res_bind (f k v) (\<lambda>w. res_bind (map_values f m) (\<lambda>m'. Inr ((k, w) # m')))"

definition validate_server_config :: "server_config \<Rightarrow> config_error + server_config" where
  "validate_server_config server =
     res_bind (map_values (validate_server_service (sc_users server)) (sc_services server))
       (\<lambda>services. res_bind (validate_transport_config (sc_transport server))
         (\<lambda>_. Inr (server\<lparr>sc_services := services\<rparr>)))"

definition validate_client_service ::
  "client_config \<Rightarrow> string \<Rightarrow> client_service_config \<Rightarrow> config_error + client_service_config" where
  "validate_client_service client name s0 =
     (let s1 = s0\<lparr>cs_name := name\<rparr>;
          s2 = (if cs_user s1 = None then s1\<lparr>cs_user := cc_user client\<rparr> else s1);
          s3 = (if cs_token s2 = None then s2\<lparr>cs_token := cc_token client\<rparr> else s2);
          s4 = (if cs_user s3 = None then s3\<lparr>cs_user := Some ''default''\<rparr> else s3)
      in if cs_token s4 = None then Inl (TokenNotSet name)
         else Inr (if cs_retry_interval s4 = None
                   then s4\<lparr>cs_retry_interval := Some (cc_retry_interval client)\<rparr> else s4))"

definition validate_client_config :: "client_config \<Rightarrow> config_error + client_config" where
  "validate_client_config client =
     res_bind (map_values (validate_client_service client) (cc_services client))
       (\<lambda>services. res_bind (validate_transport_config (cc_transport client))
         (\<lambda>_. Inr (client\<lparr>cc_services := services\<rparr>)))"

definition validate_opt :: "('a \<Rightarrow> 'e + 'a) \<Rightarrow> 'a option \<Rightarrow> 'e + 'a option" where
  "validate_opt f x = (case x of None \<Rightarrow> Inr None | Some a \<Rightarrow> res_bind (f a) (\<lambda>b. Inr (Some b)))"

definition from_str :: "(string \<Rightarrow> config option) \<Rightarrow> string \<Rightarrow> config_error + config" where
  "from_str toml s =
     (case toml s of
        None \<Rightarrow> Inl ParseFailed
      | Some c \<Rightarrow>
          res_bind (validate_opt validate_server_config (cfg_server c))
            (\<lambda>server. res_bind (validate_opt validate_client_config (cfg_client c))
              (\<lambda>client. if server = None \<and> client = None then Inl NoInstance
                        else Inr \<lparr>cfg_server = server, cfg_client = client\<rparr>)))"

definition from_file ::
  "(string \<Rightarrow> config option) \<Rightarrow> (string \<Rightarrow> string option) \<Rightarrow> string \<Rightarrow> config_error + config" where
  "from_file toml read path =
     (case read path of None \<Rightarrow> Inl ReadFailed | Some s \<Rightarrow> from_str toml s)"

section \<open>Rendering a list of ports\<close>

text \<open>
  The format of \<open>allowed_ports\<close> read as a printer: single ports and inclusive ranges,
  separated by commas, with white space around every item.
\<close>

datatype port_item = Single u16 | Range u16 u16

fun covers :: "port_item \<Rightarrow> u16 \<Rightarrow> bool" where
  "covers (Single p) port \<longleftrightarrow> port = p"
| "covers (Range a b) port \<longleftrightarrow> a \<le> port \<and> port \<le> b"

fun render_item :: "port_item \<Rightarrow> string" where
  "render_item (Single p) = show_nat (unat p)"
| "render_item (Range a b) = show_nat (unat a) @ CHR ''-'' # show_nat (unat b)"

fun join_comma :: "string list \<Rightarrow> string" where
  "join_comma [] = ''''"
| "join_comma [w] = w"
| "join_comma (w # ws) = w @ CHR '','' # join_comma ws"

definition render_ports :: "(string \<times> port_item \<times> string) list \<Rightarrow> string" where
  "render_ports items = join_comma (map (\<lambda>(a, it, b). a @ render_item it @ b) items)"

lemma render_item_chars:
  "c \<in> set (render_item it) \<Longrightarrow> \<not> is_whitespace c \<and> c \<noteq> CHR '','' \<and> c \<noteq> CHR ''*''"
  by (cases it) (auto dest: show_nat_chars simp: is_whitespace_def)

lemma render_item_ne [simp]: "render_item it \<noteq> []"
  by (cases it) simp_all

lemma whitespace_chars: "is_whitespace c \<Longrightarrow> c \<noteq> CHR '','' \<and> c \<noteq> CHR ''*''"
  by (auto simp: is_whitespace_def)

lemma trim_render_item:
  "\<forall>c \<in> set a \<union> set b. is_whitespace c \<Longrightarrow> trim (a @ render_item it @ b) = render_item it"
  using render_item_chars [of "hd (render_item it)" it] render_item_chars [of "last (render_item it)" it]
  by (intro trim_pad) auto

lemma part_allows_render:
  assumes "\<forall>c \<in> set a \<union> set b. is_whitespace c"
  shows "part_allows port (a @ render_item it @ b) \<longleftrightarrow> covers it port"
proof (cases it)
  case (Single p)
  have "split_once CHR ''-'' (show_nat (unat p)) = None"
    using show_nat_chars(3) by (auto simp: split_once_plain)
  with Single show ?thesis unfolding part_allows_def trim_render_item [OF assms] by auto
next
  case (Range s e)
  have "split_once CHR ''-'' (show_nat (unat s) @ CHR ''-'' # show_nat (unat e)) =
      Some (show_nat (unat s), show_nat (unat e))"
    using show_nat_chars(3) by (intro split_once_sep) auto
  with Range show ?thesis unfolding part_allows_def trim_render_item [OF assms] by simp
qed

lemma split_join_comma:
  "\<forall>w \<in> set ws. CHR '','' \<notin> set w \<Longrightarrow>
   split_char CHR '','' (join_comma ws) = (if ws = [] then [''''] else ws)"
  by (induction ws rule: join_comma.induct) (simp_all add: split_char_plain split_char_sep)

lemma set_join_comma: "c \<in> set (join_comma ws) \<Longrightarrow> c = CHR '','' \<or> (\<exists>w \<in> set ws. c \<in> set w)"
  by (induction ws rule: join_comma.induct) auto

section \<open>Properties\<close>

text \<open>
  C26: the list of allowed ports means what its format says. For a list of single ports and
  inclusive ranges, printed with commas and arbitrary white space, exactly the ports covered by
  an item are allowed; the empty list allows none.
\<close>

theorem allowed_ports_exact:
  assumes "\<forall>(a, it, b) \<in> set items. \<forall>c \<in> set a \<union> set b. is_whitespace c"
  shows "is_port_allowed (render_ports items) port \<longleftrightarrow> (\<exists>(a, it, b) \<in> set items. covers it port)"
proof -
  let ?ws = "map (\<lambda>(a, it, b). a @ render_item it @ b) items"
  have chars: "c \<noteq> CHR '','' \<and> c \<noteq> CHR ''*''" if "w \<in> set ?ws" "c \<in> set w" for w c
    using that assms render_item_chars whitespace_chars by fastforce
  then have "\<forall>w \<in> set ?ws. CHR '','' \<notin> set w" by blast
  then have split: "split_char CHR '','' (render_ports items) = (if items = [] then [''''] else ?ws)"
    using split_join_comma [of ?ws] by (simp add: render_ports_def)
  have "CHR ''*'' \<notin> set (render_ports items)"
    using set_join_comma [of "CHR ''*''" ?ws] chars unfolding render_ports_def by blast
  then have "render_ports items \<noteq> ''*''" by auto
  moreover have "\<not> part_allows port ''''"
    by (simp add: part_allows_def trim_def parse_u16_def parse_uint_def)
  moreover have "part_allows port (case e of (a, it, b) \<Rightarrow> a @ render_item it @ b) \<longleftrightarrow>
      (case e of (a, it, b) \<Rightarrow> covers it port)" if "e \<in> set items" for e
    using bspec [OF assms that] by (cases e) (simp add: part_allows_render)
  then have "list_ex (part_allows port) ?ws \<longleftrightarrow> (\<exists>(a, it, b) \<in> set items. covers it port)"
    by (simp add: list_ex_iff cong: bex_cong)
  ultimately show ?thesis unfolding is_port_allowed_def split by (auto simp: case_prod_unfold)
qed

theorem allowed_ports_exact_witness:
  "is_port_allowed '' 80, 8000-9000'' 8080 \<and> \<not> is_port_allowed '' 80, 8000-9000'' 22"
proof -
  let ?items = "[('' '', Single 80, ''''), ('' '', Range 8000 9000, '''')]"
  have r: "render_ports ?items = '' 80, 8000-9000''"
    by (simp add: render_ports_def show_nat.simps digit_char_literals)
  have ws: "\<forall>(a, it, b) \<in> set ?items. \<forall>c \<in> set a \<union> set b. is_whitespace c"
    by (simp add: is_whitespace_def)
  show ?thesis
    using allowed_ports_exact [OF ws, of 8080] allowed_ports_exact [OF ws, of 22]
    unfolding r by simp
qed

text \<open>What a validated transport configuration guarantees.\<close>

definition transport_ok :: "transport_config \<Rightarrow> bool" where
  "transport_ok c \<longleftrightarrow>
     (\<forall>u. tcp_proxy (tr_tcp c) = Some u \<longrightarrow> url_scheme u \<in> {''socks5'', ''http''}) \<and>
     (tr_type c = TransportUdp \<longrightarrow> (\<exists>u. tr_udp c = Some u \<and> ut_psk u \<noteq> ''''))"

lemma validate_transport_iff: "validate_transport_config c = Inr () \<longleftrightarrow> transport_ok c"
  by (auto simp: validate_transport_config_def transport_ok_def res_bind_def
      split: option.splits transport_type.splits if_splits sum.splits)

lemma map_values_Inr:
  "map_values f m = Inr m' \<longleftrightarrow> list_all2 (\<lambda>(k, v) (k', w). k' = k \<and> f k v = Inr w) m m'"
proof (induction m arbitrary: m')
  case (Cons e m)
  obtain k v where e: "e = (k, v)" by (cases e)
  show ?case
    by (cases m') (auto simp: e res_bind_def simp flip: Cons.IH split: sum.splits)
qed auto

lemma map_values_keys: "map_values f m = Inr m' \<Longrightarrow> map fst m' = map fst m"
  unfolding map_values_Inr by (induction m m' rule: list_all2_induct) auto

lemma map_values_lookup:
  "map_values f m = Inr m' \<Longrightarrow> map_of m k = Some v \<Longrightarrow> \<exists>w. f k v = Inr w \<and> map_of m' k = Some w"
  unfolding map_values_Inr by (induction m m' rule: list_all2_induct) auto

lemma map_values_idem:
  assumes "map_values f m = Inr m'" and "\<And>k v w. f k v = Inr w \<Longrightarrow> f k w = Inr w"
  shows "map_values f m' = Inr m'"
  using assms(1) unfolding map_values_Inr
  by (induction m m' rule: list_all2_induct) (auto intro: assms(2))

lemma validate_server_service_Inr:
  assumes "validate_server_service users name s = Inr s'"
  shows "\<exists>u uc t. s' = s\<lparr>ss_name := name, ss_user := Some u, ss_token := Some t\<rparr> \<and>
    map_of users u = Some uc \<and>
    u = (case ss_user s of Some x \<Rightarrow> x | None \<Rightarrow> ''default'') \<and>
    (case ss_token s of Some x \<Rightarrow> Some x | None \<Rightarrow> uc_token uc) = Some t"
  using assms
  by (cases "ss_user s"; cases "ss_token s")
    (auto simp: validate_server_service_def res_bind_def Let_def split: if_splits option.splits)

lemma validate_client_service_Inr:
  assumes "validate_client_service client name s = Inr s'"
  shows "\<exists>u t r. s' = s\<lparr>cs_name := name, cs_user := Some u, cs_token := Some t,
      cs_retry_interval := Some r\<rparr> \<and>
    u = (case cs_user s of Some x \<Rightarrow> x | None \<Rightarrow> (case cc_user client of Some x \<Rightarrow> x | None \<Rightarrow> ''default'')) \<and>
    (case cs_token s of Some x \<Rightarrow> Some x | None \<Rightarrow> cc_token client) = Some t \<and>
    r = (case cs_retry_interval s of Some x \<Rightarrow> x | None \<Rightarrow> cc_retry_interval client)"
  using assms
  by (cases "cs_user s"; cases "cc_user client"; cases "cs_token s"; cases "cs_retry_interval s")
    (auto simp: validate_client_service_def Let_def split: if_splits)

lemma map_values_ok_iff:
  "(\<exists>m'. map_values f m = Inr m') \<longleftrightarrow> (\<forall>(k, v) \<in> set m. \<exists>w. f k v = Inr w)"
proof (induction m)
  case (Cons e m)
  obtain k v where e: "e = (k, v)" by (cases e)
  have "(\<exists>m'. map_values f (e # m) = Inr m') \<longleftrightarrow> (\<exists>w. f k v = Inr w) \<and> (\<exists>m'. map_values f m = Inr m')"
    by (cases "f k v"; cases "map_values f m") (simp_all add: e res_bind_def)
  then show ?case unfolding Cons.IH by (simp add: e)
qed simp

lemma validate_server_config_Inr:
  "validate_server_config server = Inr sv \<longleftrightarrow>
   (\<exists>services. map_values (validate_server_service (sc_users server)) (sc_services server) = Inr services \<and>
      transport_ok (sc_transport server) \<and> sv = server\<lparr>sc_services := services\<rparr>)"
  by (auto simp: validate_server_config_def res_bind_def simp flip: validate_transport_iff
      split: sum.splits)

lemma validate_client_config_Inr:
  "validate_client_config client = Inr cl \<longleftrightarrow>
   (\<exists>services. map_values (validate_client_service client) (cc_services client) = Inr services \<and>
      transport_ok (cc_transport client) \<and> cl = client\<lparr>cc_services := services\<rparr>)"
  by (auto simp: validate_client_config_def res_bind_def simp flip: validate_transport_iff
      split: sum.splits)

lemma validate_opt_Inr:
  "validate_opt f x = Inr y \<longleftrightarrow>
   (case x of None \<Rightarrow> y = None | Some a \<Rightarrow> \<exists>b. f a = Inr b \<and> y = Some b)"
  by (auto simp: validate_opt_def res_bind_def split: option.splits sum.splits)

lemma from_str_Inr:
  "from_str toml s = Inr c \<longleftrightarrow>
   (\<exists>c0. toml s = Some c0 \<and> validate_opt validate_server_config (cfg_server c0) = Inr (cfg_server c) \<and>
      validate_opt validate_client_config (cfg_client c0) = Inr (cfg_client c) \<and>
      (cfg_server c \<noteq> None \<or> cfg_client c \<noteq> None))"
  by (cases c) (auto simp: from_str_def res_bind_def split: option.splits sum.splits if_splits)

lemma map_of_map_values_rev:
  assumes "map_values f m = Inr m'" and "map_of m' k = Some w"
  shows "\<exists>v. map_of m k = Some v \<and> f k v = Inr w"
  using assms unfolding map_values_Inr by (induction m m' rule: list_all2_induct) auto

lemma server_service_valid:
  assumes "validate_server_config server = Inr sv" and "map_of (sc_services sv) name = Some svc"
  shows "\<exists>u uc t. ss_name svc = name \<and> ss_user svc = Some u \<and>
    map_of (sc_users sv) u = Some uc \<and> ss_token svc = Some t"
proof -
  obtain v where "validate_server_service (sc_users server) name v = Inr svc"
    and sv: "sc_users sv = sc_users server"
    using assms by (auto simp: validate_server_config_Inr dest: map_of_map_values_rev)
  from validate_server_service_Inr [OF this(1)] sv show ?thesis by auto
qed

lemma client_service_valid:
  assumes "validate_client_config client = Inr cl" and "map_of (cc_services cl) name = Some svc"
  shows "\<exists>u t r. cs_name svc = name \<and> cs_user svc = Some u \<and> cs_token svc = Some t \<and>
    cs_retry_interval svc = Some r"
proof -
  obtain v where "validate_client_service client name v = Inr svc"
    using assms by (auto simp: validate_client_config_Inr dest: map_of_map_values_rev)
  from validate_client_service_Inr [OF this] show ?thesis by auto
qed


definition demo_server :: server_config where
  "demo_server =
     \<lparr>sc_bind_addr = ''0.0.0.0:2333'',
      sc_users = [(''default'', \<lparr>uc_token = Some ''t'', uc_allowed_ports = ''8000-9000''\<rparr>)],
      sc_services = [(''web'', (server_service_with_name '''')\<lparr>ss_bind_addr := ''0.0.0.0:80''\<rparr>)],
      sc_transport = transport_config_default, sc_heartbeat_interval = 30\<rparr>"


text \<open>
  C27: what makes a server configuration acceptable. Validation succeeds exactly when every
  service has an owner (its own, or the user \<open>default\<close>) that is defined, with a token of its own
  or of that user, and the transport configuration is sound.
\<close>

theorem server_config_accepted_iff:
  "(\<exists>sv. validate_server_config server = Inr sv) \<longleftrightarrow>
   (\<forall>(name, s) \<in> set (sc_services server).
      \<exists>uc. map_of (sc_users server) (case ss_user s of Some u \<Rightarrow> u | None \<Rightarrow> ''default'') = Some uc \<and>
        (ss_token s \<noteq> None \<or> uc_token uc \<noteq> None)) \<and>
   transport_ok (sc_transport server)"
proof -
  have "(\<exists>w. validate_server_service (sc_users server) name s = Inr w) \<longleftrightarrow>
     (\<exists>uc. map_of (sc_users server) (case ss_user s of Some u \<Rightarrow> u | None \<Rightarrow> ''default'') = Some uc \<and>
        (ss_token s \<noteq> None \<or> uc_token uc \<noteq> None))" for name s
    by (cases "ss_user s"; cases "ss_token s")
      (auto simp: validate_server_service_def res_bind_def Let_def split: option.splits)
  then show ?thesis
    using map_values_ok_iff [of "validate_server_service (sc_users server)" "sc_services server"]
    by (auto simp: validate_server_config_Inr case_prod_unfold)
qed

theorem server_config_accepted_iff_witness:
  "(\<exists>sv. validate_server_config demo_server = Inr sv) \<and>
   \<not> (\<exists>sv. validate_server_config (demo_server\<lparr>sc_users := []\<rparr>) = Inr sv)"
  unfolding server_config_accepted_iff
  by (simp add: demo_server_def server_service_with_name_def transport_ok_def transport_config_default_def
      tcp_config_default_def udp_transport_config_default_def)

text \<open>
  Loading is idempotent. Validating a configuration that has been loaded changes nothing, so
  two loads of the same text compare as equal in the watcher.
\<close>

theorem validation_idempotent:
  assumes "from_str toml text = Inr c"
  shows "validate_opt validate_server_config (cfg_server c) = Inr (cfg_server c) \<and>
    validate_opt validate_client_config (cfg_client c) = Inr (cfg_client c)"
proof -
  have sv: "validate_server_service users k w = Inr w"
    if "validate_server_service users k v = Inr w" for users k v w
    using validate_server_service_Inr [OF that]
    by (auto simp: validate_server_service_def res_bind_def Let_def)
  have cl: "validate_client_service client k w = Inr w"
    if "validate_client_service client k v = Inr w" for client k v w
    using validate_client_service_Inr [OF that]
    by (auto simp: validate_client_service_def Let_def)
  have cl': "validate_client_service (client\<lparr>cc_services := x\<rparr>) = validate_client_service client" for client x
  proof (intro ext)
    fix name s
    have "cc_user (client\<lparr>cc_services := x\<rparr>) = cc_user client"
      "cc_token (client\<lparr>cc_services := x\<rparr>) = cc_token client"
      "cc_retry_interval (client\<lparr>cc_services := x\<rparr>) = cc_retry_interval client"
      by simp_all
    then show "validate_client_service (client\<lparr>cc_services := x\<rparr>) name s = validate_client_service client name s"
      unfolding validate_client_service_def by metis
  qed
  have "validate_server_config b = Inr b" if ab: "validate_server_config a = Inr b" for a b
  proof -
    obtain services where m: "map_values (validate_server_service (sc_users a)) (sc_services a) = Inr services"
      and b: "transport_ok (sc_transport a)" "b = a\<lparr>sc_services := services\<rparr>"
      using ab by (auto simp: validate_server_config_Inr)
    from map_values_idem [OF m sv] b show ?thesis by (simp add: validate_server_config_Inr)
  qed
  moreover have "validate_client_config b = Inr b" if ab: "validate_client_config a = Inr b" for a b
  proof -
    obtain services where m: "map_values (validate_client_service a) (cc_services a) = Inr services"
      and b: "transport_ok (cc_transport a)" "b = a\<lparr>cc_services := services\<rparr>"
      using ab by (auto simp: validate_client_config_Inr)
    from map_values_idem [OF m cl] b show ?thesis by (simp add: validate_client_config_Inr cl')
  qed
  ultimately show ?thesis
    using assms by (auto simp: from_str_Inr validate_opt_Inr split: option.splits)
qed

theorem validation_idempotent_witness:
  "\<exists>c. from_str (\<lambda>_. Some \<lparr>cfg_server = Some demo_server, cfg_client = None\<rparr>) '''' = Inr c \<and>
     validate_opt validate_server_config (cfg_server c) = Inr (cfg_server c)"
proof -
  have "\<exists>sv. validate_server_config demo_server = Inr sv"
    by (simp add: validate_server_config_def demo_server_def res_bind_def
        validate_server_service_def server_service_with_name_def validate_transport_config_def
        transport_config_default_def tcp_config_default_def udp_transport_config_default_def)
  then obtain c where "from_str (\<lambda>_. Some \<lparr>cfg_server = Some demo_server, cfg_client = None\<rparr>) '''' = Inr c"
    by (auto simp: from_str_def validate_opt_def res_bind_def)
  with validation_idempotent [OF this] show ?thesis by blast
qed

end
