(* ===== verification/Net_Addr.thy ===== *)
theory Net_Addr
  imports Rust_Str
begin

text \<open>
  Printing and parsing of socket addresses as the standard library does it (\<open>Display\<close> and
  \<open>FromStr\<close> of \<open>IpAddr\<close> and \<open>SocketAddr\<close>): the server parses the address a visitor asks for,
  the client prints addresses into PROXY protocol headers.
\<close>

section \<open>Printing\<close>

definition octets4 :: "u32 \<Rightarrow> bytes" where
  "octets4 ip = u32_to_be_bytes ip"

definition octets16 :: "128 word \<Rightarrow> bytes" where
  "octets16 ip = to_be 16 (unat ip)"

definition ipv4_from :: "bytes \<Rightarrow> u32" where
  "ipv4_from bs = u32_from_be_bytes bs"

definition ipv6_from :: "bytes \<Rightarrow> 128 word" where
  "ipv6_from bs = of_nat (from_be bs)"

definition show_ipv4 :: "u32 \<Rightarrow> string" where
  "show_ipv4 ip =
     (case octets4 ip of
        [a, b, c, d] \<Rightarrow>
          show_nat (unat a) @ ''.'' @ show_nat (unat b) @ ''.'' @ show_nat (unat c) @ ''.'' @
          show_nat (unat d)
      | _ \<Rightarrow> [])"

definition hex_char :: "nat \<Rightarrow> char" where
  "hex_char d = (if d < 10 then char_of (48 + d) else char_of (87 + d))"

fun show_hex :: "nat \<Rightarrow> string" where
  "show_hex n = (if n < 16 then [hex_char n] else show_hex (n div 16) @ [hex_char (n mod 16)])"

declare show_hex.simps [simp del]

text \<open>The eight 16-bit groups of an IPv6 address.\<close>

definition segments :: "128 word \<Rightarrow> nat list" where
  "segments ip = map (\<lambda>i. unat ip div 65536 ^ (7 - i) mod 65536) [0..<8]"

text \<open>The first longest run of zero groups: start and length.\<close>

fun longest_zeros :: "nat list \<Rightarrow> nat \<Rightarrow> nat \<times> nat \<Rightarrow> nat \<times> nat \<Rightarrow> nat \<times> nat" where
  "longest_zeros [] i cur best = best"
| "longest_zeros (g # gs) i (start, len) (bstart, blen) =
     (if g = 0 then
        (let start' = (if len = 0 then i else start); len' = len + 1
         in longest_zeros gs (i + 1) (start', len')
              (if blen < len' then (start', len') else (bstart, blen)))
      else longest_zeros gs (i + 1) (0, 0) (bstart, blen))"

fun join_colon :: "string list \<Rightarrow> string" where
  "join_colon [] = ''''"
| "join_colon [w] = w"
| "join_colon (w # ws) = w @ '':'' @ join_colon ws"

definition show_ipv6 :: "128 word \<Rightarrow> string" where
  "show_ipv6 ip =
     (let gs = segments ip
      in if take 6 gs = [0, 0, 0, 0, 0, 65535]
         then ''::ffff:'' @ show_ipv4 (of_nat (unat ip mod 2 ^ 32))
         else
           (let (start, len) = longest_zeros gs 0 (0, 0) (0, 0)
            in if 1 < len
               then join_colon (map show_hex (take start gs)) @ ''::'' @
                    join_colon (map show_hex (drop (start + len) gs))
               else join_colon (map show_hex gs)))"

fun show_ip :: "sock_addr \<Rightarrow> string" where
  "show_ip (V4 ip port) = show_ipv4 ip"
| "show_ip (V6 ip port flow scope) = show_ipv6 ip"

fun show_sock_addr :: "sock_addr \<Rightarrow> string" where
  "show_sock_addr (V4 ip port) = show_ipv4 ip @ '':'' @ show_nat (unat port)"
| "show_sock_addr (V6 ip port flow scope) =
     ''['' @ show_ipv6 ip @ (if scope = 0 then '''' else ''%'' @ show_nat (unat scope)) @ '']:'' @
     show_nat (unat port)"

section \<open>Parsing\<close>

text \<open>
  The parser of the standard library works on the rest of the input and gives it back
  unchanged when a step fails; here every step returns the value and the rest.
\<close>

type_synonym 'a addr_parser = "string \<Rightarrow> ('a \<times> string) option"

definition read_given_char :: "char \<Rightarrow> unit addr_parser" where
  "read_given_char c s = (case s of [] \<Rightarrow> None | x # xs \<Rightarrow> if x = c then Some ((), xs) else None)"

definition digit_in_radix :: "nat \<Rightarrow> char \<Rightarrow> nat option" where
  "digit_in_radix radix c =
     (let n = of_char c :: nat;
          d = (if 48 \<le> n \<and> n \<le> 57 then n - 48
               else if 97 \<le> n \<and> n \<le> 122 then n - 87
               else if 65 \<le> n \<and> n \<le> 90 then n - 55
               else 36)
      in if d < radix then Some d else None)"

fun read_digits :: "nat \<Rightarrow> string \<Rightarrow> nat list \<times> string" where
  "read_digits radix [] = ([], [])"
| "read_digits radix (c # cs) =
     (case digit_in_radix radix c of
        None \<Rightarrow> ([], c # cs)
      | Some d \<Rightarrow> (let (ds, r) = read_digits radix cs in (d # ds, r)))"

definition digits_value :: "nat \<Rightarrow> nat list \<Rightarrow> nat" where
  "digits_value radix ds = foldl (\<lambda>acc d. acc * radix + d) 0 ds"

text \<open>\<open>read_number\<close>: at most \<open>max_digits\<close> digits when given, a value within \<open>limit\<close>.\<close>

definition read_number :: "nat \<Rightarrow> nat option \<Rightarrow> bool \<Rightarrow> nat \<Rightarrow> nat addr_parser" where
  "read_number radix max_digits allow_zero_prefix limit s =
     (let (ds, r) = read_digits radix s
      in if (case max_digits of None \<Rightarrow> False | Some m \<Rightarrow> m < length ds) then None
         else if ds = [] then None
         else if \<not> allow_zero_prefix \<and> hd ds = 0 \<and> 1 < length ds then None
         else if limit < digits_value radix ds then None
         else Some (digits_value radix ds, r))"

definition read_separator :: "char \<Rightarrow> nat \<Rightarrow> 'a addr_parser \<Rightarrow> 'a addr_parser" where
  "read_separator sep index p s =
     (if 0 < index then Option.bind (read_given_char sep s) (\<lambda>(_, r). p r) else p s)"

definition read_octet :: "nat \<Rightarrow> nat addr_parser" where
  "read_octet i = read_separator CHR ''.'' i (read_number 10 (Some 3) False 255)"

definition read_ipv4_addr :: "u32 addr_parser" where
  "read_ipv4_addr s =
     Option.bind (read_octet 0 s) (\<lambda>(a, r1).
     Option.bind (read_octet 1 r1) (\<lambda>(b, r2).
     Option.bind (read_octet 2 r2) (\<lambda>(c, r3).
     Option.bind (read_octet 3 r3) (\<lambda>(d, r4).
       Some (ipv4_from [of_nat a, of_nat b, of_nat c, of_nat d], r4)))))"

text \<open>\<open>read_groups\<close> with room for \<open>limit\<close> groups, of which \<open>i\<close> are read.\<close>

function read_groups :: "nat \<Rightarrow> nat \<Rightarrow> string \<Rightarrow> nat list \<times> bool \<times> string" where
  "read_groups limit i s =
     (if limit \<le> i then ([], False, s)
      else
        case (if i < limit - 1 then read_separator CHR '':'' i read_ipv4_addr s else None) of
          Some (ip, r) \<Rightarrow> ([unat ip div 65536, unat ip mod 65536], True, r)
        | None \<Rightarrow>
            (case read_separator CHR '':'' i (read_number 16 (Some 4) True 65535) s of
               None \<Rightarrow> ([], False, s)
             | Some (g, r) \<Rightarrow>
                 (let (gs, v4, r') = read_groups limit (i + 1) r in (g # gs, v4, r'))))"
  by pat_completeness auto
termination
  by (relation "measure (\<lambda>(limit, i, s). limit - i)") auto

declare read_groups.simps [simp del]

definition ipv6_of_groups :: "nat list \<Rightarrow> 128 word" where
  "ipv6_of_groups gs = of_nat (foldl (\<lambda>acc g. acc * 65536 + g) 0 gs)"

definition read_ipv6_addr :: "128 word addr_parser" where
  "read_ipv6_addr s =
     (let (head, head_v4, r) = read_groups 8 0 s
      in if length head = 8 then Some (ipv6_of_groups head, r)
         else if head_v4 then None
         else
           Option.bind (read_given_char CHR '':'' r) (\<lambda>(_, r1).
           Option.bind (read_given_char CHR '':'' r1) (\<lambda>(_, r2).
             let (tail, _, r3) = read_groups (8 - (length head + 1)) 0 r2
             in Some (ipv6_of_groups
                  (head @ replicate (8 - length head - length tail) 0 @ tail), r3))))"

definition read_port :: "u16 addr_parser" where
  "read_port s =
     Option.bind (read_given_char CHR '':'' s) (\<lambda>(_, r).
       map_option (\<lambda>(n, r'). (of_nat n, r')) (read_number 10 None True 65535 r))"

definition read_scope_id :: "u32 addr_parser" where
  "read_scope_id s =
     Option.bind (read_given_char CHR ''%'' s) (\<lambda>(_, r).
       map_option (\<lambda>(n, r'). (of_nat n, r')) (read_number 10 None True 4294967295 r))"

definition read_socket_addr_v4 :: "sock_addr addr_parser" where
  "read_socket_addr_v4 s =
     Option.bind (read_ipv4_addr s) (\<lambda>(ip, r).
     Option.bind (read_port r) (\<lambda>(port, r'). Some (V4 ip port, r')))"

definition read_socket_addr_v6 :: "sock_addr addr_parser" where
  "read_socket_addr_v6 s =
     Option.bind (read_given_char CHR ''['' s) (\<lambda>(_, r1).
     Option.bind (read_ipv6_addr r1) (\<lambda>(ip, r2).
       let (scope, r3) = (case read_scope_id r2 of Some x \<Rightarrow> x | None \<Rightarrow> (0, r2))
       in Option.bind (read_given_char CHR '']'' r3) (\<lambda>(_, r4).
          Option.bind (read_port r4) (\<lambda>(port, r5). Some (V6 ip port 0 scope, r5)))))"

definition parse_sock_addr :: "string \<Rightarrow> sock_addr option" where
  "parse_sock_addr s =
     (case (case read_socket_addr_v4 s of Some x \<Rightarrow> Some x | None \<Rightarrow> read_socket_addr_v6 s) of
        Some (a, []) \<Rightarrow> Some a
      | _ \<Rightarrow> None)"

section \<open>Round trip of IPv4 addresses\<close>

lemma digit_in_radix_char: "d < 10 \<Longrightarrow> digit_in_radix 10 (digit_char d) = Some d"
  by (simp add: digit_in_radix_def digit_char_def)

lemma read_digits_prefix:
  "\<forall>d \<in> set ds. digit_in_radix radix (f d) = Some d \<Longrightarrow>
   r = [] \<or> digit_in_radix radix (hd r) = None \<Longrightarrow> read_digits radix (map f ds @ r) = (ds, r)"
proof (induction ds)
  case Nil
  then show ?case by (cases r) simp_all
qed simp

lemma digits_value_snoc [simp]: "digits_value radix (ds @ [d]) = digits_value radix ds * radix + d"
  by (simp add: digits_value_def)

lemma show_nat_digits:
  "\<exists>ds. show_nat n = map digit_char ds \<and> (\<forall>d \<in> set ds. d < 10) \<and> digits_value 10 ds = n \<and>
     ds \<noteq> [] \<and> (hd ds = 0 \<longrightarrow> ds = [0])"
proof (induction n rule: show_nat.induct)
  case (1 n)
  show ?case
  proof (cases "n < 10")
    case True
    then show ?thesis by (intro exI [of _ "[n]"]) (simp add: show_nat_rec digits_value_def)
  next
    case False
    from 1 [OF this] obtain ds where ds: "show_nat (n div 10) = map digit_char ds"
      "\<forall>d \<in> set ds. d < 10" "digits_value 10 ds = n div 10" "ds \<noteq> []" "hd ds = 0 \<longrightarrow> ds = [0]"
      by (elim exE conjE)
    have "ds \<noteq> [0]" using ds(3) False by (auto simp: digits_value_def)
    with ds False show ?thesis
      by (intro exI [of _ "ds @ [n mod 10]"]) (auto simp: show_nat_rec)
  qed
qed

lemma read_number_show_nat:
  assumes "n \<le> limit" and "case m of None \<Rightarrow> True | Some k \<Rightarrow> length (show_nat n) \<le> k"
    and "r = [] \<or> digit_in_radix 10 (hd r) = None"
  shows "read_number 10 m z limit (show_nat n @ r) = Some (n, r)"
proof -
  obtain ds where ds: "show_nat n = map digit_char ds" "\<forall>d \<in> set ds. d < 10"
    "digits_value 10 ds = n" "ds \<noteq> []" "hd ds = 0 \<longrightarrow> ds = [0]"
    using show_nat_digits [of n] by (elim exE conjE)
  then have "read_digits 10 (show_nat n @ r) = (ds, r)"
    using assms(3) by (simp add: read_digits_prefix digit_in_radix_char)
  with ds assms(1,2) show ?thesis by (auto simp: read_number_def split: option.splits)
qed

lemma length_show_nat_byte: "length (show_nat (unat (b :: u8))) \<le> 3"
proof -
  have "length (show_nat n) \<le> 3" if "n < 1000" for n
  proof -
    have "n div 10 div 10 < 10" using that by simp
    then show ?thesis by (cases "n < 10"; cases "n div 10 < 10") (simp_all add: show_nat_rec)
  qed
  then show ?thesis using unat_u8_less [of b] by simp
qed

lemma read_octet_show:
  assumes "r = [] \<or> digit_in_radix 10 (hd r) = None"
  shows "read_octet 0 (show_nat (unat (b :: u8)) @ r) = Some (unat b, r)"
    "0 < i \<Longrightarrow> read_octet i (CHR ''.'' # show_nat (unat b) @ r) = Some (unat b, r)"
proof -
  have "unat b \<le> 255" using unat_u8_less [of b] by simp
  then have "read_number 10 (Some 3) False 255 (show_nat (unat b) @ r) = Some (unat b, r)"
    using assms length_show_nat_byte by (intro read_number_show_nat) auto
  then show "read_octet 0 (show_nat (unat (b :: u8)) @ r) = Some (unat b, r)"
    "0 < i \<Longrightarrow> read_octet i (CHR ''.'' # show_nat (unat b) @ r) = Some (unat b, r)"
    by (simp_all add: read_octet_def read_separator_def read_given_char_def)
qed

lemma not_digits [simp]:
  "digit_in_radix 10 CHR ''.'' = None" "digit_in_radix 10 CHR '':'' = None"
  "digit_in_radix 10 CHR '']'' = None" "digit_in_radix 10 CHR ''%'' = None"
  by (simp_all add: digit_in_radix_def)

lemma octets4_cases: "\<exists>a b c d. octets4 ip = [a, b, c, d] \<and> ipv4_from [a, b, c, d] = ip"
proof -
  have "length (octets4 ip) = 4" by (simp add: octets4_def)
  then obtain a b c d where o4: "octets4 ip = [a, b, c, d]"
    by (auto simp: numeral_eq_Suc length_Suc_conv)
  moreover have "ipv4_from (octets4 ip) = ip" by (simp add: ipv4_from_def octets4_def)
  ultimately show ?thesis by auto
qed

lemma read_ipv4_show:
  assumes "r = [] \<or> digit_in_radix 10 (hd r) = None"
  shows "read_ipv4_addr (show_ipv4 ip @ r) = Some (ip, r)"
proof -
  obtain a b c d where o4: "octets4 ip = [a, b, c, d]" "ipv4_from [a, b, c, d] = ip"
    using octets4_cases by blast
  show ?thesis
    using assms by (simp add: read_ipv4_addr_def show_ipv4_def o4 read_octet_show)
qed

lemma read_port_show: "read_port (CHR '':'' # show_nat (unat port)) = Some (port, [])"
proof -
  have "unat port \<le> 65535" using unsigned_less [where 'a = nat, of port] by simp
  then have "read_number 10 None True 65535 (show_nat (unat port) @ []) = Some (unat port, [])"
    by (intro read_number_show_nat) auto
  then show ?thesis by (simp add: read_port_def read_given_char_def)
qed

lemma parse_show_ipv4: "parse_sock_addr (show_sock_addr (V4 ip port)) = Some (V4 ip port)"
  using read_ipv4_show [of "CHR '':'' # show_nat (unat port)" ip]
  by (simp add: parse_sock_addr_def read_socket_addr_v4_def read_port_show)

end
