(* ===== verification/Transport_Layer.thy ===== *)
theory Transport_Layer
  imports Config Net_Addr
begin

text \<open>
  What the transports share: socket options (src/src/transport/mod.rs), the TCP transport
  (src/src/transport/tcp.rs), cached addresses, the helpers that choose addresses and
  proxies, and retrying until a deadline (src/src/helper.rs, src/src/constants.rs). Name resolution is a parameter \<open>lookup\<close>; so is whether a system
  call that sets an option succeeds, since the code logs and ignores its failure.
\<close>

section \<open>Socket options\<close>

record keepalive =
  ka_secs :: u64
  ka_interval :: u64

record socket_opts =
  so_nodelay :: "bool option"
  so_keepalive :: "keepalive option"

definition socket_opts_none :: socket_opts where
  "socket_opts_none = \<lparr>so_nodelay = None, so_keepalive = None\<rparr>"

definition for_control_channel :: socket_opts where
  "for_control_channel = socket_opts_none\<lparr>so_nodelay := Some True\<rparr>"

definition from_cfg :: "tcp_config \<Rightarrow> socket_opts" where
  "from_cfg cfg =
     \<lparr>so_nodelay = Some (tcp_nodelay cfg),
      so_keepalive = Some \<lparr>ka_secs = tcp_keepalive_secs cfg, ka_interval = tcp_keepalive_interval cfg\<rparr>\<rparr>"

definition from_client_cfg :: "client_service_config \<Rightarrow> socket_opts" where
  "from_client_cfg cfg = socket_opts_none\<lparr>so_nodelay := cs_nodelay cfg\<rparr>"

definition from_server_cfg :: "server_service_config \<Rightarrow> socket_opts" where
  "from_server_cfg cfg = socket_opts_none\<lparr>so_nodelay := ss_nodelay cfg\<rparr>"

text \<open>The options of an open TCP socket, as the system sees them.\<close>

record tcp_socket =
  sock_nodelay :: bool
  sock_keepalive :: "keepalive option"

record set_ok =
  keepalive_ok :: bool
  nodelay_ok :: bool

definition apply_opts :: "set_ok \<Rightarrow> socket_opts \<Rightarrow> tcp_socket \<Rightarrow> tcp_socket" where
  "apply_opts ok opts s =
     (let s1 = (case so_keepalive opts of
                  Some v \<Rightarrow> if keepalive_ok ok then s\<lparr>sock_keepalive := Some v\<rparr> else s
                | None \<Rightarrow> s)
      in case so_nodelay opts of
           Some b \<Rightarrow> if nodelay_ok ok then s1\<lparr>sock_nodelay := b\<rparr> else s1
         | None \<Rightarrow> s1)"

section \<open>Addresses\<close>

datatype net_error =
    LookupFailed | LookupEmpty | Unresolved | BadPort | UnexpectedEof | BrokenPipe | DecodeFailed
  | UnexpectedMessage | VersionMismatch | NoSuchService | AuthFailure | BadBindAddr | PortNotAllowed
  | StaleControlChannel | WrongHello | AckRejected | HeartbeatTimeout | WrongServiceKind
  | ConnectFailed | NoDataChannel

type_synonym resolver = "string \<Rightarrow> net_error + sock_addr list"

record addr_maybe_cached =
  amc_addr :: string
  amc_socket_addr :: "sock_addr option"

definition addr_maybe_cached_new :: "string \<Rightarrow> addr_maybe_cached" where
  "addr_maybe_cached_new a = \<lparr>amc_addr = a, amc_socket_addr = None\<rparr>"

definition to_socket_addr :: "resolver \<Rightarrow> string \<Rightarrow> net_error + sock_addr" where
  "to_socket_addr lookup a =
     res_bind (lookup a) (\<lambda>xs. case xs of [] \<Rightarrow> Inl LookupEmpty | x # _ \<Rightarrow> Inr x)"

definition resolve :: "resolver \<Rightarrow> addr_maybe_cached \<Rightarrow> (net_error + unit) \<times> addr_maybe_cached" where
  "resolve lookup a =
     (case to_socket_addr lookup (amc_addr a) of
        Inr s \<Rightarrow> (Inr (), a\<lparr>amc_socket_addr := Some s\<rparr>)
      | Inl e \<Rightarrow> (Inl e, a))"

definition show_addr_maybe_cached :: "addr_maybe_cached \<Rightarrow> string" where
  "show_addr_maybe_cached a =
     (case amc_socket_addr a of Some s \<Rightarrow> show_sock_addr s | None \<Rightarrow> amc_addr a)"

text \<open>\<open>udp_connect\<close>: the address to connect to and the local address to bind.\<close>

definition udp_connect_addrs :: "resolver \<Rightarrow> string \<Rightarrow> bool \<Rightarrow> net_error + (sock_addr \<times> string)" where
  "udp_connect_addrs lookup a prefer_ipv6 =
     (if \<not> prefer_ipv6 then
        res_bind (to_socket_addr lookup a)
          (\<lambda>s. Inr (s, case s of V4 _ _ \<Rightarrow> ''0.0.0.0:0'' | V6 _ _ _ _ \<Rightarrow> '':::0''))
      else
        res_bind (lookup a)
          (\<lambda>all. case find is_ipv6 all of
             Some s \<Rightarrow> Inr (s, '':::0'')
           | None \<Rightarrow>
               (case find (\<lambda>x. \<not> is_ipv6 x) all of
                  None \<Rightarrow> Inl LookupEmpty
                | Some s \<Rightarrow> Inr (s, ''0.0.0.0:0''))))"

text \<open>\<open>host_port_pair\<close>: split at the last colon. A missing colon is a panic, \<open>None\<close>.\<close>

definition host_port_pair :: "string \<Rightarrow> (net_error + (string \<times> u16)) option" where
  "host_port_pair s =
     (case split_once CHR '':'' (rev s) of
        None \<Rightarrow> None
      | Some (port, host) \<Rightarrow>
          Some (case parse_u16 (rev port) of
                  None \<Rightarrow> Inl BadPort
                | Some p \<Rightarrow> Inr (rev host, p)))"

text \<open>
  What \<open>tcp_connect_with_proxy\<close> does: connect directly, or connect to the proxy and ask it for
  the remote address by name. The protocols spoken to the proxy are in third-party crates. A
  panic is \<open>None\<close>.
\<close>

datatype tcp_route =
    DirectAddr sock_addr
  | DirectName string
  | Socks5Proxy "string \<times> u16" "string \<times> u16" "(string \<times> string) option"
  | HttpProxy "string \<times> u16" "string \<times> u16" "(string \<times> string) option"

definition proxy_auth :: "url \<Rightarrow> (string \<times> string) option" where
  "proxy_auth u =
     (if url_username u \<noteq> '''' \<or> url_password u \<noteq> None
      then Some (url_username u, case url_password u of Some p \<Rightarrow> p | None \<Rightarrow> '''')
      else None)"

definition tcp_connect_with_proxy ::
  "addr_maybe_cached \<Rightarrow> url option \<Rightarrow> (net_error + tcp_route) option" where
  "tcp_connect_with_proxy a proxy =
     (case proxy of
        Some u \<Rightarrow>
          (case (url_host u, url_port u) of
             (Some h, Some p) \<Rightarrow>
               if url_scheme u = ''socks5'' then
                 map_option (\<lambda>r. res_bind r (\<lambda>t. Inr (Socks5Proxy (h, p) t (proxy_auth u))))
                   (host_port_pair (amc_addr a))
               else if url_scheme u = ''http'' then
                 map_option (\<lambda>r. res_bind r (\<lambda>t. Inr (HttpProxy (h, p) t (proxy_auth u))))
                   (host_port_pair (amc_addr a))
               else None
           | _ \<Rightarrow> None)
      | None \<Rightarrow>
          Some (Inr (case amc_socket_addr a of Some s \<Rightarrow> DirectAddr s | None \<Rightarrow> DirectName (amc_addr a))))"

section \<open>The TCP transport\<close>

record tcp_transport =
  tt_opts :: socket_opts
  tt_cfg :: tcp_config

definition tcp_transport_new :: "transport_config \<Rightarrow> tcp_transport" where
  "tcp_transport_new c = \<lparr>tt_opts = from_cfg (tr_tcp c), tt_cfg = tr_tcp c\<rparr>"

definition tcp_hint :: "set_ok \<Rightarrow> tcp_socket \<Rightarrow> socket_opts \<Rightarrow> tcp_socket" where
  "tcp_hint ok s opt = apply_opts ok opt s"

text \<open>\<open>accept\<close> and \<open>connect\<close> set the configured options on the fresh socket.\<close>

definition tcp_accept :: "set_ok \<Rightarrow> tcp_transport \<Rightarrow> tcp_socket \<Rightarrow> tcp_socket" where
  "tcp_accept ok t s = apply_opts ok (tt_opts t) s"

definition tcp_connect ::
  "set_ok \<Rightarrow> tcp_transport \<Rightarrow> (tcp_route \<Rightarrow> net_error + tcp_socket) \<Rightarrow> addr_maybe_cached \<Rightarrow>
   (net_error + tcp_socket) option" where
  "tcp_connect ok t dial a =
     map_option (\<lambda>r. res_bind r (\<lambda>route. res_bind (dial route) (\<lambda>s. Inr (apply_opts ok (tt_opts t) s))))
       (tcp_connect_with_proxy a (tcp_proxy (tt_cfg t)))"

section \<open>Retrying\<close>

text \<open>
  The settings of a retry policy of the \<open>backoff\<close> crate; fractions are in tenths and a setting left at its default is
  \<open>None\<close>. How the crate turns settings into delays is a parameter: its state and \<open>next_backoff\<close>, which gives
  \<open>None\<close> to give up.
\<close>

record backoff_config =
  bo_randomization_factor :: "nat option"
  bo_multiplier :: "nat option"
  bo_max_interval :: nat
  bo_max_elapsed_time :: "nat option"

definition listen_backoff :: backoff_config where
  "listen_backoff =
     \<lparr>bo_randomization_factor = None, bo_multiplier = None, bo_max_interval = 1, bo_max_elapsed_time = None\<rparr>"

text \<open>
  \<open>retry_notify_with_deadline\<close> along what happens: attempts with their results, and the signal that ends
  the waiting. The second component holds the delays; the first is \<open>None\<close> while the call has not returned.
\<close>

datatype 'a retry_step = Tried "net_error + 'a" | DeadlineSignal

datatype retry_error = GaveUp net_error | DeadlinePassed

fun retry_notify_with_deadline ::
  "('b \<Rightarrow> nat option \<times> 'b) \<Rightarrow> 'b \<Rightarrow> 'a retry_step list \<Rightarrow> (retry_error + 'a) option \<times> nat list" where
  "retry_notify_with_deadline next_backoff b [] = (None, [])"
| "retry_notify_with_deadline next_backoff b (DeadlineSignal # steps) = (Some (Inl DeadlinePassed), [])"
| "retry_notify_with_deadline next_backoff b (Tried (Inr x) # steps) = (Some (Inr x), [])"
| "retry_notify_with_deadline next_backoff b (Tried (Inl e) # steps) =
     (case next_backoff b of
        (None, _) \<Rightarrow> (Some (Inl (GaveUp e)), [])
      | (Some d, b') \<Rightarrow>
          (let (r, ds) = retry_notify_with_deadline next_backoff b' steps in (r, d # ds)))"

section \<open>Properties\<close>

text \<open>
  Under a policy without a maximal elapsed time, which never gives up, the call returns with the first attempt that
  succeeds or with the signal, whichever comes first, and waits until then.
\<close>

definition failed_try :: "'a retry_step \<Rightarrow> bool" where
  "failed_try s = (case s of Tried (Inl _) \<Rightarrow> True | _ \<Rightarrow> False)"

lemma failed_try_simps [simp]:
  "failed_try (Tried (Inl e))" "\<not> failed_try (Tried (Inr x))" "\<not> failed_try DeadlineSignal"
  by (simp_all add: failed_try_def)

lemma retry_until_success:
  assumes "\<And>b. fst (next_backoff b) \<noteq> None"
  shows "fst (retry_notify_with_deadline next_backoff b steps) =
    (case dropWhile failed_try steps of
       Tried (Inr x) # _ \<Rightarrow> Some (Inr x)
     | DeadlineSignal # _ \<Rightarrow> Some (Inl DeadlinePassed)
     | _ \<Rightarrow> None)"
proof (induction steps arbitrary: b)
  case (Cons s steps)
  show ?case
  proof (cases "(next_backoff, b, s # steps)" rule: retry_notify_with_deadline.cases)
    case (4 nb b' e steps')
    obtain d b1 where "next_backoff b = (Some d, b1)" using assms [of b] by (cases "next_backoff b") auto
    with 4 Cons.IH [of b1] show ?thesis by (simp add: case_prod_beta)
  qed simp_all
qed simp

text \<open>
  The local address of a forwarding UDP socket is of the family of its target, and
  \<open>prefer_ipv6\<close> picks the first IPv6 address when the name has one; without the option the
  first address of the lookup is taken. The call fails exactly when the lookup fails or is empty.
\<close>

theorem udp_connect_choice:
  assumes "lookup a = Inr xs"
  shows "(udp_connect_addrs lookup a pref = Inl LookupEmpty \<longleftrightarrow> xs = []) \<and>
    (xs \<noteq> [] \<longrightarrow> (\<exists>s b. udp_connect_addrs lookup a pref = Inr (s, b) \<and> s \<in> set xs \<and>
       b = (if is_ipv6 s then '':::0'' else ''0.0.0.0:0'') \<and>
       (if pref then is_ipv6 s \<longleftrightarrow> (\<exists>x \<in> set xs. is_ipv6 x) else s = hd xs)))"
proof (cases pref)
  case False
  then show ?thesis
    using assms by (cases xs) (auto simp: udp_connect_addrs_def res_bind_def to_socket_addr_def
        split: sock_addr.splits)
next
  case True
  show ?thesis
  proof (cases "find is_ipv6 xs")
    case (Some s)
    then have "is_ipv6 s" "s \<in> set xs" by (auto simp: find_Some_iff)
    moreover have "udp_connect_addrs lookup a pref = Inr (s, '':::0'')"
      using True Some assms by (simp add: udp_connect_addrs_def res_bind_def)
    ultimately show ?thesis using True by auto
  next
    case None
    then have v4: "\<forall>x \<in> set xs. \<not> is_ipv6 x" by (simp add: find_None_iff)
    then have "udp_connect_addrs lookup a pref =
        (case xs of [] \<Rightarrow> Inl LookupEmpty | s # _ \<Rightarrow> Inr (s, ''0.0.0.0:0''))"
      using True None assms by (cases xs) (simp_all add: udp_connect_addrs_def res_bind_def)
    with v4 True show ?thesis by (cases xs) auto
  qed
qed

theorem udp_connect_choice_witness:
  "\<exists>b. udp_connect_addrs (\<lambda>_. Inr [V4 1 53, V6 1 53 0 0]) ''dns:53'' True = Inr (V6 1 53 0 0, b)"
  using udp_connect_choice [where lookup = "\<lambda>_. Inr [V4 1 53, V6 1 53 0 0]" and a = "''dns:53''"
      and pref = True and xs = "[V4 1 53, V6 1 53 0 0]"]
  by auto

text \<open>
  The options of a TCP connection. When the system accepts them, a control channel has
  \<open>nodelay\<close> set whatever the configuration says, a data channel has the service's choice or else
  the transport's, and both keep the transport's keepalive.
\<close>

theorem tcp_options:
  assumes "keepalive_ok ok" and "nodelay_ok ok" and "t = tcp_transport_new c"
  shows "tcp_hint ok (tcp_accept ok t s) for_control_channel =
      s\<lparr>sock_nodelay := True,
        sock_keepalive := Some \<lparr>ka_secs = tcp_keepalive_secs (tr_tcp c),
                                ka_interval = tcp_keepalive_interval (tr_tcp c)\<rparr>\<rparr> \<and>
    tcp_hint ok (tcp_accept ok t s) (from_server_cfg svc) =
      s\<lparr>sock_nodelay := (case ss_nodelay svc of Some b \<Rightarrow> b | None \<Rightarrow> tcp_nodelay (tr_tcp c)),
        sock_keepalive := Some \<lparr>ka_secs = tcp_keepalive_secs (tr_tcp c),
                                ka_interval = tcp_keepalive_interval (tr_tcp c)\<rparr>\<rparr>"
  using assms
  by (cases s) (auto simp: tcp_hint_def tcp_accept_def apply_opts_def tcp_transport_new_def from_cfg_def
      for_control_channel_def from_server_cfg_def socket_opts_none_def split: option.splits)

theorem tcp_options_witness:
  "sock_nodelay (tcp_hint \<lparr>keepalive_ok = True, nodelay_ok = True\<rparr>
     (tcp_accept \<lparr>keepalive_ok = True, nodelay_ok = True\<rparr> (tcp_transport_new transport_config_default)
       \<lparr>sock_nodelay = False, sock_keepalive = None\<rparr>) for_control_channel)"
  using tcp_options [of "\<lparr>keepalive_ok = True, nodelay_ok = True\<rparr>"
      "tcp_transport_new transport_config_default" transport_config_default
      "\<lparr>sock_nodelay = False, sock_keepalive = None\<rparr>"]
  by simp

end
