(* ===== verification/Udp_Open.thy ===== *)
theory Udp_Open
  imports Udp_Channel Transport_Layer
begin

text \<open>
  Opening a UDP stream: \<open>connect\<close> and \<open>accept\<close> of the UDP transport (src/src/transport/udp.rs), and how the
  client's connect loop, the listener and the tasks of the two streams bring a connection about over a
  network that may lose packets.
\<close>

section \<open>Connect and accept\<close>

datatype udp_open_error = AddrUnresolved | LocalBindFailed | OpenFailed udp_error

text \<open>The local address of the client's socket.\<close>

definition udp_local_addr :: "sock_addr \<Rightarrow> string" where
  "udp_local_addr dest = (if is_ipv6 dest then ''[::]:0'' else ''0.0.0.0:0'')"

text \<open>
  \<open>UdpTransport::connect\<close>: the cached address, a socket of its family, a stream with a random identifier, and
  the connect loop. The result stands for the stream; the second component holds the datagrams sent.
\<close>

definition udp_transport_connect ::
  "addr_maybe_cached \<Rightarrow> (string \<Rightarrow> bool) \<Rightarrow> u32 \<Rightarrow> instant \<Rightarrow> (instant \<times> udp_stream_inner) list \<Rightarrow> cipher \<Rightarrow>
   (nat \<Rightarrow> bytes) \<Rightarrow> (udp_open_error + u32 \<times> sock_addr) option \<times> bytes list" where
  "udp_transport_connect addr bind_ok sid start turns enc rng =
     (case amc_socket_addr addr of
        None \<Rightarrow> (Some (Inl AddrUnresolved), [])
      | Some dest \<Rightarrow>
          if \<not> bind_ok (udp_local_addr dest) then (Some (Inl LocalBindFailed), [])
          else (case connect_loop start turns enc rng sid of
                  (None, sent) \<Rightarrow> (None, sent)
                | (Some (Inl e), sent) \<Rightarrow> (Some (Inl (OpenFailed e)), sent)
                | (Some (Inr _), sent) \<Rightarrow> (Some (Inr (sid, dest)), sent)))"

text \<open>
  \<open>UdpTransport::accept\<close>: the next announced stream and its peer, read from the state behind its
  lock (\<open>inner\<close>); \<open>None\<close> while there is nothing to accept, an error once the sending end is gone.
\<close>

definition udp_accept ::
  "bool \<Rightarrow> (u32 \<Rightarrow> udp_stream_inner) \<Rightarrow> Udp_Transport.listener \<Rightarrow> ((udp_error + u32 \<times> sock_addr) \<times> Udp_Transport.listener) option" where
  "udp_accept sender_lives inner l =
     (case incoming l of
        sid # rest \<Rightarrow> Some (Inr (sid, peer_addr (inner sid)), l\<lparr>incoming := rest\<rparr>)
      | [] \<Rightarrow> if sender_lives then None else Some (Inl ErrClosed, l))"

section \<open>Opening packets\<close>

text \<open>A stream that has not heard of its peer yet, and one that is open towards an address.\<close>

definition awaiting :: "u32 \<Rightarrow> sock_addr \<Rightarrow> udp_stream_inner \<Rightarrow> bool" where
  "awaiting sid a i \<longleftrightarrow> \<not> closed i \<and> peer_addr i = a \<and> get_stream i sid = Some (stream_state_new ModeTcp)"

definition is_open :: "u32 \<Rightarrow> sock_addr \<Rightarrow> udp_stream_inner \<Rightarrow> bool" where
  "is_open sid a i \<longleftrightarrow> \<not> closed i \<and> peer_addr i = a \<and> (\<exists>st. get_stream i sid = Some st \<and> established st)"

definition cipher_total :: "cipher \<Rightarrow> bool" where
  "cipher_total enc \<longleftrightarrow> (\<forall>nonce buf. enc nonce buf \<noteq> None)"

lemma awaiting_new: "awaiting sid a (udp_stream_new sid a now)"
  by (simp add: awaiting_def udp_stream_new_def reliability_new_def)

lemma send_packet_total:
  assumes "cipher_total enc"
  shows "\<exists>pkt. send_packet_raw enc nonce now i sid pt sq ao bo d = Inr (i\<lparr>last_sent := now\<rparr>, peer_addr i, pkt)"
proof -
  obtain ack bits where "choose_ack i sid pt ao bo = (ack, bits)" by fastforce
  moreover obtain c where "enc nonce (encode \<lparr>channel_id = sid, hdr_kind = pt, hdr_seq = sq, hdr_ack = ack,
      hdr_ack_bits = bits\<rparr> [] @ d) = Some c"
    using assms by (auto simp: cipher_total_def)
  ultimately show ?thesis by (simp add: send_packet_raw_def seal_def Let_def res_bind_def)
qed

text \<open>The loop sends an opening packet in every turn that still finds the stream waiting.\<close>

lemma connect_loop_awaiting:
  assumes "cipher_total enc" and "\<forall>(t, i) \<in> set ws. duration_since t start \<le> secs 10 \<and> awaiting sid dest i"
  shows "\<exists>pkts. length pkts = length ws \<and>
    (\<forall>k < length ws. \<exists>i'. send_packet enc (rng k) (fst (ws ! k)) (snd (ws ! k)) sid StreamOpen 0 [] = Inr (i', dest, pkts ! k)) \<and>
    connect_loop start (ws @ ts) enc rng sid =
      (fst (connect_loop start ts enc (\<lambda>n. rng (n + length ws)) sid),
       pkts @ snd (connect_loop start ts enc (\<lambda>n. rng (n + length ws)) sid))"
  using assms(2)
proof (induction ws arbitrary: rng)
  case (Cons w ws)
  obtain t i where w: "w = (t, i)" "duration_since t start \<le> secs 10" "awaiting sid dest i"
    using Cons.prems by (cases w) auto
  obtain i1 pkt where pkt: "send_packet enc (rng 0) t i sid StreamOpen 0 [] = Inr (i1, dest, pkt)"
    using send_packet_total [OF assms(1)] w(3) unfolding send_packet_def awaiting_def by metis
  let ?rng = "\<lambda>n. rng (Suc n)"
  obtain pkts where pkts: "length pkts = length ws"
    "\<forall>k < length ws. \<exists>i'. send_packet enc (?rng k) (fst (ws ! k)) (snd (ws ! k)) sid StreamOpen 0 [] = Inr (i', dest, pkts ! k)"
    "connect_loop start (ws @ ts) enc ?rng sid =
      (fst (connect_loop start ts enc (\<lambda>n. ?rng (n + length ws)) sid),
       pkts @ snd (connect_loop start ts enc (\<lambda>n. ?rng (n + length ws)) sid))"
    using Cons.IH [of ?rng] Cons.prems by auto
  have "\<exists>i'. send_packet enc (rng k) (fst ((w # ws) ! k)) (snd ((w # ws) ! k)) sid StreamOpen 0 [] = Inr (i', dest, (pkt # pkts) ! k)"
    if "k < length (w # ws)" for k
    using that pkt pkts(2) w(1) by (cases k) auto
  moreover have "connect_loop start ((w # ws) @ ts) enc rng sid =
      (fst (connect_loop start ts enc (\<lambda>n. rng (n + length (w # ws))) sid),
       (pkt # pkts) @ snd (connect_loop start ts enc (\<lambda>n. rng (n + length (w # ws))) sid))"
    using w pkt pkts(3) by (simp add: awaiting_def stream_state_new_def)
  ultimately show ?case using pkts(1) by (intro exI [of _ "pkt # pkts"]) simp
qed simp

text \<open>The listener's half: an opening packet of an unknown stream makes one, whose task answers.\<close>

lemma listener_opens:
  assumes "aead_ok enc dec" and "cipher_total enc" and "length nonce0 = 12" and "length (srng 0) = 12"
    and "send_packet enc nonce0 t i sid StreamOpen 0 [] = Inr (i', dest, pkt)" and "map_of (active_streams l) sid = None"
  shows "\<exists>l' ls opened s1 ack h. listener_recv enc dec nonce now l src pkt = (l', None) \<and>
    map_of (active_streams l') sid = Some ls \<and> incoming l' = incoming l @ [sid] \<and> ls_chan ls = [opened] \<and>
    task_turn enc srng now' sid (ls_inner ls) (PacketEv (Some opened)) =
      \<lparr>tr_inner = s1, tr_sent = [(src, ack)], tr_woken = [], tr_break = False\<rparr> \<and> is_open sid src s1 \<and>
    recv_datagram dec ack = Some (h, []) \<and> hdr_kind h = StreamOpenAck \<and> channel_id h = sid"
proof -
  obtain a b where ab: "choose_ack i sid StreamOpen None None = (a, b)" by fastforce
  let ?h = "\<lparr>channel_id = sid, hdr_kind = StreamOpen, hdr_seq = 0, hdr_ack = a, hdr_ack_bits = b\<rparr>"
  have r: "recv_datagram dec pkt = Some (?h, [])"
    using recv_sent_packet(1) [OF assms(1,3) _ _ ab] assms(5) by (simp add: send_packet_def)
  let ?opened = "\<lparr>pkt_header = ?h, pkt_payload = [], pkt_src = src\<rparr>"
  let ?s0 = "udp_stream_new sid src now"
  let ?i1 = "put_stream sid ((stream_state_new ModeTcp)\<lparr>established := True\<rparr>) (?s0\<lparr>last_received := now', peer_addr := src\<rparr>)"
  have lock: "handle_incoming_locked now' ?s0 ?opened = (?i1, [(StreamOpenAck, 0, 0, 0, [])], [])"
    using awaiting_new [of sid src now] by (simp add: handle_incoming_locked_def handle_packet_def awaiting_def Let_def)
  obtain ack where ack: "send_packet_raw enc (srng 0) now' ?i1 sid StreamOpenAck 0 (Some 0) (Some 0) [] =
      Inr (?i1\<lparr>last_sent := now'\<rparr>, src, ack)"
    using send_packet_total [OF assms(2), of "srng 0" now' ?i1] by fastforce
  obtain a' b' where "choose_ack ?i1 sid StreamOpenAck (Some 0) (Some 0) = (a', b')" by fastforce
  note h = recv_sent_packet(1) [OF assms(1,4) _ ack this, simplified]
  have "closed ?s0 = False" by (simp add: udp_stream_new_def)
  with lock ack h r assms(6) show ?thesis
    by (simp add: listener_recv_def listener_on_packet_def enqueue_packet_def try_send_def Let_def update_conv'
        task_turn_def handle_incoming_def is_open_def)
qed

text \<open>The client's half: the answer goes to the stream's channel, and its task opens the stream.\<close>

lemma client_opens:
  assumes "recv_datagram dec ack = Some (h, [])" and "hdr_kind h = StreamOpenAck" and "channel_id h = sid" and "awaiting sid dest i"
  shows "\<exists>acked i1. connected_recv dec sid dest (RecvFrom dest ack) i [] = (i, [acked], [], False) \<and>
    task_turn enc crng now sid i (PacketEv (Some acked)) =
      \<lparr>tr_inner = i1, tr_sent = [], tr_woken = [], tr_break = False\<rparr> \<and> is_open sid dest i1"
  using assms
  by (simp add: connected_recv_def connected_on_packet_def try_send_def task_turn_def handle_incoming_def
      handle_incoming_locked_def handle_packet_def awaiting_def is_open_def Let_def)

section \<open>Properties\<close>

text \<open>
  C12: a UDP connection opens as soon as one of its packets is answered. The connect loop sends an opening packet in
  every turn, whatever became of the earlier ones. When the last of them reaches a listener that does not know the
  stream, the listener makes the stream and announces it to \<open>accept\<close>, with the client's address; the
  task of the new stream answers; and when the answer reaches the client within the ten
  seconds, \<open>connect\<close> succeeds. Both ends then hold an open stream with the other's address.
\<close>

theorem udp_connection_opens:
  assumes cipher: "aead_ok enc dec" "cipher_total enc" "\<And>n. length (rng n) = 12" "length (srng 0) = 12"
    and client: "amc_socket_addr addr = Some dest" "bind_ok (udp_local_addr dest)" "ws \<noteq> []"
      "\<forall>(t, i) \<in> set ws. duration_since t start \<le> secs 10 \<and> awaiting sid dest i"
      "awaiting sid dest i0" "duration_since t1 start \<le> secs 10"
    and server: "map_of (active_streams l) sid = None" "incoming l = []"
  shows "\<exists>pkts pkt l' ls opened ack s1 acked i1.
    listener_recv enc dec nonce now l src pkt = (l', None) \<and>
    map_of (active_streams l') sid = Some ls \<and> ls_chan ls = [opened] \<and>
    task_turn enc srng now' sid (ls_inner ls) (PacketEv (Some opened)) =
      \<lparr>tr_inner = s1, tr_sent = [(src, ack)], tr_woken = [], tr_break = False\<rparr> \<and> is_open sid src s1 \<and>
    udp_accept True (\<lambda>_. s1) l' = Some (Inr (sid, src), l'\<lparr>incoming := []\<rparr>) \<and>
    connected_recv dec sid dest (RecvFrom dest ack) i0 [] = (i0, [acked], [], False) \<and>
    task_turn enc crng now'' sid i0 (PacketEv (Some acked)) =
      \<lparr>tr_inner = i1, tr_sent = [], tr_woken = [], tr_break = False\<rparr> \<and> is_open sid dest i1 \<and>
    udp_transport_connect addr bind_ok sid start (ws @ [(t1, i1)]) enc rng = (Some (Inr (sid, dest)), pkts @ [pkt]) \<and>
    length pkts = length ws - 1"
proof -
  let ?k = "length ws - 1"
  let ?loop = "\<lambda>ts pkts. length pkts = length ws \<and>
    (\<forall>k < length ws. \<exists>i'. send_packet enc (rng k) (fst (ws ! k)) (snd (ws ! k)) sid StreamOpen 0 [] = Inr (i', dest, pkts ! k)) \<and>
    connect_loop start (ws @ ts) enc rng sid =
      (fst (connect_loop start ts enc (\<lambda>n. rng (n + length ws)) sid),
       pkts @ snd (connect_loop start ts enc (\<lambda>n. rng (n + length ws)) sid))"
  note loops = connect_loop_awaiting [OF cipher(2) client(4), of rng]
  obtain p0 where p0: "?loop [] p0" using loops [of "[]"] by blast
  have k: "?k < length ws" using client(3) by (cases ws) simp_all
  obtain i' where sent: "send_packet enc (rng ?k) (fst (ws ! ?k)) (snd (ws ! ?k)) sid StreamOpen 0 [] = Inr (i', dest, p0 ! ?k)"
    using p0 k by blast
  obtain l' ls opened s1 ack h where srv: "listener_recv enc dec nonce now l src (p0 ! ?k) = (l', None)"
    "map_of (active_streams l') sid = Some ls" "incoming l' = [sid]" "ls_chan ls = [opened]"
    "task_turn enc srng now' sid (ls_inner ls) (PacketEv (Some opened)) =
      \<lparr>tr_inner = s1, tr_sent = [(src, ack)], tr_woken = [], tr_break = False\<rparr>" "is_open sid src s1"
    "recv_datagram dec ack = Some (h, [])" "hdr_kind h = StreamOpenAck" "channel_id h = sid"
    using listener_opens [where srng = srng and nonce = nonce and now = now and src = src and now' = now',
        OF cipher(1,2) cipher(3) cipher(4) sent server(1)] server(2) by auto
  obtain acked i1 where cl: "connected_recv dec sid dest (RecvFrom dest ack) i0 [] = (i0, [acked], [], False)"
    "task_turn enc crng now'' sid i0 (PacketEv (Some acked)) = \<lparr>tr_inner = i1, tr_sent = [], tr_woken = [], tr_break = False\<rparr>"
    "is_open sid dest i1"
    using client_opens [OF srv(7-9) client(5)] by blast
  obtain pkts where pkts: "?loop [(t1, i1)] pkts" using loops [of "[(t1, i1)]"] by blast
  have "pkts ! ?k = p0 ! ?k" using pkts k sent by auto
  moreover have "pkts \<noteq> []" using pkts client(3) by auto
  ultimately have "pkts = butlast pkts @ [p0 ! ?k]" using pkts by (metis append_butlast_last_id last_conv_nth)
  moreover have "udp_transport_connect addr bind_ok sid start (ws @ [(t1, i1)]) enc rng = (Some (Inr (sid, dest)), pkts)"
    using pkts client(1,2,6) cl(3) by (auto simp: udp_transport_connect_def is_open_def)
  ultimately have con: "udp_transport_connect addr bind_ok sid start (ws @ [(t1, i1)]) enc rng =
      (Some (Inr (sid, dest)), butlast pkts @ [p0 ! ?k])" by simp
  have acc: "udp_accept True (\<lambda>_. s1) l' = Some (Inr (sid, src), l'\<lparr>incoming := []\<rparr>)"
    using srv(3,6) by (simp add: udp_accept_def is_open_def)
  show ?thesis
    by (intro exI conjI, rule srv(1), rule srv(2), rule srv(4), rule srv(5), rule srv(6), rule acc, rule cl(1), rule cl(2),
        rule cl(3), rule con) (use pkts in simp)
qed

theorem udp_connection_opens_witness:
  "\<exists>pkts pkt i1 l' s1 ls opened ack. length pkts = 2 \<and>
     udp_transport_connect \<lparr>amc_addr = ''s:2333'', amc_socket_addr = Some (V4 1 2333)\<rparr> (\<lambda>a. a = ''0.0.0.0:0'') 7 0
       ([(0, udp_stream_new 7 (V4 1 2333) 0), (millis 200, udp_stream_new 7 (V4 1 2333) 0),
         (millis 400, udp_stream_new 7 (V4 1 2333) 0)] @ [(millis 600, i1)]) demo_enc (\<lambda>_. replicate 12 0) =
       (Some (Inr (7, V4 1 2333)), pkts @ [pkt]) \<and>
     listener_recv demo_enc demo_dec [] 0 listener_new (V4 5 6) pkt = (l', None) \<and>
     map_of (active_streams l') 7 = Some ls \<and> ls_chan ls = [opened] \<and>
     task_turn demo_enc (\<lambda>_. replicate 12 0) 0 7 (ls_inner ls) (PacketEv (Some opened)) =
       \<lparr>tr_inner = s1, tr_sent = [(V4 5 6, ack)], tr_woken = [], tr_break = False\<rparr> \<and>
     udp_accept True (\<lambda>_. s1) l' = Some (Inr (7, V4 5 6), l'\<lparr>incoming := []\<rparr>)"
proof -
  let ?ws = "[(0, udp_stream_new 7 (V4 1 2333) 0), (millis 200, udp_stream_new 7 (V4 1 2333) 0),
         (millis 400, udp_stream_new 7 (V4 1 2333) 0)]"
  have tot: "cipher_total demo_enc" by (simp add: cipher_total_def demo_enc_def)
  have ws: "\<forall>(t, i) \<in> set ?ws. duration_since t 0 \<le> secs 10 \<and> awaiting 7 (V4 1 2333) i"
    using awaiting_new by (simp add: duration_since_def secs_def millis_def)
  have t1: "duration_since (millis 600) 0 \<le> secs 10" by (simp add: duration_since_def secs_def millis_def)
  let ?addr = "\<lparr>amc_addr = ''s:2333'', amc_socket_addr = Some (V4 1 2333)\<rparr>"
  have rest: "length (replicate 12 (0 :: u8)) = 12" "amc_socket_addr ?addr = Some (V4 1 2333)"
    "udp_local_addr (V4 1 2333) = ''0.0.0.0:0''" "?ws \<noteq> []" "map_of (active_streams listener_new) 7 = None"
    "incoming listener_new = []" "length ?ws - 1 = 2"
    by (simp_all add: udp_local_addr_def listener_new_def)
  from udp_connection_opens [where rng = "\<lambda>_. replicate 12 0" and srng = "\<lambda>_. replicate 12 0" and nonce = "[]"
      and now = 0 and now' = 0 and src = "V4 5 6" and bind_ok = "\<lambda>a. a = ''0.0.0.0:0''",
      OF demo_aead_ok tot rest(1) rest(1) rest(2,3) rest(4) ws awaiting_new t1 rest(5,6)] rest(7)
  show ?thesis by metis
qed

end
