(* ===== verification/Protocol.thy ===== *)
theory Protocol
  imports Transport_Layer
begin

text \<open>
  The messages of the control and data channels and their framing, src/src/protocol.rs. The
  serialisation of messages (crate bincode) and the hash (crate sha2) are parameters.

  A connection is seen from one end: what the peer will have sent before it closes, what this
  end has written, and how many more bytes the peer takes before the connection breaks. An
  operation returns its result and the connection after it.
\<close>

section \<open>Connections\<close>

record conn =
  inp :: bytes
  out :: bytes
  room :: nat
  nack_mode :: bool
  hints :: "socket_opts list"

type_synonym 'a io = "conn \<Rightarrow> (net_error + 'a) \<times> conn"

definition io_return :: "'a \<Rightarrow> 'a io" where
  "io_return a c = (Inr a, c)"

definition io_fail :: "net_error \<Rightarrow> 'a io" where
  "io_fail e c = (Inl e, c)"

definition io_bind :: "'a io \<Rightarrow> ('a \<Rightarrow> 'b io) \<Rightarrow> 'b io" where
  "io_bind m f c = (case m c of (Inl e, c') \<Rightarrow> (Inl e, c') | (Inr a, c') \<Rightarrow> f a c')"

definition read_exact :: "nat \<Rightarrow> bytes io" where
  "read_exact n c =
     (if n \<le> length (inp c) then (Inr (take n (inp c)), c\<lparr>inp := drop n (inp c)\<rparr>)
      else (Inl UnexpectedEof, c\<lparr>inp := []\<rparr>))"

definition write_all :: "bytes \<Rightarrow> unit io" where
  "write_all bs c =
     (if length bs \<le> room c then (Inr (), c\<lparr>out := out c @ bs, room := room c - length bs\<rparr>)
      else (Inl BrokenPipe, c\<lparr>out := out c @ take (room c) bs, room := 0\<rparr>))"

definition hint :: "socket_opts \<Rightarrow> conn \<Rightarrow> conn" where
  "hint o1 c = c\<lparr>hints := hints c @ [o1]\<rparr>"

definition set_nack_mode :: "conn \<Rightarrow> conn" where
  "set_nack_mode c = c\<lparr>nack_mode := True\<rparr>"

section \<open>Messages\<close>

type_synonym digest = bytes

definition HASH_WIDTH_IN_BYTES :: nat where
  "HASH_WIDTH_IN_BYTES = 32"

definition CURRENT_PROTO_VERSION :: u8 where
  "CURRENT_PROTO_VERSION = 1"

text \<open>The bytes of a token that enter a hash; a missing token counts as empty.\<close>

definition token_bytes :: "string option \<Rightarrow> bytes" where
  "token_bytes t = (case t of Some s \<Rightarrow> as_bytes s | None \<Rightarrow> [])"

datatype hello =
    ControlChannelHello u8 digest
  | DataChannelHello u8 digest
  | VisitorHello u8 digest

record visitor_auth =
  va_token_digest :: digest
  va_bind_addr :: string
  va_service_type :: service_type

datatype visitor_ack = VisitorOk | VisitorAuthFailed | VisitorPortDenied | VisitorBindError

datatype ack = AckOk | AckServiceNotExist | AckAuthFailed

fun show_ack :: "ack \<Rightarrow> string" where
  "show_ack AckOk = ''Ok''"
| "show_ack AckServiceNotExist = ''Service not exist''"
| "show_ack AckAuthFailed = ''Incorrect token''"

datatype control_channel_cmd = CreateDataChannel | HeartBeat

record forward_addr =
  fa_ip :: bytes
  fa_port :: u16
  fa_is_ipv6 :: bool

definition forward_addr_default :: forward_addr where
  "forward_addr_default = \<lparr>fa_ip = replicate 16 0, fa_port = 0, fa_is_ipv6 = False\<rparr>"

fun forward_addr_from :: "sock_addr \<Rightarrow> forward_addr" where
  "forward_addr_from (V4 ip port) =
     \<lparr>fa_ip = octets4 ip @ replicate 12 0, fa_port = port, fa_is_ipv6 = False\<rparr>"
| "forward_addr_from (V6 ip port flow scope) =
     \<lparr>fa_ip = octets16 ip, fa_port = port, fa_is_ipv6 = True\<rparr>"

definition sock_addr_from :: "forward_addr \<Rightarrow> sock_addr" where
  "sock_addr_from a =
     (if fa_is_ipv6 a then V6 (ipv6_from (fa_ip a)) (fa_port a) 0 0
      else V4 (ipv4_from (take 4 (fa_ip a))) (fa_port a))"

datatype data_channel_cmd = StartForwardTcp forward_addr | StartForwardUdp forward_addr

datatype packet_message =
    MHello hello
  | MVisitorAuth visitor_auth
  | MVisitorAck visitor_ack
  | MAuth digest
  | MAck ack
  | MControl control_channel_cmd
  | MDataCommand data_channel_cmd
  | MTcpChunk bytes
  | MUdpPacket sock_addr bytes

record udp_header =
  uh_from :: sock_addr
  uh_len :: u16

record udp_traffic =
  ut_from :: sock_addr
  ut_data :: bytes

text \<open>The serialisation library, for the two types the program serialises.\<close>

record bincode =
  bc_ser :: "packet_message \<Rightarrow> bytes"
  bc_de :: "bytes \<Rightarrow> packet_message option"
  bc_ser_hdr :: "udp_header \<Rightarrow> bytes"
  bc_de_hdr :: "bytes \<Rightarrow> udp_header option"

section \<open>Framing\<close>

definition encode_packet_message :: "bincode \<Rightarrow> packet_message \<Rightarrow> bytes" where
  "encode_packet_message bc m = bc_ser bc m"

definition decode_packet_message :: "bincode \<Rightarrow> bytes \<Rightarrow> net_error + packet_message" where
  "decode_packet_message bc bs = (case bc_de bc bs of None \<Rightarrow> Inl DecodeFailed | Some m \<Rightarrow> Inr m)"

definition read_framed_packet :: "bytes io" where
  "read_framed_packet = io_bind (read_exact 4) (\<lambda>len. read_exact (unat (u32_from_be_bytes len)))"

definition write_framed_packet :: "bytes \<Rightarrow> unit io" where
  "write_framed_packet bs =
     io_bind (write_all (u32_to_be_bytes (of_nat (length bs)))) (\<lambda>_. write_all bs)"

definition read_packet_message :: "bincode \<Rightarrow> packet_message io" where
  "read_packet_message bc = io_bind read_framed_packet (\<lambda>bs c. (decode_packet_message bc bs, c))"

definition write_packet_message :: "bincode \<Rightarrow> packet_message \<Rightarrow> unit io" where
  "write_packet_message bc m = write_framed_packet (encode_packet_message bc m)"

section \<open>UDP traffic\<close>

text \<open>\<open>UdpTraffic::write\<close> and \<open>write_slice\<close>: both lengths are truncated to their width.\<close>

definition udp_traffic_write :: "bincode \<Rightarrow> udp_traffic \<Rightarrow> unit io" where
  "udp_traffic_write bc t =
     (let v = bc_ser_hdr bc \<lparr>uh_from = ut_from t, uh_len = of_nat (length (ut_data t))\<rparr>
      in io_bind (write_all [of_nat (length v)]) (\<lambda>_.
         io_bind (write_all v) (\<lambda>_. write_all (ut_data t))))"

definition udp_traffic_write_slice :: "bincode \<Rightarrow> sock_addr \<Rightarrow> bytes \<Rightarrow> unit io" where
  "udp_traffic_write_slice bc from d =
     (let v = bc_ser_hdr bc \<lparr>uh_from = from, uh_len = of_nat (length d)\<rparr>
      in io_bind (write_all [of_nat (length v)]) (\<lambda>_.
         io_bind (write_all v) (\<lambda>_. write_all d)))"

definition read_u8 :: "u8 io" where
  "read_u8 = io_bind (read_exact 1) (\<lambda>bs. io_return (hd bs))"

definition udp_traffic_read :: "bincode \<Rightarrow> u8 \<Rightarrow> udp_traffic io" where
  "udp_traffic_read bc hdr_len =
     io_bind (read_exact (unat hdr_len)) (\<lambda>buf.
       case bc_de_hdr bc buf of
         None \<Rightarrow> io_fail DecodeFailed
       | Some hdr \<Rightarrow>
           io_bind (read_exact (unat (uh_len hdr)))
             (\<lambda>d. io_return \<lparr>ut_from = uh_from hdr, ut_data = d\<rparr>))"

section \<open>Reading one kind of message\<close>

fun hello_version :: "hello \<Rightarrow> u8" where
  "hello_version (ControlChannelHello v _) = v"
| "hello_version (DataChannelHello v _) = v"
| "hello_version (VisitorHello v _) = v"

definition read_hello :: "bincode \<Rightarrow> hello io" where
  "read_hello bc =
     io_bind (read_packet_message bc) (\<lambda>m. case m of
       MHello h \<Rightarrow>
         if hello_version h \<noteq> CURRENT_PROTO_VERSION then io_fail VersionMismatch else io_return h
     | _ \<Rightarrow> io_fail UnexpectedMessage)"

definition read_auth :: "bincode \<Rightarrow> digest io" where
  "read_auth bc = io_bind (read_packet_message bc)
     (\<lambda>m. case m of MAuth d \<Rightarrow> io_return d | _ \<Rightarrow> io_fail UnexpectedMessage)"

definition read_ack :: "bincode \<Rightarrow> ack io" where
  "read_ack bc = io_bind (read_packet_message bc)
     (\<lambda>m. case m of MAck a \<Rightarrow> io_return a | _ \<Rightarrow> io_fail UnexpectedMessage)"

definition read_control_cmd :: "bincode \<Rightarrow> control_channel_cmd io" where
  "read_control_cmd bc = io_bind (read_packet_message bc)
     (\<lambda>m. case m of MControl x \<Rightarrow> io_return x | _ \<Rightarrow> io_fail UnexpectedMessage)"

definition read_data_cmd :: "bincode \<Rightarrow> data_channel_cmd io" where
  "read_data_cmd bc = io_bind (read_packet_message bc)
     (\<lambda>m. case m of MDataCommand x \<Rightarrow> io_return x | _ \<Rightarrow> io_fail UnexpectedMessage)"

definition write_visitor_auth :: "bincode \<Rightarrow> visitor_auth \<Rightarrow> unit io" where
  "write_visitor_auth bc a = write_packet_message bc (MVisitorAuth a)"

definition read_visitor_auth :: "bincode \<Rightarrow> visitor_auth io" where
  "read_visitor_auth bc = io_bind (read_packet_message bc)
     (\<lambda>m. case m of MVisitorAuth a \<Rightarrow> io_return a | _ \<Rightarrow> io_fail UnexpectedMessage)"

definition read_visitor_ack :: "bincode \<Rightarrow> visitor_ack io" where
  "read_visitor_ack bc = io_bind (read_packet_message bc)
     (\<lambda>m. case m of MVisitorAck a \<Rightarrow> io_return a | _ \<Rightarrow> io_fail UnexpectedMessage)"

section \<open>The frame codec\<close>

text \<open>
  The bytes of a frame and the parser of one frame, as functions on byte strings; they are an
  instance of the codec interface, so sequences of frames can be read back.
\<close>

definition frame :: "bytes \<Rightarrow> bytes" where
  "frame bs = u32_to_be_bytes (of_nat (length bs)) @ bs"

definition unframe :: "bytes \<Rightarrow> (bytes \<times> bytes) option" where
  "unframe s =
     (if length s < 4 then None
      else (let n = unat (u32_from_be_bytes (take 4 s))
            in if length s - 4 < n then None else Some (take n (drop 4 s), drop (4 + n) s)))"

lemma unat_of_nat_u32: "n < 2 ^ 32 \<Longrightarrow> unat (of_nat n :: u32) = n"
  by (simp add: unat_of_nat take_bit_nat_eq_self)

interpretation frame_codec: stream_codec frame unframe "\<lambda>bs. length bs < 2 ^ 32"
  by unfold_locales (simp add: frame_def unframe_def unat_of_nat_u32)

lemma read_framed_packet_unframe:
  "read_framed_packet c = (case unframe (inp c) of
     Some (bs, r) \<Rightarrow> (Inr bs, c\<lparr>inp := r\<rparr>) | None \<Rightarrow> (Inl UnexpectedEof, c\<lparr>inp := []\<rparr>))"
  by (auto simp: read_framed_packet_def io_bind_def read_exact_def unframe_def Let_def not_le
      add.commute)

lemma write_framed_packet_frame:
  "4 + length bs \<le> room c \<Longrightarrow>
   write_framed_packet bs c = (Inr (), c\<lparr>out := out c @ frame bs, room := room c - length (frame bs)\<rparr>)"
  by (simp add: write_framed_packet_def io_bind_def write_all_def frame_def)

text \<open>What the program relies on in the serialisation library.\<close>

definition bincode_ok :: "bincode \<Rightarrow> bool" where
  "bincode_ok bc \<longleftrightarrow>
     (\<forall>m. bc_de bc (bc_ser bc m) = Some m) \<and>
     (\<forall>h. bc_de_hdr bc (bc_ser_hdr bc h) = Some h) \<and> (\<forall>h. length (bc_ser_hdr bc h) < 256)"

text \<open>The bytes of a message on the wire; a message has to fit into a frame.\<close>

definition wire :: "bincode \<Rightarrow> packet_message \<Rightarrow> bytes" where
  "wire bc m = frame (bc_ser bc m)"

definition fits :: "bincode \<Rightarrow> packet_message \<Rightarrow> bool" where
  "fits bc m \<longleftrightarrow> length (bc_ser bc m) < 2 ^ 32"

lemma read_wire:
  assumes "bincode_ok bc" and "fits bc m" and "inp c = wire bc m @ r"
  shows "read_packet_message bc c = (Inr m, c\<lparr>inp := r\<rparr>)"
  using assms frame_codec.roundtrip [of "bc_ser bc m" r]
  by (simp add: read_packet_message_def io_bind_def read_framed_packet_unframe wire_def fits_def
      decode_packet_message_def bincode_ok_def)

lemma write_wire:
  assumes "length (wire bc m) \<le> room c"
  shows "write_packet_message bc m c =
    (Inr (), c\<lparr>out := out c @ wire bc m, room := room c - length (wire bc m)\<rparr>)"
  using assms write_framed_packet_frame [of "bc_ser bc m" c]
  by (simp add: write_packet_message_def wire_def encode_packet_message_def frame_def)

lemma write_wire_fail:
  assumes "room c < length (wire bc m)"
  shows "fst (write_packet_message bc m c) = Inl BrokenPipe"
  using assms
  by (auto simp: write_packet_message_def wire_def encode_packet_message_def frame_def
      write_framed_packet_def io_bind_def write_all_def)

section \<open>A stand-in for the serialisation library\<close>

text \<open>
  A serialisation that satisfies \<open>bincode_ok\<close>, to evaluate the model on concrete inputs: a tag
  per constructor, numbers in big-endian order, byte strings with a continuation mark before
  every byte.
\<close>

fun demo_bytes :: "bytes \<Rightarrow> bytes" where
  "demo_bytes [] = [0]"
| "demo_bytes (b # bs) = 1 # b # demo_bytes bs"

fun undemo_bytes :: "bytes \<Rightarrow> (bytes \<times> bytes) option" where
  "undemo_bytes (m # b # r) =
     (if m = 0 then Some ([], b # r) else map_option (\<lambda>(bs, r'). (b # bs, r')) (undemo_bytes r))"
| "undemo_bytes [m] = (if m = 0 then Some ([], []) else None)"
| "undemo_bytes [] = None"

lemma undemo_bytes_roundtrip: "undemo_bytes (demo_bytes bs @ r) = Some (bs, r)"
  by (induction bs) (simp, cases r, simp_all)

lemma length_demo_bytes: "length (demo_bytes bs) = 2 * length bs + 1"
  by (induction bs) simp_all

interpretation demo_bytes_codec: stream_codec demo_bytes undemo_bytes "\<lambda>_. True"
  by unfold_locales (rule undemo_bytes_roundtrip)

fun demo_addr :: "sock_addr \<Rightarrow> bytes" where
  "demo_addr (V4 ip port) = 0 # to_be 4 (unat ip) @ to_be 2 (unat port)"
| "demo_addr (V6 ip port flow scope) =
     1 # to_be 16 (unat ip) @ to_be 2 (unat port) @ to_be 4 (unat flow) @ to_be 4 (unat scope)"

definition undemo_addr :: "bytes \<Rightarrow> sock_addr" where
  "undemo_addr bs =
     (if hd bs = 0 then V4 (of_nat (from_be (take 4 (tl bs)))) (of_nat (from_be (take 2 (drop 4 (tl bs)))))
      else V6 (of_nat (from_be (take 16 (tl bs)))) (of_nat (from_be (take 2 (drop 16 (tl bs)))))
        (of_nat (from_be (take 4 (drop 18 (tl bs))))) (of_nat (from_be (take 4 (drop 22 (tl bs))))))"

lemma undemo_addr_roundtrip: "undemo_addr (demo_addr a @ r) = a"
  by (cases a) (simp_all add: undemo_addr_def from_be_to_be of_nat_unat_mod
      [where 'a = 32, simplified] of_nat_unat_mod [where 'a = 16, simplified]
      of_nat_unat_mod [where 'a = 128, simplified])

definition demo_string :: "string \<Rightarrow> bytes" where
  "demo_string s = demo_bytes (map (\<lambda>c. of_nat (of_char c)) s)"

definition undemo_string :: "bytes \<Rightarrow> string" where
  "undemo_string bs = map (\<lambda>b. char_of (unat b)) bs"

lemma undemo_string_roundtrip: "undemo_string (map (\<lambda>c. of_nat (of_char c)) s) = s"
proof -
  have "char_of (unat (of_nat (of_char c) :: u8)) = c" for c
    by (simp only: unat_of_nat_u8) (simp add: of_char_mod_256)
  then show ?thesis by (simp add: undemo_string_def comp_def)
qed

fun demo_hello :: "hello \<Rightarrow> bytes" where
  "demo_hello (ControlChannelHello v d) = [0, v] @ demo_bytes d"
| "demo_hello (DataChannelHello v d) = [1, v] @ demo_bytes d"
| "demo_hello (VisitorHello v d) = [2, v] @ demo_bytes d"

fun demo_service_type :: "service_type \<Rightarrow> u8" where
  "demo_service_type ServiceTcp = 0"
| "demo_service_type ServiceUdp = 1"

fun demo_visitor_ack :: "visitor_ack \<Rightarrow> u8" where
  "demo_visitor_ack VisitorOk = 0"
| "demo_visitor_ack VisitorAuthFailed = 1"
| "demo_visitor_ack VisitorPortDenied = 2"
| "demo_visitor_ack VisitorBindError = 3"

fun demo_ack :: "ack \<Rightarrow> u8" where
  "demo_ack AckOk = 0"
| "demo_ack AckServiceNotExist = 1"
| "demo_ack AckAuthFailed = 2"

definition demo_forward :: "forward_addr \<Rightarrow> bytes" where
  "demo_forward a = (if fa_is_ipv6 a then 1 else 0) # to_be 2 (unat (fa_port a)) @ demo_bytes (fa_ip a)"

definition undemo_forward :: "bytes \<Rightarrow> forward_addr option" where
  "undemo_forward bs =
     map_option (\<lambda>(ip, _). \<lparr>fa_ip = ip, fa_port = of_nat (from_be (take 2 (tl bs))), fa_is_ipv6 = hd bs = 1\<rparr>)
       (undemo_bytes (drop 3 bs))"

fun demo_ser :: "packet_message \<Rightarrow> bytes" where
  "demo_ser (MHello h) = 0 # demo_hello h"
| "demo_ser (MVisitorAuth a) =
     1 # demo_service_type (va_service_type a) # demo_bytes (va_token_digest a) @ demo_string (va_bind_addr a)"
| "demo_ser (MVisitorAck a) = [2, demo_visitor_ack a]"
| "demo_ser (MAuth d) = 3 # demo_bytes d"
| "demo_ser (MAck a) = [4, demo_ack a]"
| "demo_ser (MControl x) = [5, case x of CreateDataChannel \<Rightarrow> 0 | HeartBeat \<Rightarrow> 1]"
| "demo_ser (MDataCommand (StartForwardTcp a)) = [6, 0] @ demo_forward a"
| "demo_ser (MDataCommand (StartForwardUdp a)) = [6, 1] @ demo_forward a"
| "demo_ser (MTcpChunk d) = 7 # demo_bytes d"
| "demo_ser (MUdpPacket a d) = 8 # demo_bytes d @ demo_addr a"

definition demo_de :: "bytes \<Rightarrow> packet_message option" where
  "demo_de bs =
     (let t = bs ! 0; x = bs ! 1; r = drop 2 bs
      in if t = 0 then
           map_option (\<lambda>(d, _). MHello
             (if x = 0 then ControlChannelHello (hd r) d
              else if x = 1 then DataChannelHello (hd r) d else VisitorHello (hd r) d))
             (undemo_bytes (tl r))
         else if t = 1 then
           Option.bind (undemo_bytes r) (\<lambda>(d, r'). map_option (\<lambda>(s, _). MVisitorAuth
             \<lparr>va_token_digest = d, va_bind_addr = undemo_string s,
              va_service_type = (if x = 0 then ServiceTcp else ServiceUdp)\<rparr>) (undemo_bytes r'))
         else if t = 2 then
           Some (MVisitorAck (if x = 0 then VisitorOk else if x = 1 then VisitorAuthFailed
             else if x = 2 then VisitorPortDenied else VisitorBindError))
         else if t = 3 then map_option (\<lambda>(d, _). MAuth d) (undemo_bytes (tl bs))
         else if t = 4 then
           Some (MAck (if x = 0 then AckOk else if x = 1 then AckServiceNotExist else AckAuthFailed))
         else if t = 5 then Some (MControl (if x = 0 then CreateDataChannel else HeartBeat))
         else if t = 6 then
           map_option (\<lambda>a. MDataCommand (if x = 0 then StartForwardTcp a else StartForwardUdp a))
             (undemo_forward r)
         else if t = 7 then map_option (\<lambda>(d, _). MTcpChunk d) (undemo_bytes (tl bs))
         else map_option (\<lambda>(d, r'). MUdpPacket (undemo_addr r') d) (undemo_bytes (tl bs)))"

lemma undemo_bytes_plain [simp]: "undemo_bytes (demo_bytes bs) = Some (bs, [])"
  using undemo_bytes_roundtrip [of bs "[]"] by simp

lemma undemo_addr_plain [simp]: "undemo_addr (demo_addr a) = a"
  using undemo_addr_roundtrip [of a "[]"] by simp

lemma undemo_forward_roundtrip [simp]: "undemo_forward (demo_forward a) = Some a"
proof -
  have "drop 3 (demo_forward a) = demo_bytes (fa_ip a)" "take 2 (tl (demo_forward a)) = to_be 2 (unat (fa_port a))"
    by (simp_all add: demo_forward_def)
  moreover have "hd (demo_forward a) = 1 \<longleftrightarrow> fa_is_ipv6 a" by (simp add: demo_forward_def)
  ultimately show ?thesis
    by (simp add: undemo_forward_def from_be_to_be of_nat_unat_mod [where 'a = 16, simplified])
qed

lemma demo_de_ser: "demo_de (demo_ser m) = Some m"
proof (cases m)
  case (MHello h)
  then show ?thesis by (cases h) (simp_all add: demo_de_def)
next
  case (MVisitorAuth a)
  then show ?thesis
    by (cases "va_service_type a")
      (simp_all add: demo_de_def undemo_bytes_roundtrip demo_string_def undemo_string_roundtrip)
next
  case (MVisitorAck a)
  then show ?thesis by (cases a) (simp_all add: demo_de_def)
next
  case (MAuth d)
  then show ?thesis by (simp add: demo_de_def)
next
  case (MAck a)
  then show ?thesis by (cases a) (simp_all add: demo_de_def)
next
  case (MControl x)
  then show ?thesis by (cases x) (simp_all add: demo_de_def)
next
  case (MDataCommand x)
  then show ?thesis by (cases x) (simp_all add: demo_de_def)
next
  case (MTcpChunk d)
  then show ?thesis by (simp add: demo_de_def)
next
  case (MUdpPacket a d)
  then show ?thesis by (simp add: demo_de_def undemo_bytes_roundtrip)
qed

definition demo_hdr :: "udp_header \<Rightarrow> bytes" where
  "demo_hdr h = to_be 2 (unat (uh_len h)) @ demo_addr (uh_from h)"

definition undemo_hdr :: "bytes \<Rightarrow> udp_header option" where
  "undemo_hdr bs = Some \<lparr>uh_from = undemo_addr (drop 2 bs), uh_len = of_nat (from_be (take 2 bs))\<rparr>"

definition demo_bincode :: bincode where
  "demo_bincode = \<lparr>bc_ser = demo_ser, bc_de = demo_de, bc_ser_hdr = demo_hdr, bc_de_hdr = undemo_hdr\<rparr>"

lemma demo_bincode_ok: "bincode_ok demo_bincode"
proof -
  have "length (demo_hdr h) < 256" for h by (cases "uh_from h") (simp_all add: demo_hdr_def)
  moreover have "undemo_hdr (demo_hdr h) = Some h" for h
    by (simp add: undemo_hdr_def demo_hdr_def from_be_to_be of_nat_unat_mod [where 'a = 16, simplified])
  ultimately show ?thesis by (simp add: bincode_ok_def demo_bincode_def demo_de_ser)
qed

section \<open>Properties\<close>

text \<open>A sequence of messages written to a connection, and a number of messages read from one.\<close>

fun write_messages :: "bincode \<Rightarrow> packet_message list \<Rightarrow> unit io" where
  "write_messages bc [] = io_return ()"
| "write_messages bc (m # ms) = io_bind (write_packet_message bc m) (\<lambda>_. write_messages bc ms)"

fun read_messages :: "bincode \<Rightarrow> nat \<Rightarrow> packet_message list io" where
  "read_messages bc 0 = io_return []"
| "read_messages bc (Suc n) =
     io_bind (read_packet_message bc) (\<lambda>m. io_bind (read_messages bc n) (\<lambda>ms. io_return (m # ms)))"

lemma write_messages_out:
  "fst (write_messages bc ms c) = Inr () \<Longrightarrow>
   out (snd (write_messages bc ms c)) = out c @ concat (map (wire bc) ms)"
proof (induction ms arbitrary: c)
  case (Cons m ms)
  show ?case
  proof (cases "length (wire bc m) \<le> room c")
    case True
    with Cons show ?thesis by (simp add: io_bind_def write_wire)
  next
    case False
    then show ?thesis
      using Cons.prems write_wire_fail [of c bc m]
      by (cases "write_packet_message bc m c") (simp add: io_bind_def)
  qed
qed (simp add: io_return_def)

lemma read_messages_wire:
  "bincode_ok bc \<Longrightarrow> \<forall>m \<in> set ms. fits bc m \<Longrightarrow> inp c = concat (map (wire bc) ms) @ r \<Longrightarrow>
   read_messages bc (length ms) c = (Inr ms, c\<lparr>inp := r\<rparr>)"
proof (induction ms arbitrary: c)
  case (Cons m ms)
  then have "read_packet_message bc c = (Inr m, c\<lparr>inp := concat (map (wire bc) ms) @ r\<rparr>)"
    by (intro read_wire) simp_all
  with Cons show ?case by (simp add: io_bind_def io_return_def)
qed (simp add: io_return_def)

text \<open>
  Messages arrive as they were written. Whatever sequence of messages one end manages to
  write, the other end reads back that sequence, in order, and the bytes that follow are left
  for the data phase.
\<close>

theorem message_stream_roundtrip:
  assumes "bincode_ok bc" and "\<forall>m \<in> set ms. fits bc m"
    and "write_messages bc ms c = (Inr (), c')" and "out c = []" and "inp d = out c' @ rest"
  shows "read_messages bc (length ms) d = (Inr ms, d\<lparr>inp := rest\<rparr>)"
  using write_messages_out [of bc ms c] assms by (intro read_messages_wire) simp_all

definition demo_conn :: "bytes \<Rightarrow> conn" where
  "demo_conn bs = \<lparr>inp = bs, out = [], room = 1000000, nack_mode = False, hints = []\<rparr>"

theorem message_stream_roundtrip_witness:
  "\<exists>c'. write_messages demo_bincode [MAck AckOk, MAuth [1, 2]] (demo_conn []) = (Inr (), c') \<and>
     read_messages demo_bincode 2 (demo_conn (out c' @ [9])) =
       (Inr [MAck AckOk, MAuth [1, 2]], (demo_conn (out c' @ [9]))\<lparr>inp := [9]\<rparr>)"
proof -
  let ?ms = "[MAck AckOk, MAuth [1, 2]]"
  have fit: "\<forall>m \<in> set ?ms. fits demo_bincode m" by (simp add: fits_def demo_bincode_def)
  obtain c' where w: "write_messages demo_bincode ?ms (demo_conn []) = (Inr (), c')"
    by (simp add: io_bind_def write_wire demo_conn_def wire_def frame_def demo_bincode_def io_return_def)
  have "inp (demo_conn (out c' @ [9])) = out c' @ [9]" by (simp add: demo_conn_def)
  from message_stream_roundtrip [OF demo_bincode_ok fit w _ this] w show ?thesis
    by (auto simp: demo_conn_def numeral_2_eq_2)
qed

lemma truncated_read:
  assumes "fits bc m" and "k < length (wire bc m)" and "inp c = take k (wire bc m)"
  shows "fst (read_packet_message bc c) = Inl UnexpectedEof"
proof -
  have len: "unat (of_nat (length (bc_ser bc m)) :: u32) = length (bc_ser bc m)"
    using assms(1) by (simp add: fits_def unat_of_nat_u32)
  have "unframe (take k (wire bc m)) = None"
  proof (cases "k < 4")
    case False
    then have "take 4 (take k (wire bc m)) = u32_to_be_bytes (of_nat (length (bc_ser bc m)))"
      by (simp add: wire_def frame_def min_def)
    with False assms(2) len show ?thesis by (auto simp: unframe_def Let_def wire_def frame_def)
  qed (simp add: unframe_def min_less_iff_disj)
  with assms(3) show ?thesis
    by (simp add: read_packet_message_def io_bind_def read_framed_packet_unframe)
qed

text \<open>
  C24: a cut-off message is never mistaken for another. If the connection ends anywhere inside a
  message, reading it fails with an unexpected end of file.
\<close>

theorem truncated_message_rejected:
  assumes "fits bc m" and "k < length (wire bc m)" and "inp c = take k (wire bc m)"
  shows "fst (read_packet_message bc c) = Inl UnexpectedEof"
  by (rule truncated_read [OF assms])

theorem truncated_message_rejected_witness:
  "fst (read_packet_message demo_bincode (demo_conn (take 5 (wire demo_bincode (MAck AckOk))))) =
     Inl UnexpectedEof"
  by (rule truncated_message_rejected [where m = "MAck AckOk" and k = 5])
    (simp_all add: fits_def demo_bincode_def wire_def frame_def demo_conn_def)

text \<open>
  The first message decides by kind and version. On a connection that starts with a
  well-formed message, \<open>read_hello\<close> returns it exactly when it is a hello of the current
  protocol version; a hello of another version and a message of another kind are told apart.
\<close>

theorem read_hello_exact:
  assumes "bincode_ok bc" and "fits bc m" and "inp c = wire bc m @ rest"
  shows "read_hello bc c =
    (case m of
       MHello h \<Rightarrow> if hello_version h = 1 then Inr h else Inl VersionMismatch
     | _ \<Rightarrow> Inl UnexpectedMessage, c\<lparr>inp := rest\<rparr>)"
  using read_wire [OF assms]
  by (auto simp: read_hello_def io_bind_def io_fail_def io_return_def CURRENT_PROTO_VERSION_def
      split: packet_message.splits)

theorem read_hello_exact_witness:
  "fst (read_hello demo_bincode (demo_conn (wire demo_bincode (MHello (DataChannelHello 1 [7]))))) =
     Inr (DataChannelHello 1 [7])"
proof -
  have "fits demo_bincode (MHello (DataChannelHello 1 [7]))" by (simp add: fits_def demo_bincode_def)
  from read_hello_exact [OF demo_bincode_ok this, of _ "[]"] show ?thesis by (simp add: demo_conn_def)
qed

text \<open>The bytes of a datagram on the stream.\<close>

definition udp_wire :: "bincode \<Rightarrow> udp_traffic \<Rightarrow> bytes" where
  "udp_wire bc t = (let v = bc_ser_hdr bc \<lparr>uh_from = ut_from t, uh_len = of_nat (length (ut_data t))\<rparr>
     in of_nat (length v) # v @ ut_data t)"

lemma read_udp_wire:
  assumes "bincode_ok bc" and "length (ut_data t) < 2 ^ 16" and "inp d = udp_wire bc t @ rest"
  shows "io_bind read_u8 (udp_traffic_read bc) d = (Inr t, d\<lparr>inp := rest\<rparr>)"
proof -
  let ?v = "bc_ser_hdr bc \<lparr>uh_from = ut_from t, uh_len = of_nat (length (ut_data t))\<rparr>"
  have v: "length ?v < 256" "bc_de_hdr bc ?v = Some \<lparr>uh_from = ut_from t, uh_len = of_nat (length (ut_data t))\<rparr>"
    using assms(1) by (simp_all add: bincode_ok_def)
  have u8: "unat (of_nat (length ?v) :: u8) = length ?v"
    using v(1) by (simp add: unat_of_nat take_bit_nat_eq_self)
  have u16: "unat (of_nat (length (ut_data t)) :: u16) = length (ut_data t)"
    using assms(2) by (simp add: unat_of_nat take_bit_nat_eq_self)
  from assms(3) show ?thesis
    by (simp add: udp_wire_def Let_def io_bind_def read_u8_def read_exact_def io_return_def udp_traffic_read_def u8 v(2) u16)
qed



text \<open>
  The address of a visitor survives the conversion to the wire form and back; only the flow
  information and the scope of an IPv6 address are lost.
\<close>

theorem forward_addr_roundtrip:
  "sock_addr_from (forward_addr_from a) =
     (case a of V4 ip port \<Rightarrow> V4 ip port | V6 ip port _ _ \<Rightarrow> V6 ip port 0 0) \<and>
   length (fa_ip (forward_addr_from a)) = 16"
  by (cases a) (simp_all add: sock_addr_from_def octets4_def octets16_def ipv4_from_def ipv6_from_def
      from_be_to_be of_nat_unat_mod [where 'a = 128, simplified])

end
