(* ===== verification/Server_Channel.thy ===== *)
theory Server_Channel
  imports Protocol "HOL-Library.Sublist"
begin

text \<open>
  One control channel on the server, src/src/server.rs from \<open>ControlChannelHandle\<close> on: the tasks
  that \<open>ControlChannelHandle::new\<close> spawns and the queues between them. The handle itself only
  holds the sending ends of two channels; dropping it is \<open>drop_handle\<close>.

  A task advances in turns, each one branch of its \<open>select!\<close> or one iteration of its loop. A turn
  that cannot run in a state, because its queue is empty or its task has ended, is \<open>None\<close>. The
  system's part of a turn (what \<open>accept\<close> or \<open>recv_from\<close> returned, whether the listener could be
  bound) is an argument.
\<close>

section \<open>State\<close>

definition TCP_POOL_SIZE :: nat where
  "TCP_POOL_SIZE = 8"

definition UDP_POOL_SIZE :: nat where
  "UDP_POOL_SIZE = 2"

definition CHAN_SIZE :: nat where
  "CHAN_SIZE = 2048"

definition UDP_BUFFER_SIZE :: nat where
  "UDP_BUFFER_SIZE = 2048"

text \<open>A visitor's connection: what \<open>peer_addr\<close> returns on it, and a number to tell visitors apart.\<close>

record visitor =
  vi_id :: nat
  vi_peer :: "sock_addr option"

text \<open>
  The listener task of a TCP service: binding, accepting, waiting for room in the queue of
  visitors with one visitor in hand, or ended. The pool task: waiting for a visitor, waiting for
  a data channel for one, or ended.
\<close>

datatype listener = LBinding | LAccepting | LSending visitor | LEnded

datatype tcp_pool_task = PIdle | PServing visitor | PEnded

record tcp_pool =
  tp_listener :: listener
  tp_visitors :: "visitor list"
  tp_task :: tcp_pool_task
  tp_forwards :: "(conn \<times> visitor) list"

text \<open>The pool task of a UDP service, with the datagrams its socket has sent.\<close>

datatype udp_pool_task = UBinding | UWaiting | UForwarding conn | UEnded

record udp_pool =
  up_task :: udp_pool_task
  up_sent :: "(sock_addr \<times> bytes) list"

datatype pool = TcpPool tcp_pool | UdpPool udp_pool

text \<open>
  The queues and tasks of a control channel: the queue of data channels and of requests for data
  channels, whether the handle has been dropped, and whether the control task still runs.
\<close>

record session =
  se_conn :: conn
  se_heartbeat :: u64
  se_req :: nat
  se_data :: "conn list"
  se_dropped :: bool
  se_ctl :: bool
  se_pool :: pool

definition pool_size :: "service_type \<Rightarrow> nat" where
  "pool_size t = (case t of ServiceTcp \<Rightarrow> TCP_POOL_SIZE | ServiceUdp \<Rightarrow> UDP_POOL_SIZE)"

definition control_channel_handle_new :: "conn \<Rightarrow> server_service_config \<Rightarrow> u64 \<Rightarrow> session" where
  "control_channel_handle_new c service heartbeat_interval =
     \<lparr>se_conn = c, se_heartbeat = heartbeat_interval, se_req = pool_size (ss_type service),
      se_data = [], se_dropped = False, se_ctl = True,
      se_pool = (case ss_type service of
          ServiceTcp \<Rightarrow> TcpPool \<lparr>tp_listener = LBinding, tp_visitors = [], tp_task = PIdle, tp_forwards = []\<rparr>
        | ServiceUdp \<Rightarrow> UdpPool \<lparr>up_task = UBinding, up_sent = []\<rparr>)\<rparr>"

definition drop_handle :: "session \<Rightarrow> session" where
  "drop_handle s = s\<lparr>se_dropped := True\<rparr>"

text \<open>The pool task owns the receiving end of the data channels.\<close>

definition pool_ended :: "session \<Rightarrow> bool" where
  "pool_ended s = (case se_pool s of
     TcpPool p \<Rightarrow> tp_task p = PEnded | UdpPool p \<Rightarrow> up_task p = UEnded)"

text \<open>
  \<open>data_ch_tx.send\<close>: an error once the receiver is gone, \<open>None\<close> (the sender waits) while the
  queue is full.
\<close>

definition send_data_ch :: "conn \<Rightarrow> session \<Rightarrow> ((net_error + unit) \<times> session) option" where
  "send_data_ch c s =
     (if pool_ended s then Some (Inl StaleControlChannel, s)
      else if length (se_data s) < CHAN_SIZE * 2 then Some (Inr (), s\<lparr>se_data := se_data s @ [c]\<rparr>)
      else None)"

text \<open>
  \<open>data_ch_req_tx.send\<close>: fails when the control task, the receiver, has ended. The senders are
  the pool task and, for TCP, the listener.
\<close>

definition send_req :: "session \<Rightarrow> session option" where
  "send_req s = (if se_ctl s then Some (s\<lparr>se_req := Suc (se_req s)\<rparr>) else None)"

definition req_senders_gone :: "session \<Rightarrow> bool" where
  "req_senders_gone s = (case se_pool s of
     TcpPool p \<Rightarrow> tp_task p = PEnded \<and> tp_listener p = LEnded
   | UdpPool p \<Rightarrow> up_task p = UEnded)"

section \<open>The control channel\<close>

text \<open>When its task ends, the connection and the queue of requests are gone.\<close>

definition end_control :: "session \<Rightarrow> session" where
  "end_control s = s\<lparr>se_ctl := False, se_req := 0\<rparr>"

definition write_control_cmd :: "bincode \<Rightarrow> control_channel_cmd \<Rightarrow> unit io" where
  "write_control_cmd bc cmd = write_packet_message bc (MControl cmd)"

datatype control_branch = DataRequest | HeartBeatTimer | ShutdownSignal

definition control_send :: "bincode \<Rightarrow> control_channel_cmd \<Rightarrow> session \<Rightarrow> session" where
  "control_send bc cmd s =
     (case write_control_cmd bc cmd (se_conn s) of
        (Inr _, c) \<Rightarrow> s\<lparr>se_conn := c\<rparr>
      | (Inl e, c) \<Rightarrow> end_control (s\<lparr>se_conn := c\<rparr>))"

definition control_channel_turn :: "bincode \<Rightarrow> control_branch \<Rightarrow> session \<Rightarrow> session option" where
  "control_channel_turn bc branch s =
     (if \<not> se_ctl s then None
      else (case branch of
              DataRequest \<Rightarrow>
                (case se_req s of
                   Suc n \<Rightarrow> Some (control_send bc CreateDataChannel (s\<lparr>se_req := n\<rparr>))
                 | 0 \<Rightarrow> if req_senders_gone s then Some (end_control s) else None)
            | HeartBeatTimer \<Rightarrow>
                if se_heartbeat s \<noteq> 0 then Some (control_send bc HeartBeat s) else None
            | ShutdownSignal \<Rightarrow> if se_dropped s then Some (end_control s) else None))"

section \<open>TCP services\<close>

text \<open>
  \<open>tcp_listen_and_send\<close>. Binding is retried until it succeeds, the retry policy gives up or the
  shutdown signal arrives; an error of \<open>accept\<close> is waited out.
\<close>

datatype listen_branch =
    BindDone bool | Accepted visitor | AcceptError | QueueReady | ListenerShutdown

definition listener_turn :: "listen_branch \<Rightarrow> tcp_pool \<Rightarrow> session \<Rightarrow> session option" where
  "listener_turn branch p s =
     (case (tp_listener p, branch) of
        (LBinding, BindDone ok) \<Rightarrow>
          Some (s\<lparr>se_pool := TcpPool (p\<lparr>tp_listener := if ok then LAccepting else LEnded\<rparr>)\<rparr>)
      | (LBinding, ListenerShutdown) \<Rightarrow>
          if se_dropped s then Some (s\<lparr>se_pool := TcpPool (p\<lparr>tp_listener := LEnded\<rparr>)\<rparr>) else None
      | (LAccepting, Accepted v) \<Rightarrow>
          Some (case send_req s of
                  None \<Rightarrow> s\<lparr>se_pool := TcpPool (p\<lparr>tp_listener := LEnded\<rparr>)\<rparr>
                | Some s1 \<Rightarrow> s1\<lparr>se_pool := TcpPool (p\<lparr>tp_listener := LSending v\<rparr>)\<rparr>)
      | (LAccepting, AcceptError) \<Rightarrow> Some s
      | (LSending v, QueueReady) \<Rightarrow>
          if tp_task p = PEnded then Some (s\<lparr>se_pool := TcpPool (p\<lparr>tp_listener := LAccepting\<rparr>)\<rparr>)
          else if length (tp_visitors p) < CHAN_SIZE
          then Some (s\<lparr>se_pool := TcpPool (p\<lparr>tp_listener := LAccepting, tp_visitors := tp_visitors p @ [v]\<rparr>)\<rparr>)
          else None
      | (LAccepting, ListenerShutdown) \<Rightarrow>
          if se_dropped s then Some (s\<lparr>se_pool := TcpPool (p\<lparr>tp_listener := LEnded\<rparr>)\<rparr>) else None
      | _ \<Rightarrow> None)"

text \<open>
  The listener as the retried \<open>bind\<close> leaves it: listening, given up, or stopped while it waited. The policy is \<open>listen_backoff\<close>,
  which has no maximal elapsed time, so without the signal the only way on is a listener.
\<close>

definition bind_outcome :: "retry_error + unit \<Rightarrow> listen_branch" where
  "bind_outcome r =
     (case r of Inr _ \<Rightarrow> BindDone True | Inl (GaveUp _) \<Rightarrow> BindDone False | Inl DeadlinePassed \<Rightarrow> ListenerShutdown)"

lemma listener_binds:
  assumes "\<And>b. fst (next_backoff b) \<noteq> None" and "fst (retry_notify_with_deadline next_backoff b steps) = Some r"
    and "DeadlineSignal \<notin> set steps" and "tp_listener p = LBinding"
  shows "listener_turn (bind_outcome r) p s = Some (s\<lparr>se_pool := TcpPool (p\<lparr>tp_listener := LAccepting\<rparr>)\<rparr>)"
proof -
  have "set (dropWhile failed_try steps) \<subseteq> set steps" by (auto dest: set_dropWhileD)
  then have "\<exists>x. r = Inr x"
    using assms(2,3) retry_until_success [of next_backoff b steps, OF assms(1)]
    by (auto split: list.splits retry_step.splits sum.splits)
  with assms(4) show ?thesis by (auto simp: bind_outcome_def listener_turn_def)
qed

text \<open>The end of the pool task drops both receivers.\<close>

definition end_tcp_pool :: "tcp_pool \<Rightarrow> session \<Rightarrow> session" where
  "end_tcp_pool p s =
     s\<lparr>se_data := [], se_pool := TcpPool (p\<lparr>tp_task := PEnded, tp_visitors := []\<rparr>)\<rparr>"

text \<open>The command that starts forwarding for a visitor; an unknown peer is 0.0.0.0:0.\<close>

definition start_forward_tcp :: "visitor \<Rightarrow> packet_message" where
  "start_forward_tcp v =
     MDataCommand (StartForwardTcp (forward_addr_from
       (case vi_peer v of Some a \<Rightarrow> a | None \<Rightarrow> V4 0 0)))"

text \<open>One turn of \<open>run_tcp_connection_pool\<close>: receive a visitor, or try one data channel for it.\<close>

definition tcp_pool_turn :: "bincode \<Rightarrow> tcp_pool \<Rightarrow> session \<Rightarrow> session option" where
  "tcp_pool_turn bc p s =
     (case tp_task p of
        PIdle \<Rightarrow>
          (case tp_visitors p of
             v # vs \<Rightarrow> Some (s\<lparr>se_pool := TcpPool (p\<lparr>tp_task := PServing v, tp_visitors := vs\<rparr>)\<rparr>)
           | [] \<Rightarrow> if tp_listener p = LEnded then Some (end_tcp_pool p s) else None)
      | PServing v \<Rightarrow>
          (case se_data s of
             ch # chs \<Rightarrow>
               (case write_packet_message bc (start_forward_tcp v) ch of
                  (Inr _, ch') \<Rightarrow>
                    Some (s\<lparr>se_data := chs,
                            se_pool := TcpPool (p\<lparr>tp_task := PIdle, tp_forwards := tp_forwards p @ [(ch', v)]\<rparr>)\<rparr>)
                | (Inl e, ch') \<Rightarrow>
                    Some (case send_req (s\<lparr>se_data := chs\<rparr>) of
                            Some s1 \<Rightarrow> s1
                          | None \<Rightarrow> end_tcp_pool p s))
           | [] \<Rightarrow> if se_dropped s then Some (end_tcp_pool p s) else None)
      | PEnded \<Rightarrow> None)"

section \<open>UDP services\<close>

definition end_udp_pool :: "udp_pool \<Rightarrow> session \<Rightarrow> session" where
  "end_udp_pool p s = s\<lparr>se_data := [], se_pool := UdpPool (p\<lparr>up_task := UEnded\<rparr>)\<rparr>"

datatype udp_branch =
    UdpBind bool | UdpConn | UdpRecvFrom "(sock_addr \<times> bytes) option" | UdpFromClient bool | UdpShutdown

text \<open>
  \<open>run_udp_connection_pool\<close>. A datagram is cut to the buffer by \<open>recv_from\<close>. The argument of
  \<open>UdpFromClient\<close> says whether \<open>send_to\<close> succeeds. Every error ends the task.
\<close>

definition udp_pool_turn :: "bincode \<Rightarrow> udp_branch \<Rightarrow> udp_pool \<Rightarrow> session \<Rightarrow> session option" where
  "udp_pool_turn bc branch p s =
     (case (up_task p, branch) of
        (UBinding, UdpBind ok) \<Rightarrow>
          Some (if ok then s\<lparr>se_pool := UdpPool (p\<lparr>up_task := UWaiting\<rparr>)\<rparr> else end_udp_pool p s)
      | (UBinding, UdpShutdown) \<Rightarrow> if se_dropped s then Some (end_udp_pool p s) else None
      | (UWaiting, UdpConn) \<Rightarrow>
          (case se_data s of
             ch # chs \<Rightarrow>
               (case write_packet_message bc (MDataCommand (StartForwardUdp forward_addr_default)) ch of
                  (Inr _, ch') \<Rightarrow>
                    Some (s\<lparr>se_data := chs, se_pool := UdpPool (p\<lparr>up_task := UForwarding ch'\<rparr>)\<rparr>)
                | (Inl e, ch') \<Rightarrow> Some (end_udp_pool p s))
           | [] \<Rightarrow> if se_dropped s then Some (end_udp_pool p s) else None)
      | (UForwarding c, UdpRecvFrom None) \<Rightarrow> Some (end_udp_pool p s)
      | (UForwarding c, UdpRecvFrom (Some (from, d))) \<Rightarrow>
          (case udp_traffic_write_slice bc from (take UDP_BUFFER_SIZE d) c of
             (Inr _, c') \<Rightarrow> Some (s\<lparr>se_pool := UdpPool (p\<lparr>up_task := UForwarding c'\<rparr>)\<rparr>)
           | (Inl e, c') \<Rightarrow> Some (end_udp_pool p s))
      | (UForwarding c, UdpFromClient sent) \<Rightarrow>
          (case io_bind read_u8 (udp_traffic_read bc) c of
             (Inr t, c') \<Rightarrow>
               Some (if sent
                     then s\<lparr>se_pool := UdpPool (p\<lparr>up_task := UForwarding c',
                                                  up_sent := up_sent p @ [(ut_from t, ut_data t)]\<rparr>)\<rparr>
                     else end_udp_pool p s)
           | (Inl e, c') \<Rightarrow> Some (end_udp_pool p s))
      | (UForwarding c, UdpShutdown) \<Rightarrow> if se_dropped s then Some (end_udp_pool p s) else None
      | _ \<Rightarrow> None)"

section \<open>Runs of a session\<close>

datatype session_event =
    Ctl control_branch
  | Listen listen_branch
  | TcpPoolTurn
  | UdpPoolTurn udp_branch
  | DataChannel conn
  | HandleDropped

definition session_turn :: "bincode \<Rightarrow> session_event \<Rightarrow> session \<Rightarrow> session option" where
  "session_turn bc ev s =
     (case ev of
        Ctl b \<Rightarrow> control_channel_turn bc b s
      | Listen b \<Rightarrow> (case se_pool s of TcpPool p \<Rightarrow> listener_turn b p s | UdpPool _ \<Rightarrow> None)
      | TcpPoolTurn \<Rightarrow> (case se_pool s of TcpPool p \<Rightarrow> tcp_pool_turn bc p s | UdpPool _ \<Rightarrow> None)
      | UdpPoolTurn b \<Rightarrow> (case se_pool s of UdpPool p \<Rightarrow> udp_pool_turn bc b p s | TcpPool _ \<Rightarrow> None)
      | DataChannel c \<Rightarrow> if se_dropped s then None else map_option snd (send_data_ch c s)
      | HandleDropped \<Rightarrow> if se_dropped s then None else Some (drop_handle s))"

inductive session_run :: "bincode \<Rightarrow> session \<Rightarrow> session_event list \<Rightarrow> session \<Rightarrow> bool"
  for bc :: bincode and s0 :: session where
  run_start: "session_run bc s0 [] s0"
| run_turn: "session_run bc s0 evs s \<Longrightarrow> session_turn bc ev s = Some s' \<Longrightarrow>
    session_run bc s0 (evs @ [ev]) s'"

text \<open>What a run has done, read off its events.\<close>

fun accepted_of :: "session_event \<Rightarrow> visitor list" where
  "accepted_of (Listen (Accepted v)) = [v]"
| "accepted_of _ = []"

definition accepted :: "session_event list \<Rightarrow> visitor list" where
  "accepted evs = concat (map accepted_of evs)"

definition created :: "session_event list \<Rightarrow> nat" where
  "created evs = count_list evs (Ctl DataRequest)"

definition received :: "session_event list \<Rightarrow> nat" where
  "received evs = length (filter (\<lambda>ev. case ev of DataChannel _ \<Rightarrow> True | _ \<Rightarrow> False) evs)"

lemma trace_simps [simp]:
  "accepted [] = []" "accepted (evs @ [ev]) = accepted evs @ accepted_of ev"
  "created [] = 0" "created (evs @ [ev]) = created evs + (if ev = Ctl DataRequest then 1 else 0)"
  "received [] = 0"
  "received (evs @ [ev]) = received evs + (case ev of DataChannel _ \<Rightarrow> 1 | _ \<Rightarrow> 0)"
  by (simp_all add: accepted_def created_def received_def split: session_event.splits)

text \<open>The visitors inside a TCP pool, first come first.\<close>

definition waiting :: "tcp_pool \<Rightarrow> visitor list" where
  "waiting p =
     (case tp_task p of PServing v \<Rightarrow> [v] | _ \<Rightarrow> []) @ tp_visitors p @
     (case tp_listener p of LSending v \<Rightarrow> [v] | _ \<Rightarrow> [])"

section \<open>Visitors and data channels of a TCP service\<close>

definition order_ok :: "session_event list \<Rightarrow> tcp_pool \<Rightarrow> bool" where
  "order_ok evs p \<longleftrightarrow>
     prefix (map snd (tp_forwards p)) (accepted evs) \<and>
     (tp_task p \<noteq> PEnded \<longrightarrow> prefix (map snd (tp_forwards p) @ waiting p) (accepted evs)) \<and>
     (tp_task p \<noteq> PEnded \<and> tp_listener p \<noteq> LEnded \<longrightarrow> accepted evs = map snd (tp_forwards p) @ waiting p)"

definition told_ok :: "bincode \<Rightarrow> tcp_pool \<Rightarrow> bool" where
  "told_ok bc p \<longleftrightarrow> (\<forall>(ch, v) \<in> set (tp_forwards p). suffix (wire bc (start_forward_tcp v)) (out ch))"

definition balance_ok :: "session_event list \<Rightarrow> session \<Rightarrow> tcp_pool \<Rightarrow> bool" where
  "balance_ok evs s p \<longleftrightarrow>
     (se_ctl s \<and> tp_task p \<noteq> PEnded \<longrightarrow>
        created evs + se_req s + length (tp_forwards p) + length (se_data s) =
        TCP_POOL_SIZE + length (accepted evs) + received evs)"

definition tcp_inv :: "bincode \<Rightarrow> session_event list \<Rightarrow> session \<Rightarrow> bool" where
  "tcp_inv bc evs s \<longleftrightarrow>
     (case se_pool s of TcpPool p \<Rightarrow> order_ok evs p \<and> told_ok bc p \<and> balance_ok evs s p | UdpPool _ \<Rightarrow> False)"

lemmas tcp_inv_defs = tcp_inv_def order_ok_def told_ok_def balance_ok_def waiting_def

lemma write_suffix:
  "write_packet_message bc m c = (Inr (), c') \<Longrightarrow> suffix (wire bc m) (out c')"
  by (auto simp: write_packet_message_def write_framed_packet_def io_bind_def write_all_def wire_def
      frame_def encode_packet_message_def suffix_def split: prod.splits sum.splits if_splits)

lemma send_req_simps:
  "send_req s = (if se_ctl s then Some (s\<lparr>se_req := Suc (se_req s)\<rparr>) else None)"
  by (simp add: send_req_def)

lemma control_send_fields:
  "se_pool (control_send bc cmd s) = se_pool s" "se_data (control_send bc cmd s) = se_data s"
  "se_dropped (control_send bc cmd s) = se_dropped s"
  "se_ctl (control_send bc cmd s) \<Longrightarrow> se_req (control_send bc cmd s) = se_req s"
  by (auto simp: control_send_def end_control_def split: prod.splits sum.splits unit.splits)

lemma tcp_inv_ctl:
  assumes "tcp_inv bc evs s" and "control_channel_turn bc b s = Some s'"
  shows "tcp_inv bc (evs @ [Ctl b]) s'"
  using assms
  by (auto simp: tcp_inv_defs control_channel_turn_def control_send_fields end_control_def
      split: control_branch.splits nat.splits if_splits pool.splits)

lemma tcp_inv_listen:
  assumes "tcp_inv bc evs s" and "se_pool s = TcpPool p" and "listener_turn b p s = Some s'"
  shows "tcp_inv bc (evs @ [Listen b]) s'"
  using assms
  by (cases "tp_listener p"; cases b)
    (auto simp: tcp_inv_defs listener_turn_def send_req_simps split: if_splits tcp_pool_task.splits
      intro: prefix_order.trans [OF _ prefixI [OF refl]])

lemma tcp_inv_pool:
  assumes inv: "tcp_inv bc evs s" and p: "se_pool s = TcpPool p" and t: "tcp_pool_turn bc p s = Some s'"
  shows "tcp_inv bc (evs @ [TcpPoolTurn]) s'"
proof (cases "tp_task p")
  case PIdle
  with assms show ?thesis
    by (auto simp: tcp_inv_defs tcp_pool_turn_def end_tcp_pool_def split: list.splits if_splits)
next
  case (PServing v)
  show ?thesis
  proof (cases "se_data s")
    case Nil
    with PServing assms show ?thesis
      by (auto simp: tcp_inv_defs tcp_pool_turn_def end_tcp_pool_def split: if_splits)
  next
    case (Cons ch chs)
    obtain r ch' where w: "write_packet_message bc (start_forward_tcp v) ch = (r, ch')"
      by (cases "write_packet_message bc (start_forward_tcp v) ch")
    show ?thesis
    proof (cases r)
      case (Inl e)
      with Cons PServing assms w show ?thesis
        by (auto simp: tcp_inv_defs tcp_pool_turn_def end_tcp_pool_def send_req_simps split: if_splits)
    next
      case (Inr u)
      with w have sfx: "suffix (wire bc (start_forward_tcp v)) (out ch')" by (auto intro: write_suffix)
      have s': "s' = s\<lparr>se_data := chs,
          se_pool := TcpPool (p\<lparr>tp_task := PIdle, tp_forwards := tp_forwards p @ [(ch', v)]\<rparr>)\<rparr>"
        using t PServing Cons w Inr by (simp add: tcp_pool_turn_def)
      have "prefix ((map snd (tp_forwards p) @ [v]) @ tp_visitors p @
          (case tp_listener p of LSending v \<Rightarrow> [v] | _ \<Rightarrow> [])) (accepted evs)"
        using inv p PServing by (simp add: tcp_inv_defs)
      then have "prefix (map snd (tp_forwards p) @ [v]) (accepted evs)" by (rule append_prefixD)
      with inv p PServing Cons sfx show ?thesis unfolding s' by (simp add: tcp_inv_defs)
    qed
  qed
next
  case PEnded
  with t show ?thesis by (simp add: tcp_pool_turn_def)
qed

lemma tcp_inv_turn:
  assumes "tcp_inv bc evs s" and "session_turn bc ev s = Some s'"
  shows "tcp_inv bc (evs @ [ev]) s'"
proof (cases ev)
  case (DataChannel c)
  with assms show ?thesis
    by (auto simp: session_turn_def tcp_inv_defs send_data_ch_def pool_ended_def split: pool.splits if_splits)
next
  case HandleDropped
  with assms show ?thesis
    by (auto simp: session_turn_def tcp_inv_defs drop_handle_def split: pool.splits if_splits)
next
  case (UdpPoolTurn b)
  with assms show ?thesis by (auto simp: session_turn_def tcp_inv_def split: pool.splits)
qed (use assms in \<open>auto simp: session_turn_def split: pool.splits
      intro: tcp_inv_ctl tcp_inv_listen tcp_inv_pool\<close>)

lemma tcp_inv_run:
  assumes "session_run bc (control_channel_handle_new c service hb) evs s" and "ss_type service = ServiceTcp"
  shows "tcp_inv bc evs s"
  using assms
proof (induction rule: session_run.induct)
  case run_start
  then show ?case by (simp add: tcp_inv_defs control_channel_handle_new_def pool_size_def)
qed (blast intro: tcp_inv_turn)

section \<open>Winding down\<close>

text \<open>The turns that need nothing from outside once the handle is gone.\<close>

definition wind_down :: "session_event list" where
  "wind_down = [Ctl ShutdownSignal, Listen ListenerShutdown, Listen QueueReady, TcpPoolTurn,
     UdpPoolTurn UdpShutdown, UdpPoolTurn UdpConn]"

definition all_ended :: "session \<Rightarrow> bool" where
  "all_ended s \<longleftrightarrow> \<not> se_ctl s \<and> req_senders_gone s"

fun listener_weight :: "listener \<Rightarrow> nat" where
  "listener_weight LBinding = 1"
| "listener_weight LAccepting = 1"
| "listener_weight (LSending v) = 4"
| "listener_weight LEnded = 0"

fun tcp_task_weight :: "tcp_pool_task \<Rightarrow> nat" where
  "tcp_task_weight PIdle = 1"
| "tcp_task_weight (PServing v) = 2"
| "tcp_task_weight PEnded = 0"

fun udp_task_weight :: "udp_pool_task \<Rightarrow> nat" where
  "udp_task_weight UBinding = 1"
| "udp_task_weight UWaiting = 1"
| "udp_task_weight (UForwarding c) = 1"
| "udp_task_weight UEnded = 0"

definition work_left :: "session \<Rightarrow> nat" where
  "work_left s = (if se_ctl s then 1 else 0) + length (se_data s) + (case se_pool s of
     TcpPool p \<Rightarrow> listener_weight (tp_listener p) + 2 * length (tp_visitors p) + tcp_task_weight (tp_task p)
   | UdpPool p \<Rightarrow> udp_task_weight (up_task p))"

lemma tcp_pool_turn_work:
  assumes "se_pool s = TcpPool p" and "tcp_pool_turn bc p s = Some s'"
  shows "work_left s' < work_left s \<and> se_dropped s' = se_dropped s"
  using assms
  by (auto simp: tcp_pool_turn_def work_left_def end_tcp_pool_def send_req_def
      split: tcp_pool_task.splits list.splits if_splits prod.splits sum.splits)

lemma udp_pool_turn_work:
  assumes "se_pool s = UdpPool p" and "udp_pool_turn bc b p s = Some s'" and "b = UdpShutdown \<or> b = UdpConn"
  shows "work_left s' < work_left s \<and> se_dropped s' = se_dropped s"
  using assms
  by (auto simp: udp_pool_turn_def work_left_def end_udp_pool_def
      split: udp_pool_task.splits list.splits if_splits prod.splits sum.splits)

lemma wind_down_work:
  assumes "ev \<in> set wind_down" and "session_turn bc ev s = Some s'" and "se_dropped s"
  shows "work_left s' < work_left s \<and> se_dropped s'"
proof -
  consider "ev = Ctl ShutdownSignal" | "ev = Listen ListenerShutdown \<or> ev = Listen QueueReady"
    | "ev = TcpPoolTurn" | b where "ev = UdpPoolTurn b" "b = UdpShutdown \<or> b = UdpConn"
    using assms(1) by (auto simp: wind_down_def)
  then show ?thesis
  proof cases
    case 1
    then show ?thesis
      using assms(2,3) by (auto simp: session_turn_def control_channel_turn_def end_control_def work_left_def
          split: if_splits)
  next
    case 2
    then show ?thesis
      using assms(2,3) by (auto simp: session_turn_def listener_turn_def work_left_def
          split: if_splits pool.splits listener.splits)
  next
    case 3
    then show ?thesis
      using assms(2,3) tcp_pool_turn_work [of s _ bc s'] by (auto simp: session_turn_def split: pool.splits)
  next
    case 4
    then show ?thesis
      using assms(2,3) udp_pool_turn_work [of s _ bc b s'] by (auto simp: session_turn_def split: pool.splits)
  qed
qed

lemma wind_down_progress:
  assumes "se_dropped s" and "\<forall>ev \<in> set wind_down. session_turn bc ev s = None"
  shows "all_ended s"
proof (cases "se_pool s")
  case (TcpPool p)
  with assms show ?thesis
    by (cases "tp_listener p"; cases "tp_task p")
      (auto simp: wind_down_def session_turn_def control_channel_turn_def listener_turn_def tcp_pool_turn_def
        all_ended_def CHAN_SIZE_def req_senders_gone_def split: if_splits list.splits prod.splits sum.splits)
next
  case (UdpPool p)
  with assms show ?thesis
    by (cases "up_task p")
      (auto simp: wind_down_def session_turn_def control_channel_turn_def udp_pool_turn_def
        all_ended_def req_senders_gone_def split: if_splits list.splits prod.splits sum.splits)
qed

lemma session_run_first:
  assumes "session_turn bc ev s = Some s1" and "session_run bc s1 evs s'"
  shows "session_run bc s (ev # evs) s'"
  using assms(2)
proof (induction rule: session_run.induct)
  case run_start
  show ?case using session_run.run_turn [OF session_run.run_start assms(1)] by simp
next
  case (run_turn evs t ev' t')
  show ?case using session_run.run_turn [OF run_turn.IH run_turn.hyps(2)] by simp
qed

lemma wind_down_bounded:
  assumes "session_run bc s evs s'" and "set evs \<subseteq> set wind_down" and "se_dropped s"
  shows "se_dropped s' \<and> length evs + work_left s' \<le> work_left s"
  using assms
proof (induction rule: session_run.induct)
  case (run_turn evs t ev t')
  then show ?case using wind_down_work [of ev bc t t'] by fastforce
qed simp

lemma wind_down_ends:
  "se_dropped s \<Longrightarrow> \<exists>evs s'. set evs \<subseteq> set wind_down \<and> session_run bc s evs s' \<and> all_ended s'"
proof (induction "work_left s" arbitrary: s rule: less_induct)
  case less
  show ?case
  proof (cases "\<forall>ev \<in> set wind_down. session_turn bc ev s = None")
    case True
    then show ?thesis
      using wind_down_progress [OF less.prems] session_run.run_start [of bc s]
      by (metis empty_subsetI list.set(1))
  next
    case False
    then obtain ev s1 where ev: "ev \<in> set wind_down" "session_turn bc ev s = Some s1" by auto
    with less.hyps [of s1] wind_down_work [OF ev less.prems] obtain evs s' where
      "set evs \<subseteq> set wind_down" "session_run bc s1 evs s'" "all_ended s'" by blast
    with session_run_first [OF ev(2)] ev(1) show ?thesis by (metis insert_subset list.set(2))
  qed
qed

section \<open>Properties\<close>

lemma visitors_served:
  assumes "session_run bc (control_channel_handle_new c service hb) evs s" and "ss_type service = ServiceTcp"
    and "se_pool s = TcpPool p" and "tp_task p \<noteq> PEnded" and "tp_listener p \<noteq> LEnded"
  shows "accepted evs = map snd (tp_forwards p) @ waiting p"
  using tcp_inv_run [OF assms(1,2)] assms(3-5) by (simp add: tcp_inv_def order_ok_def)

text \<open>
  C5: visitors of a TCP service are served in order, each once. In every run of a session, the
  connections that have been handed a data channel are the first ones accepted, in the order they
  were accepted; every such data channel was last told to start forwarding for that visitor's
  address; and while the listener and the pool run, every other accepted visitor is still waiting.
\<close>

theorem visitors_served_in_order:
  assumes "session_run bc (control_channel_handle_new c service hb) evs s" and "ss_type service = ServiceTcp"
  shows "\<exists>p. se_pool s = TcpPool p \<and>
    prefix (map snd (tp_forwards p)) (accepted evs) \<and>
    (\<forall>(ch, v) \<in> set (tp_forwards p). suffix (wire bc (start_forward_tcp v)) (out ch)) \<and>
    (tp_task p \<noteq> PEnded \<and> tp_listener p \<noteq> LEnded \<longrightarrow>
       accepted evs = map snd (tp_forwards p) @ waiting p)"
  using tcp_inv_run [OF assms]
  by (auto simp: tcp_inv_def order_ok_def told_ok_def split: pool.splits)

text \<open>
  C19: the pool of spare data channels is kept full. While the control channel and the pool of a TCP
  service run, the data channels that are queued, asked for, or still to be asked for are eight more
  than the visitors that wait for one: every accepted visitor and every broken data channel is
  replaced by one request.
\<close>

theorem pool_balance:
  assumes "session_run bc (control_channel_handle_new c service hb) evs s" and "ss_type service = ServiceTcp"
    and "se_pool s = TcpPool p" and "se_ctl s" and "tp_task p \<noteq> PEnded" and "tp_listener p \<noteq> LEnded"
  shows "created evs + se_req s + length (se_data s) = TCP_POOL_SIZE + length (waiting p) + received evs"
  using tcp_inv_run [OF assms(1,2)] assms(3-6)
  by (auto simp: tcp_inv_def order_ok_def balance_ok_def)

text \<open>
  C30: a dropped control channel leaves no task behind. Once the handle is gone, the control task,
  the listener and the pool reach their ends by their own turns, whatever the peers do, and no
  sequence of such turns is longer than the work that was left.
\<close>

theorem dropped_session_ends:
  assumes "se_dropped s"
  shows "(\<exists>evs s'. set evs \<subseteq> set wind_down \<and> session_run bc s evs s' \<and> all_ended s') \<and>
    (\<forall>evs s'. session_run bc s evs s' \<longrightarrow> set evs \<subseteq> set wind_down \<longrightarrow> length evs \<le> work_left s)"
  using wind_down_ends [OF assms] wind_down_bounded [OF _ _ assms] by (meson add_leD1)

text \<open>
  C39: a UDP service whose forwarding has failed is taken down. When the pool task of a UDP service
  has ended, the control task answers the requests that are left and then ends too, after at most
  one turn more than there are requests; the client sees the connection close and can start anew.
\<close>

theorem udp_pool_end_closes_control:
  assumes "se_pool s = UdpPool p" and "up_task p = UEnded"
  shows "\<exists>n s'. n \<le> Suc (se_req s) \<and> session_run bc s (replicate n (Ctl DataRequest)) s' \<and> \<not> se_ctl s'"
  using assms
proof (induction "se_req s" arbitrary: s)
  case 0
  show ?case
  proof (cases "se_ctl s")
    case True
    with 0 have "session_turn bc (Ctl DataRequest) s = Some (end_control s)"
      by (simp add: session_turn_def control_channel_turn_def req_senders_gone_def split: nat.splits)
    from session_run_first [OF this session_run.run_start] show ?thesis
      using 0 by (intro exI [of _ 1]) (auto simp: end_control_def)
  next
    case False
    then show ?thesis using session_run.run_start [of bc s] by (intro exI [of _ 0]) auto
  qed
next
  case (Suc n)
  show ?case
  proof (cases "se_ctl s")
    case True
    let ?t = "control_send bc CreateDataChannel (s\<lparr>se_req := n\<rparr>)"
    have turn: "session_turn bc (Ctl DataRequest) s = Some ?t"
      using True Suc.hyps(2) [symmetric] by (simp add: session_turn_def control_channel_turn_def)
    have "se_pool ?t = UdpPool p" using Suc.prems by (simp add: control_send_fields)
    moreover have "\<not> se_ctl ?t \<or> n = se_req ?t" by (auto simp: control_send_fields(4))
    ultimately consider "\<not> se_ctl ?t"
      | m s' where "m \<le> Suc n" "session_run bc ?t (replicate m (Ctl DataRequest)) s'" "\<not> se_ctl s'"
      using Suc.hyps(1) [of ?t] Suc.prems(2) by metis
    then show ?thesis
    proof cases
      case 1
      with session_run_first [OF turn session_run.run_start] show ?thesis
        by (intro exI [of _ 1]) auto
    next
      case 2
      with session_run_first [OF turn 2(2)] Suc.hyps(2) [symmetric] show ?thesis
        by (intro exI [of _ "Suc m"]) auto
    qed
  next
    case False
    then show ?thesis using session_run.run_start [of bc s] by (intro exI [of _ 0]) auto
  qed
qed

section \<open>Concrete runs\<close>

definition demo_service :: "service_type \<Rightarrow> server_service_config" where
  "demo_service t = \<lparr>ss_type = t, ss_name = ''web'', ss_bind_addr = ''0.0.0.0:80'',
     ss_user = Some ''default'', ss_token = Some ''t'', ss_nodelay = None\<rparr>"

definition demo_visitor :: visitor where
  "demo_visitor = \<lparr>vi_id = 7, vi_peer = Some (V4 1 2)\<rparr>"

fun session_turns :: "bincode \<Rightarrow> session_event list \<Rightarrow> session \<Rightarrow> session option" where
  "session_turns bc [] s = Some s"
| "session_turns bc (ev # evs) s = Option.bind (session_turn bc ev s) (session_turns bc evs)"

lemma session_turns_run: "session_turns bc evs s = Some s' \<Longrightarrow> session_run bc s evs s'"
  by (induction bc evs s rule: session_turns.induct)
    (auto intro: session_run.run_start session_run_first split: bind_splits)

definition demo_events :: "session_event list" where
  "demo_events = [Listen (BindDone True), Listen (Accepted demo_visitor), Listen QueueReady,
     Ctl DataRequest, DataChannel (demo_conn []), TcpPoolTurn, TcpPoolTurn]"

definition demo_session :: session where
  "demo_session = control_channel_handle_new (demo_conn []) (demo_service ServiceTcp) 30"

lemma demo_wire_fits:
  "length (wire demo_bincode (MControl cmd)) \<le> 100"
  "length (wire demo_bincode (start_forward_tcp demo_visitor)) \<le> 100"
  by (cases cmd) (simp_all add: wire_def frame_def demo_bincode_def start_forward_tcp_def
      demo_visitor_def octets4_def demo_forward_def length_demo_bytes)

lemma demo_write:
  "length (wire demo_bincode m) \<le> 100 \<Longrightarrow> write_packet_message demo_bincode m (demo_conn bs) =
     (Inr (), (demo_conn bs)\<lparr>out := wire demo_bincode m, room := 1000000 - length (wire demo_bincode m)\<rparr>)"
  by (simp add: write_wire demo_conn_def)

lemmas demo_eval = session_turn_def control_channel_turn_def listener_turn_def tcp_pool_turn_def
  udp_pool_turn_def control_send_def write_control_cmd_def send_req_def send_data_ch_def
  pool_ended_def control_channel_handle_new_def demo_service_def
  CHAN_SIZE_def pool_size_def TCP_POOL_SIZE_def UDP_POOL_SIZE_def

lemma demo_run_exists:
  "\<exists>s p. session_run demo_bincode demo_session demo_events s \<and> se_pool s = TcpPool p \<and>
     se_ctl s \<and> map snd (tp_forwards p) = [demo_visitor] \<and> tp_task p = PIdle \<and> tp_listener p = LAccepting"
proof -
  let ?d = "write_packet_message demo_bincode"
  obtain ctl ch where w: "?d (MControl CreateDataChannel) (demo_conn []) = (Inr (), ctl)"
    "?d (start_forward_tcp demo_visitor) (demo_conn []) = (Inr (), ch)"
    by (simp add: demo_write demo_wire_fits)
  let ?p = "\<lparr>tp_listener = LAccepting, tp_visitors = [], tp_task = PIdle, tp_forwards = [(ch, demo_visitor)]\<rparr>"
  let ?s = "\<lparr>se_conn = ctl, se_heartbeat = 30, se_req = 8, se_data = [], se_dropped = False, se_ctl = True,
    se_pool = TcpPool ?p\<rparr>"
  have "session_turns demo_bincode demo_events demo_session = Some ?s"
    by (simp add: demo_events_def demo_session_def demo_eval w)
  then show ?thesis by (intro exI [of _ ?s] exI [of _ ?p]) (simp add: session_turns_run)
qed

theorem visitors_served_in_order_witness:
  "\<exists>s p. session_run demo_bincode demo_session demo_events s \<and> se_pool s = TcpPool p \<and>
     map snd (tp_forwards p) = [demo_visitor] \<and> accepted demo_events = map snd (tp_forwards p) @ waiting p"
proof -
  obtain s p where r: "session_run demo_bincode demo_session demo_events s" "se_pool s = TcpPool p"
    "map snd (tp_forwards p) = [demo_visitor]" "tp_task p = PIdle" "tp_listener p = LAccepting"
    using demo_run_exists by (elim exE conjE)
  have "ss_type (demo_service ServiceTcp) = ServiceTcp" by (simp add: demo_service_def)
  from visitors_served_in_order [OF r(1) [unfolded demo_session_def] this] r show ?thesis by auto
qed

theorem pool_balance_witness:
  "\<exists>s. session_run demo_bincode demo_session demo_events s \<and>
     created demo_events + se_req s + length (se_data s) = 8 + received demo_events"
proof -
  obtain s p where r: "session_run demo_bincode demo_session demo_events s" "se_pool s = TcpPool p"
    "se_ctl s" "map snd (tp_forwards p) = [demo_visitor]" "tp_task p = PIdle" "tp_listener p = LAccepting"
    using demo_run_exists by (elim exE conjE)
  have "ss_type (demo_service ServiceTcp) = ServiceTcp" by (simp add: demo_service_def)
  moreover have "waiting p = []"
    using visitors_served [OF r(1) [unfolded demo_session_def] calculation] r
    by (simp add: demo_events_def accepted_def)
  ultimately show ?thesis
    using pool_balance [OF r(1) [unfolded demo_session_def] _ r(2,3)] r
    by (auto simp: TCP_POOL_SIZE_def)
qed

theorem dropped_session_ends_witness:
  "\<exists>evs s'. session_run demo_bincode (drop_handle demo_session) evs s' \<and> all_ended s' \<and>
     set evs \<subseteq> set wind_down \<and> length evs \<le> 3"
proof -
  have "se_dropped (drop_handle demo_session)" by (simp add: drop_handle_def)
  from dropped_session_ends [OF this, of demo_bincode] obtain evs s' where
    "set evs \<subseteq> set wind_down" "session_run demo_bincode (drop_handle demo_session) evs s'" "all_ended s'"
    "length evs \<le> work_left (drop_handle demo_session)" by blast
  moreover have "work_left (drop_handle demo_session) = 3"
    by (simp add: drop_handle_def demo_session_def control_channel_handle_new_def work_left_def demo_service_def)
  ultimately show ?thesis by (metis order_refl)
qed

theorem udp_pool_end_closes_control_witness:
  "\<exists>n s'. n \<le> 3 \<and> session_run demo_bincode (end_udp_pool \<lparr>up_task = UWaiting, up_sent = []\<rparr>
     (control_channel_handle_new (demo_conn []) (demo_service ServiceUdp) 30)) (replicate n (Ctl DataRequest)) s' \<and>
     \<not> se_ctl s'"
proof -
  let ?s = "end_udp_pool \<lparr>up_task = UWaiting, up_sent = []\<rparr>
     (control_channel_handle_new (demo_conn []) (demo_service ServiceUdp) 30)"
  have "se_pool ?s = UdpPool \<lparr>up_task = UEnded, up_sent = []\<rparr>" by (simp add: end_udp_pool_def)
  moreover have "se_req ?s = 2"
    by (simp add: end_udp_pool_def control_channel_handle_new_def pool_size_def demo_service_def UDP_POOL_SIZE_def)
  ultimately show ?thesis
    using udp_pool_end_closes_control [of ?s _ demo_bincode] by (simp add: numeral_3_eq_3)
qed

end
