(* ===== verification/Multi_Map.thy ===== *)
theory Multi_Map
  imports Prelude
begin

text \<open>
  The map indexed by two keys, src/src/multi_map.rs. The code keeps every item in a box of its
  own and two hash maps whose keys and values are raw pointers into these boxes; comparing keys
  dereferences them. The model has the heap of boxes explicitly. Dereferencing or freeing a
  pointer whose box is not alive is undefined behaviour, the value \<open>None\<close>.
\<close>

section \<open>Pointers, boxes and keys\<close>

type_synonym addr = nat

record ('a, 'b, 'v) multi_map =
  boxes :: "addr \<rightharpoonup> 'a \<times> 'b \<times> 'v"
  map1 :: "(addr \<times> addr) list"
  map2 :: "(addr \<times> addr) list"

definition multi_map_new :: "('a, 'b, 'v) multi_map" where
  "multi_map_new = \<lparr>boxes = Map.empty, map1 = [], map2 = []\<rparr>"

text \<open>\<open>Key::borrow\<close> for the two kinds of keys: the first and the second field of the box.\<close>

definition borrow1 :: "('a, 'b, 'v) multi_map \<Rightarrow> addr \<Rightarrow> 'a option" where
  "borrow1 s p = map_option fst (boxes s p)"

definition borrow2 :: "('a, 'b, 'v) multi_map \<Rightarrow> addr \<Rightarrow> 'b option" where
  "borrow2 s p = map_option (fst \<circ> snd) (boxes s p)"

text \<open>
  Hash map operations on pointer keys: entries are compared through \<open>borrow\<close>. Every key the
  search meets has to be alive.
\<close>

fun key_get :: "(addr \<Rightarrow> 'k option) \<Rightarrow> 'k \<Rightarrow> (addr \<times> addr) list \<Rightarrow> addr option option" where
  "key_get d k [] = Some None"
| "key_get d k ((p, i) # m) =
     (case d p of
        None \<Rightarrow> None
      | Some k' \<Rightarrow> if k' = k then Some (Some i) else key_get d k m)"

fun key_remove ::
  "(addr \<Rightarrow> 'k option) \<Rightarrow> 'k \<Rightarrow> (addr \<times> addr) list \<Rightarrow> (addr option \<times> (addr \<times> addr) list) option" where
  "key_remove d k [] = Some (None, [])"
| "key_remove d k ((p, i) # m) =
     (case d p of
        None \<Rightarrow> None
      | Some k' \<Rightarrow>
          if k' = k then Some (Some i, m)
          else map_option (\<lambda>(r, m'). (r, (p, i) # m')) (key_remove d k m))"

fun key_insert_at ::
  "(addr \<Rightarrow> 'k option) \<Rightarrow> 'k \<Rightarrow> addr \<Rightarrow> addr \<Rightarrow> (addr \<times> addr) list \<Rightarrow> (addr \<times> addr) list option" where
  "key_insert_at d k q j [] = Some [(q, j)]"
| "key_insert_at d k q j ((p, i) # m) =
     (case d p of
        None \<Rightarrow> None
      | Some k' \<Rightarrow>
          if k' = k then Some ((p, j) # m)
          else map_option (\<lambda>m'. (p, i) # m') (key_insert_at d k q j m))"

definition key_insert ::
  "(addr \<Rightarrow> 'k option) \<Rightarrow> addr \<Rightarrow> addr \<Rightarrow> (addr \<times> addr) list \<Rightarrow> (addr \<times> addr) list option" where
  "key_insert d q j m = (case d q of None \<Rightarrow> None | Some k \<Rightarrow> key_insert_at d k q j m)"

section \<open>Operations\<close>

text \<open>\<open>Box::new\<close> puts the item at the address \<open>a\<close> the allocator gives.\<close>

definition insert_mm ::
  "addr \<Rightarrow> 'a \<Rightarrow> 'b \<Rightarrow> 'v \<Rightarrow> ('a, 'b, 'v) multi_map \<Rightarrow>
   ((('a \<times> 'b \<times> 'v) + unit) \<times> ('a, 'b, 'v) multi_map) option" where
  "insert_mm a k1 k2 v s =
     (case key_get (borrow1 s) k1 (map1 s) of
        None \<Rightarrow> None
      | Some (Some _) \<Rightarrow> Some (Inl (k1, k2, v), s)
      | Some None \<Rightarrow>
     (case key_get (borrow2 s) k2 (map2 s) of
        None \<Rightarrow> None
      | Some (Some _) \<Rightarrow> Some (Inl (k1, k2, v), s)
      | Some None \<Rightarrow>
          (let s1 = s\<lparr>boxes := (boxes s)(a \<mapsto> (k1, k2, v))\<rparr>
           in case key_insert (borrow1 s1) a a (map1 s1) of
                None \<Rightarrow> None
              | Some m1 \<Rightarrow>
             (case key_insert (borrow2 s1) a a (map2 s1) of
                None \<Rightarrow> None
              | Some m2 \<Rightarrow> Some (Inr (), s1\<lparr>map1 := m1, map2 := m2\<rparr>)))))"

definition deref_value :: "('a, 'b, 'v) multi_map \<Rightarrow> addr option \<Rightarrow> 'v option option" where
  "deref_value s r =
     (case r of
        None \<Rightarrow> Some None
      | Some i \<Rightarrow> (case boxes s i of None \<Rightarrow> None | Some (_, _, v) \<Rightarrow> Some (Some v)))"

definition get1 :: "'a \<Rightarrow> ('a, 'b, 'v) multi_map \<Rightarrow> 'v option option" where
  "get1 k1 s = Option.bind (key_get (borrow1 s) k1 (map1 s)) (deref_value s)"

definition get2 :: "'b \<Rightarrow> ('a, 'b, 'v) multi_map \<Rightarrow> 'v option option" where
  "get2 k2 s = Option.bind (key_get (borrow2 s) k2 (map2 s)) (deref_value s)"

text \<open>
  The mutable lookups hand out a reference to the value; the caller's use of it is the
  function \<open>f\<close> applied in place. The result tells whether there was an item.
\<close>

definition update_value ::
  "('v \<Rightarrow> 'v) \<Rightarrow> ('a, 'b, 'v) multi_map \<Rightarrow> addr option \<Rightarrow> (bool \<times> ('a, 'b, 'v) multi_map) option" where
  "update_value f s r =
     (case r of
        None \<Rightarrow> Some (False, s)
      | Some i \<Rightarrow>
          (case boxes s i of
             None \<Rightarrow> None
           | Some (k1, k2, v) \<Rightarrow> Some (True, s\<lparr>boxes := (boxes s)(i \<mapsto> (k1, k2, f v))\<rparr>)))"

definition get1_mut ::
  "('v \<Rightarrow> 'v) \<Rightarrow> 'a \<Rightarrow> ('a, 'b, 'v) multi_map \<Rightarrow> (bool \<times> ('a, 'b, 'v) multi_map) option" where
  "get1_mut f k1 s = Option.bind (key_get (borrow1 s) k1 (map1 s)) (update_value f s)"

definition get_mut2 ::
  "('v \<Rightarrow> 'v) \<Rightarrow> 'b \<Rightarrow> ('a, 'b, 'v) multi_map \<Rightarrow> (bool \<times> ('a, 'b, 'v) multi_map) option" where
  "get_mut2 f k2 s = Option.bind (key_get (borrow2 s) k2 (map2 s)) (update_value f s)"

text \<open>The box is taken over by \<open>Box::from_raw\<close> and freed when the function returns.\<close>

definition free_box :: "addr \<Rightarrow> ('a, 'b, 'v) multi_map \<Rightarrow> ('a, 'b, 'v) multi_map option" where
  "free_box i s =
     (case boxes s i of None \<Rightarrow> None | Some _ \<Rightarrow> Some (s\<lparr>boxes := (boxes s)(i := None)\<rparr>))"

definition remove1_mm ::
  "'a \<Rightarrow> ('a, 'b, 'v) multi_map \<Rightarrow> ('v option \<times> ('a, 'b, 'v) multi_map) option" where
  "remove1_mm k1 s =
     (case key_remove (borrow1 s) k1 (map1 s) of
        None \<Rightarrow> None
      | Some (None, m1) \<Rightarrow> Some (None, s\<lparr>map1 := m1\<rparr>)
      | Some (Some i, m1) \<Rightarrow>
          (case boxes s i of
             None \<Rightarrow> None
           | Some (_, k2, v) \<Rightarrow>
               (case key_remove (borrow2 s) k2 (map2 s) of
                  None \<Rightarrow> None
                | Some (_, m2) \<Rightarrow>
                    map_option (Pair (Some v)) (free_box i (s\<lparr>map1 := m1, map2 := m2\<rparr>)))))"

definition remove2_mm ::
  "'b \<Rightarrow> ('a, 'b, 'v) multi_map \<Rightarrow> ('v option \<times> ('a, 'b, 'v) multi_map) option" where
  "remove2_mm k2 s =
     (case key_remove (borrow2 s) k2 (map2 s) of
        None \<Rightarrow> None
      | Some (None, m2) \<Rightarrow> Some (None, s\<lparr>map2 := m2\<rparr>)
      | Some (Some i, m2) \<Rightarrow>
          (case boxes s i of
             None \<Rightarrow> None
           | Some (k1, _, v) \<Rightarrow>
               (case key_remove (borrow1 s) k1 (map1 s) of
                  None \<Rightarrow> None
                | Some (_, m1) \<Rightarrow>
                    map_option (Pair (Some v)) (free_box i (s\<lparr>map1 := m1, map2 := m2\<rparr>)))))"

fun free_items ::
  "(addr \<times> addr) list \<Rightarrow> ('a, 'b, 'v) multi_map \<Rightarrow> ('a, 'b, 'v) multi_map option" where
  "free_items [] s = Some s"
| "free_items ((_, i) # m) s = Option.bind (free_box i s) (free_items m)"

text \<open>\<open>clear\<close>, which is also what \<open>drop\<close> does.\<close>

definition clear_mm :: "('a, 'b, 'v) multi_map \<Rightarrow> ('a, 'b, 'v) multi_map option" where
  "clear_mm s = free_items (map2 s) (s\<lparr>map1 := [], map2 := []\<rparr>)"

section \<open>Well-formedness\<close>

text \<open>
  Every entry points, with key and item, to one live box; every live box has exactly one entry
  in either map; no two boxes share a first or a second key.
\<close>

definition index_ok :: "(addr \<rightharpoonup> 'x) \<Rightarrow> (addr \<Rightarrow> 'k option) \<Rightarrow> (addr \<times> addr) list \<Rightarrow> bool" where
  "index_ok h d m \<longleftrightarrow>
     (\<forall>(p, i) \<in> set m. p = i) \<and> fst ` set m = dom h \<and> distinct (map fst m) \<and>
     inj_on d (dom h) \<and> dom d = dom h"

definition mm_inv :: "('a, 'b, 'v) multi_map \<Rightarrow> bool" where
  "mm_inv s \<longleftrightarrow> index_ok (boxes s) (borrow1 s) (map1 s) \<and> index_ok (boxes s) (borrow2 s) (map2 s)"

definition items :: "('a, 'b, 'v) multi_map \<Rightarrow> ('a \<times> 'b \<times> 'v) set" where
  "items s = ran (boxes s)"

lemma dom_borrow [simp]: "dom (borrow1 s) = dom (boxes s)" "dom (borrow2 s) = dom (boxes s)"
  by (auto simp: borrow1_def borrow2_def)

lemma borrow_cong [simp]:
  "borrow1 (s\<lparr>map1 := m\<rparr>) = borrow1 s" "borrow1 (s\<lparr>map2 := m\<rparr>) = borrow1 s"
  "borrow2 (s\<lparr>map1 := m\<rparr>) = borrow2 s" "borrow2 (s\<lparr>map2 := m\<rparr>) = borrow2 s"
  by (simp_all add: borrow1_def borrow2_def fun_eq_iff)

lemma borrow_upd [simp]:
  "borrow1 (s\<lparr>boxes := (boxes s)(a \<mapsto> (k1, k2, v))\<rparr>) = (borrow1 s)(a \<mapsto> k1)"
  "borrow2 (s\<lparr>boxes := (boxes s)(a \<mapsto> (k1, k2, v))\<rparr>) = (borrow2 s)(a \<mapsto> k2)"
  "borrow1 (s\<lparr>boxes := (boxes s)(a := None)\<rparr>) = (borrow1 s)(a := None)"
  "borrow2 (s\<lparr>boxes := (boxes s)(a := None)\<rparr>) = (borrow2 s)(a := None)"
  by (simp_all add: borrow1_def borrow2_def fun_eq_iff)

text \<open>The index operations on a well-formed index.\<close>

lemma key_get_total:
  "fst ` set m \<subseteq> dom d \<Longrightarrow> \<forall>(p, i) \<in> set m. p = i \<Longrightarrow>
   \<exists>r. key_get d k m = Some r \<and> (case r of None \<Rightarrow> \<forall>p \<in> fst ` set m. d p \<noteq> Some k
     | Some i \<Rightarrow> i \<in> fst ` set m \<and> d i = Some k)"
proof (induction m)
  case (Cons e m)
  obtain p k' where e: "e = (p, p)" "d p = Some k'" using Cons.prems by (cases e) auto
  with Cons show ?case by (auto split: option.splits)
qed simp

lemma key_get_hit:
  assumes "index_ok h d m" and "d i = Some k"
  shows "key_get d k m = Some (Some i)"
proof -
  from key_get_total [of m d k] assms obtain r where r: "key_get d k m = Some r"
    and rr: "case r of None \<Rightarrow> \<forall>p \<in> fst ` set m. d p \<noteq> Some k
       | Some j \<Rightarrow> j \<in> fst ` set m \<and> d j = Some k"
    by (auto simp: index_ok_def)
  have i: "i \<in> dom h" using assms by (auto simp: index_ok_def)
  show ?thesis
  proof (cases r)
    case None
    moreover have "i \<in> fst ` set m" using i assms(1) by (simp add: index_ok_def)
    ultimately show ?thesis using rr assms(2) by auto
  next
    case (Some j)
    with rr i assms have "j = i" by (auto simp: index_ok_def inj_on_def)
    with Some r show ?thesis by simp
  qed
qed

lemma key_get_miss:
  "index_ok h d m \<Longrightarrow> k \<notin> ran d \<Longrightarrow> key_get d k m = Some None"
  using key_get_total [of m d k] by (auto simp: index_ok_def ran_def split: option.splits)

lemma key_insert_fresh:
  assumes "index_ok h d m" and "a \<notin> dom h" and "k \<notin> ran d"
  shows "key_insert (d(a \<mapsto> k)) a a m = Some (m @ [(a, a)])"
proof -
  have "fst ` set m \<subseteq> dom d \<Longrightarrow> a \<notin> fst ` set m \<Longrightarrow>
      key_insert_at (d(a \<mapsto> k)) k a a m = Some (m @ [(a, a)])" for m
  proof (induction m)
    case (Cons e m)
    obtain p i k' where e: "e = (p, i)" "p \<noteq> a" "d p = Some k'" using Cons.prems by (cases e) auto
    with assms(3) have "k' \<noteq> k" by (auto simp: ran_def)
    with e Cons show ?case by simp
  qed simp
  with assms show ?thesis by (simp add: key_insert_def index_ok_def)
qed

lemma key_remove_hit:
  assumes "index_ok h d m" and "d i = Some k"
  shows "key_remove d k m = Some (Some i, filter (\<lambda>(p, _). p \<noteq> i) m)"
proof -
  have "fst ` set m \<subseteq> dom d \<Longrightarrow> inj_on d (dom d) \<Longrightarrow> \<forall>(p, i) \<in> set m. p = i \<Longrightarrow>
      distinct (map fst m) \<Longrightarrow> i \<in> fst ` set m \<Longrightarrow>
      key_remove d k m = Some (Some i, filter (\<lambda>(p, _). p \<noteq> i) m)" for m
  proof (induction m)
    case (Cons e m)
    obtain p k' where e: "e = (p, p)" "d p = Some k'" using Cons.prems by (cases e) auto
    show ?case
    proof (cases "p = i")
      case True
      then have "filter (\<lambda>(p, _). p \<noteq> i) m = m"
        using Cons.prems e by (intro filter_True) (force simp: image_iff)
      with True e assms(2) show ?thesis by simp
    next
      case False
      then have "k' \<noteq> k" using e Cons.prems(2) assms(2) by (metis domI inj_onD)
      with False e Cons show ?thesis by (auto simp: image_iff)
    qed
  qed simp
  moreover have "i \<in> dom h" using assms by (auto simp: index_ok_def)
  ultimately show ?thesis using assms(1) by (simp add: index_ok_def)
qed

lemma key_remove_miss:
  assumes "index_ok h d m" and "k \<notin> ran d"
  shows "key_remove d k m = Some (None, m)"
proof -
  have "fst ` set m \<subseteq> dom d \<Longrightarrow> key_remove d k m = Some (None, m)" for m
  proof (induction m)
    case (Cons e m)
    then obtain p i k' where "e = (p, i)" "d p = Some k'" by (cases e) auto
    with Cons assms(2) show ?case by (auto simp: ran_def)
  qed simp
  with assms(1) show ?thesis by (simp add: index_ok_def)
qed

lemma index_ok_insert:
  "index_ok h d m \<Longrightarrow> a \<notin> dom h \<Longrightarrow> k \<notin> ran d \<Longrightarrow>
   index_ok (h(a \<mapsto> x)) (d(a \<mapsto> k)) (m @ [(a, a)])"
  by (auto simp: index_ok_def inj_on_def ran_def image_iff)

lemma index_ok_remove:
  assumes "index_ok h d m"
  shows "index_ok (h(i := None)) (d(i := None)) (filter (\<lambda>(p, _). p \<noteq> i) m)"
proof -
  have "fst ` set (filter (\<lambda>(p, _). p \<noteq> i) m) = fst ` set m - {i}" by auto
  moreover have "distinct (map fst (filter P m))" if "distinct (map fst m)" for P
    using that distinct_map_filter by blast
  ultimately show ?thesis
    using assms by (auto simp: index_ok_def inj_on_def)
qed

lemma index_ok_update:
  "index_ok h d m \<Longrightarrow> i \<in> dom h \<Longrightarrow> index_ok (h(i \<mapsto> x)) d m"
  by (auto simp: index_ok_def insert_absorb)

section \<open>The contract\<close>

lemma in_items: "(k1, k2, v) \<in> items s \<longleftrightarrow> (\<exists>i. boxes s i = Some (k1, k2, v))"
  by (auto simp: items_def ran_def)

lemma in_ran_borrow:
  "k1 \<in> ran (borrow1 s) \<longleftrightarrow> (\<exists>k2 v. (k1, k2, v) \<in> items s)"
  "k2 \<in> ran (borrow2 s) \<longleftrightarrow> (\<exists>k1 v. (k1, k2, v) \<in> items s)"
  by (fastforce simp: items_def ran_def borrow1_def borrow2_def)+

lemma mm_invD: "mm_inv s \<Longrightarrow> index_ok (boxes s) (borrow1 s) (map1 s)"
  "mm_inv s \<Longrightarrow> index_ok (boxes s) (borrow2 s) (map2 s)"
  by (simp_all add: mm_inv_def)

lemma borrow_box:
  assumes "boxes s i = Some (k1, k2, v)"
  shows "borrow1 s i = Some k1" "borrow2 s i = Some k2"
  using assms by (simp_all add: borrow1_def borrow2_def)

text \<open>
  What the clients of a two-key map rely on. Operations return \<open>None\<close> when they would be
  undefined; \<open>fresh\<close> says that an address is one the allocator may return.
\<close>

locale two_key_map =
  fixes inv :: "'s \<Rightarrow> bool"
    and its :: "'s \<Rightarrow> ('a \<times> 'b \<times> 'v) set"
    and fresh :: "'p \<Rightarrow> 's \<Rightarrow> bool"
    and empty :: 's
    and ins :: "'p \<Rightarrow> 'a \<Rightarrow> 'b \<Rightarrow> 'v \<Rightarrow> 's \<Rightarrow> ((('a \<times> 'b \<times> 'v) + unit) \<times> 's) option"
    and look1 :: "'a \<Rightarrow> 's \<Rightarrow> 'v option option"
    and look2 :: "'b \<Rightarrow> 's \<Rightarrow> 'v option option"
    and rem1 :: "'a \<Rightarrow> 's \<Rightarrow> ('v option \<times> 's) option"
    and rem2 :: "'b \<Rightarrow> 's \<Rightarrow> ('v option \<times> 's) option"
  assumes empty_inv: "inv empty" and empty_items: "its empty = {}"
    and key_unique: "inv s \<Longrightarrow> (k1, k2, v) \<in> its s \<Longrightarrow> (k1', k2', v') \<in> its s \<Longrightarrow>
      k1 = k1' \<or> k2 = k2' \<Longrightarrow> k1 = k1' \<and> k2 = k2' \<and> v = v'"
    and ins_new: "inv s \<Longrightarrow> fresh a s \<Longrightarrow> \<forall>k v. (k1, k, v) \<notin> its s \<Longrightarrow> \<forall>k v. (k, k2, v) \<notin> its s \<Longrightarrow>
      \<exists>s'. ins a k1 k2 v s = Some (Inr (), s') \<and> inv s' \<and> its s' = insert (k1, k2, v) (its s)"
    and ins_dup: "inv s \<Longrightarrow> (k1, k, u) \<in> its s \<or> (k', k2, u) \<in> its s \<Longrightarrow>
      ins a k1 k2 v s = Some (Inl (k1, k2, v), s)"
    and look1_hit: "inv s \<Longrightarrow> (k1, k2, v) \<in> its s \<Longrightarrow> look1 k1 s = Some (Some v)"
    and look1_miss: "inv s \<Longrightarrow> \<forall>k v. (k1, k, v) \<notin> its s \<Longrightarrow> look1 k1 s = Some None"
    and look2_hit: "inv s \<Longrightarrow> (k1, k2, v) \<in> its s \<Longrightarrow> look2 k2 s = Some (Some v)"
    and look2_miss: "inv s \<Longrightarrow> \<forall>k v. (k, k2, v) \<notin> its s \<Longrightarrow> look2 k2 s = Some None"
    and rem1_hit: "inv s \<Longrightarrow> (k1, k2, v) \<in> its s \<Longrightarrow>
      \<exists>s'. rem1 k1 s = Some (Some v, s') \<and> inv s' \<and> its s' = its s - {(k1, k2, v)}"
    and rem1_miss: "inv s \<Longrightarrow> \<forall>k v. (k1, k, v) \<notin> its s \<Longrightarrow> rem1 k1 s = Some (None, s)"
    and rem2_hit: "inv s \<Longrightarrow> (k1, k2, v) \<in> its s \<Longrightarrow>
      \<exists>s'. rem2 k2 s = Some (Some v, s') \<and> inv s' \<and> its s' = its s - {(k1, k2, v)}"
    and rem2_miss: "inv s \<Longrightarrow> \<forall>k v. (k, k2, v) \<notin> its s \<Longrightarrow> rem2 k2 s = Some (None, s)"
begin

lemma look1_iff: "inv s \<Longrightarrow> look1 k1 s = Some (Some v) \<longleftrightarrow> (\<exists>k2. (k1, k2, v) \<in> its s)"
  by (metis look1_hit look1_miss option.distinct(1) option.inject)

lemma look2_iff: "inv s \<Longrightarrow> look2 k2 s = Some (Some v) \<longleftrightarrow> (\<exists>k1. (k1, k2, v) \<in> its s)"
  by (metis look2_hit look2_miss option.distinct(1) option.inject)

lemma item_iff:
  assumes "inv s" and "(k1, k2, v) \<in> its s" and "t \<in> its s"
  shows "fst t = k1 \<longleftrightarrow> t = (k1, k2, v)" "fst (snd t) = k2 \<longleftrightarrow> t = (k1, k2, v)"
  using key_unique [OF assms(1,2), of "fst t" "fst (snd t)" "snd (snd t)"] assms(3)
  by (metis fst_conv snd_conv prod.collapse)+

lemma rem1_total:
  assumes "inv s"
  shows "\<exists>r s'. rem1 k1 s = Some (r, s') \<and> inv s' \<and> its s' = {t \<in> its s. fst t \<noteq> k1} \<and>
    look1 k1 s = Some r"
proof (cases "\<exists>k2 v. (k1, k2, v) \<in> its s")
  case True
  then obtain k2 v where kv: "(k1, k2, v) \<in> its s" by blast
  have "its s - {(k1, k2, v)} = {t \<in> its s. fst t \<noteq> k1}"
    using item_iff(1) [OF assms kv] by blast
  with rem1_hit [OF assms kv] look1_hit [OF assms kv] show ?thesis by metis
next
  case False
  then have eq: "{t \<in> its s. fst t \<noteq> k1} = its s" by auto
  from False have "rem1 k1 s = Some (None, s)" "look1 k1 s = Some None"
    by (simp_all add: rem1_miss [OF assms] look1_miss [OF assms])
  with assms show ?thesis unfolding eq by blast
qed

lemma rem2_total:
  assumes "inv s"
  shows "\<exists>r s'. rem2 k2 s = Some (r, s') \<and> inv s' \<and> its s' = {t \<in> its s. fst (snd t) \<noteq> k2} \<and>
    look2 k2 s = Some r"
proof (cases "\<exists>k1 v. (k1, k2, v) \<in> its s")
  case True
  then obtain k1 v where kv: "(k1, k2, v) \<in> its s" by blast
  have "its s - {(k1, k2, v)} = {t \<in> its s. fst (snd t) \<noteq> k2}"
    using item_iff(2) [OF assms kv] by blast
  with rem2_hit [OF assms kv] look2_hit [OF assms kv] show ?thesis by metis
next
  case False
  then have eq: "{t \<in> its s. fst (snd t) \<noteq> k2} = its s" by auto
  from False have "rem2 k2 s = Some (None, s)" "look2 k2 s = Some None"
    by (simp_all add: rem2_miss [OF assms] look2_miss [OF assms])
  with assms show ?thesis unfolding eq by blast
qed

text \<open>Replacing the item of a first key: take the old one out, put the new one in.\<close>

lemma replace:
  assumes "inv s" and fresh: "\<And>s'. inv s' \<Longrightarrow> its s' \<subseteq> its s \<Longrightarrow> rem1 k1 s = Some (r, s') \<Longrightarrow> fresh a s'"
    and "\<forall>k v. (k, k2, v) \<in> its s \<longrightarrow> k = k1" and "rem1 k1 s = Some (r, s1)"
  shows "\<exists>s2. ins a k1 k2 v s1 = Some (Inr (), s2) \<and> inv s2 \<and>
    its s2 = insert (k1, k2, v) {t \<in> its s. fst t \<noteq> k1}"
proof -
  from rem1_total [OF assms(1), of k1] assms(4)
  have s1: "inv s1" "its s1 = {t \<in> its s. fst t \<noteq> k1}" by auto
  moreover have "fresh a s1" using fresh [OF s1(1)] s1(2) assms(4) by auto
  ultimately show ?thesis using ins_new [of s1 a k1 k2 v] assms(3) by auto
qed

end

interpretation mm: two_key_map mm_inv items "\<lambda>a s. a \<notin> dom (boxes s)" multi_map_new insert_mm
  get1 get2 remove1_mm remove2_mm
proof
  show "mm_inv multi_map_new" "items multi_map_new = {}"
    by (auto simp: mm_inv_def multi_map_new_def index_ok_def items_def borrow1_def borrow2_def)
next
  fix s :: "('a, 'b, 'v) multi_map" and k1 k2 v k1' k2' v'
  assume inv: "mm_inv s" and "(k1, k2, v) \<in> items s" "(k1', k2', v') \<in> items s"
    and eq: "k1 = k1' \<or> k2 = k2'"
  then obtain i j where ij: "boxes s i = Some (k1, k2, v)" "boxes s j = Some (k1', k2', v')"
    by (auto simp: in_items)
  then have "i = j"
    using eq mm_invD [OF inv] borrow_box [OF ij(1)] borrow_box [OF ij(2)]
    by (metis domI index_ok_def inj_onD)
  with ij show "k1 = k1' \<and> k2 = k2' \<and> v = v'" by simp
next
  fix s :: "('a, 'b, 'v) multi_map" and a k1 k2 v
  assume inv: "mm_inv s" and a: "a \<notin> dom (boxes s)"
    and "\<forall>k v. (k1, k, v) \<notin> items s" "\<forall>k v. (k, k2, v) \<notin> items s"
  then have k: "k1 \<notin> ran (borrow1 s)" "k2 \<notin> ran (borrow2 s)" by (simp_all add: in_ran_borrow)
  let ?s = "s\<lparr>boxes := (boxes s)(a \<mapsto> (k1, k2, v)), map1 := map1 s @ [(a, a)],
      map2 := map2 s @ [(a, a)]\<rparr>"
  have "insert_mm a k1 k2 v s = Some (Inr (), ?s)"
    using mm_invD [OF inv] a k
    by (simp add: insert_mm_def key_get_miss key_insert_fresh)
  moreover have "mm_inv ?s"
    using mm_invD [OF inv] a k by (simp add: mm_inv_def index_ok_insert)
  moreover have "items ?s = insert (k1, k2, v) (items s)"
    using a by (auto simp: items_def ran_def)
  ultimately show "\<exists>s'. insert_mm a k1 k2 v s = Some (Inr (), s') \<and> mm_inv s' \<and>
      items s' = insert (k1, k2, v) (items s)"
    by blast
next
  fix s :: "('a, 'b, 'v) multi_map" and a k1 k2 k k' u v
  assume inv: "mm_inv s" and "(k1, k, u) \<in> items s \<or> (k', k2, u) \<in> items s"
  then obtain i where "borrow1 s i = Some k1 \<or> borrow2 s i = Some k2"
    by (auto simp: in_items dest: borrow_box)
  moreover have "\<exists>r. key_get (borrow1 s) k1 (map1 s) = Some r"
    using key_get_total [of "map1 s" "borrow1 s" k1] mm_invD [OF inv] by (auto simp: index_ok_def)
  ultimately show "insert_mm a k1 k2 v s = Some (Inl (k1, k2, v), s)"
    using key_get_hit [OF mm_invD(1) [OF inv]] key_get_hit [OF mm_invD(2) [OF inv]]
    by (auto simp: insert_mm_def split: option.splits)
next
  fix s :: "('a, 'b, 'v) multi_map" and k1 k2 v
  assume inv: "mm_inv s" and "(k1, k2, v) \<in> items s"
  then obtain i where i: "boxes s i = Some (k1, k2, v)" by (auto simp: in_items)
  note hits = key_get_hit [OF mm_invD(1) [OF inv] borrow_box(1) [OF i]]
    key_get_hit [OF mm_invD(2) [OF inv] borrow_box(2) [OF i]]
    key_remove_hit [OF mm_invD(1) [OF inv] borrow_box(1) [OF i]]
    key_remove_hit [OF mm_invD(2) [OF inv] borrow_box(2) [OF i]]
  show "get1 k1 s = Some (Some v)" "get2 k2 s = Some (Some v)"
    using hits i by (simp_all add: get1_def get2_def deref_value_def)
  let ?s = "s\<lparr>map1 := filter (\<lambda>(p, _). p \<noteq> i) (map1 s), map2 := filter (\<lambda>(p, _). p \<noteq> i) (map2 s),
      boxes := (boxes s)(i := None)\<rparr>"
  have "borrow1 ?s = (borrow1 s)(i := None)" "borrow2 ?s = (borrow2 s)(i := None)"
    by (auto simp: borrow1_def borrow2_def)
  then have s': "mm_inv ?s"
    using index_ok_remove [OF mm_invD(1) [OF inv], of i] index_ok_remove [OF mm_invD(2) [OF inv], of i]
    by (simp add: mm_inv_def)
  have "j = i" if "boxes s j = Some (k1, k2, v)" for j
  proof (rule inj_onD [of "borrow1 s" "dom (boxes s)"])
    show "inj_on (borrow1 s) (dom (boxes s))" using mm_invD(1) [OF inv] by (simp add: index_ok_def)
    show "borrow1 s j = borrow1 s i" using borrow_box(1) [OF i] borrow_box(1) [OF that] by simp
  qed (use i that in auto)
  then have box: "boxes s j = Some (k1, k2, v) \<longleftrightarrow> j = i" for j using i by blast
  have "t \<in> items ?s \<longleftrightarrow> t \<in> items s - {(k1, k2, v)}" for t
  proof -
    have "t \<in> items ?s \<longleftrightarrow> (\<exists>j. j \<noteq> i \<and> boxes s j = Some t)" by (auto simp: items_def ran_def)
    also have "\<dots> \<longleftrightarrow> (\<exists>j. boxes s j = Some t) \<and> t \<noteq> (k1, k2, v)" using box i by (metis option.inject)
    finally show ?thesis by (simp add: items_def ran_def)
  qed
  then have "items ?s = items s - {(k1, k2, v)}" by blast
  moreover have "remove1_mm k1 s = Some (Some v, ?s)" "remove2_mm k2 s = Some (Some v, ?s)"
    using hits i by (simp_all add: remove1_mm_def remove2_mm_def free_box_def)
  ultimately show
    "\<exists>s'. remove1_mm k1 s = Some (Some v, s') \<and> mm_inv s' \<and> items s' = items s - {(k1, k2, v)}"
    "\<exists>s'. remove2_mm k2 s = Some (Some v, s') \<and> mm_inv s' \<and> items s' = items s - {(k1, k2, v)}"
    using s' by auto
next
  fix s :: "('a, 'b, 'v) multi_map" and k1
  assume inv: "mm_inv s" and "\<forall>k v. (k1, k, v) \<notin> items s"
  then have "k1 \<notin> ran (borrow1 s)" by (simp add: in_ran_borrow)
  with mm_invD(1) [OF inv] show "get1 k1 s = Some None" "remove1_mm k1 s = Some (None, s)"
    by (simp_all add: get1_def remove1_mm_def key_get_miss key_remove_miss deref_value_def)
next
  fix s :: "('a, 'b, 'v) multi_map" and k2
  assume inv: "mm_inv s" and "\<forall>k v. (k, k2, v) \<notin> items s"
  then have "k2 \<notin> ran (borrow2 s)" by (simp add: in_ran_borrow)
  with mm_invD(2) [OF inv] show "get2 k2 s = Some None" "remove2_mm k2 s = Some (None, s)"
    by (simp_all add: get2_def remove2_mm_def key_get_miss key_remove_miss deref_value_def)
qed

section \<open>Mutation in place and clearing\<close>

lemma update_value_ok:
  assumes "mm_inv s" and "boxes s i = Some (k1, k2, v)"
  shows "\<exists>s'. update_value f s (Some i) = Some (True, s') \<and> mm_inv s' \<and>
    items s' = insert (k1, k2, f v) (items s - {(k1, k2, v)})"
proof -
  let ?s = "s\<lparr>boxes := (boxes s)(i \<mapsto> (k1, k2, f v))\<rparr>"
  have b: "borrow1 ?s = borrow1 s" "borrow2 ?s = borrow2 s"
    using borrow_box [OF assms(2)] by (auto simp: fun_upd_idem)
  have "mm_inv ?s"
    using assms(2) mm_invD [OF assms(1)] unfolding mm_inv_def b
    by (simp add: index_ok_update domI)
  moreover have "items ?s = insert (k1, k2, f v) (items s - {(k1, k2, v)})"
  proof (rule set_eqI)
    fix t
    have uniq: "boxes s j = Some (k1, k2, v) \<longleftrightarrow> j = i" for j
      using assms mm_invD(1) [OF assms(1)] borrow_box(1)
      by (metis domI index_ok_def inj_onD)
    have "t \<in> items ?s \<longleftrightarrow> t = (k1, k2, f v) \<or> (\<exists>j. j \<noteq> i \<and> boxes s j = Some t)"
      by (auto simp: items_def ran_def)
    also have "\<dots> \<longleftrightarrow> t = (k1, k2, f v) \<or> (\<exists>j. boxes s j = Some t) \<and> t \<noteq> (k1, k2, v)"
      using uniq assms(2) by (metis option.inject)
    finally show "t \<in> items ?s \<longleftrightarrow> t \<in> insert (k1, k2, f v) (items s - {(k1, k2, v)})"
      by (simp add: items_def ran_def)
  qed
  ultimately show ?thesis using assms(2) by (simp add: update_value_def)
qed

lemma free_items_all:
  "\<forall>(p, i) \<in> set m. p = i \<Longrightarrow> distinct (map fst m) \<Longrightarrow> fst ` set m \<subseteq> dom (boxes s) \<Longrightarrow>
   free_items m s = Some (s\<lparr>boxes := boxes s |` (- fst ` set m)\<rparr>)"
proof (induction m arbitrary: s)
  case (Cons e m)
  obtain i x where e: "e = (i, i)" "boxes s i = Some x" using Cons.prems by (cases e) auto
  let ?s = "s\<lparr>boxes := (boxes s)(i := None)\<rparr>"
  have sub: "fst ` set m \<subseteq> dom (boxes ?s)" using Cons.prems e by (auto simp: image_iff)
  have "free_items (e # m) s = free_items m ?s" using e by (simp add: free_box_def)
  also have "\<dots> = Some (?s\<lparr>boxes := boxes ?s |` (- fst ` set m)\<rparr>)"
    using Cons.prems(1,2) by (intro Cons.IH sub) simp_all
  also have "\<dots> = Some (s\<lparr>boxes := boxes s |` (- fst ` set (e # m))\<rparr>)"
    using e by (auto simp: restrict_map_def fun_eq_iff)
  finally show ?case .
qed (simp add: restrict_map_def)

lemma clear_mm_frees_all: "mm_inv s \<Longrightarrow> clear_mm s = Some multi_map_new"
proof -
  assume inv: "mm_inv s"
  note ok = mm_invD(2) [OF inv]
  have "clear_mm s = Some (s\<lparr>map1 := [], map2 := [], boxes := boxes s |` (- fst ` set (map2 s))\<rparr>)"
    unfolding clear_mm_def using ok by (subst free_items_all) (auto simp: index_ok_def)
  moreover have "boxes s |` (- fst ` set (map2 s)) = Map.empty"
    using ok by (auto simp: index_ok_def restrict_map_def fun_eq_iff)
  ultimately show ?thesis by (simp add: multi_map_new_def)
qed

section \<open>Programs over the map\<close>

text \<open>
  The specification: a list of items without repeated keys. A program is a list of calls; its
  observations are their results. The code's run gets its addresses from an allocator.
\<close>

datatype ('a, 'b, 'v) mm_call =
    Insert 'a 'b 'v | Get1 'a | Get2 'b | Mut1 "'v \<Rightarrow> 'v" 'a | Mut2 "'v \<Rightarrow> 'v" 'b
  | Remove1 'a | Remove2 'b | Clear

datatype ('a, 'b, 'v) mm_obs =
    Inserted | Rejected 'a 'b 'v | Found "'v option" | Mutated bool | Removed "'v option" | Cleared

definition value_of :: "('a \<times> 'b \<times> 'v \<Rightarrow> bool) \<Rightarrow> ('a \<times> 'b \<times> 'v) list \<Rightarrow> 'v option" where
  "value_of P L = map_option (snd \<circ> snd) (find P L)"

fun spec_call ::
  "('a, 'b, 'v) mm_call \<Rightarrow> ('a \<times> 'b \<times> 'v) list \<Rightarrow> ('a, 'b, 'v) mm_obs \<times> ('a \<times> 'b \<times> 'v) list" where
  "spec_call (Insert k1 k2 v) L =
     (if \<exists>(x, y, _) \<in> set L. x = k1 \<or> y = k2 then (Rejected k1 k2 v, L)
      else (Inserted, (k1, k2, v) # L))"
| "spec_call (Get1 k) L = (Found (value_of (\<lambda>(x, _, _). x = k) L), L)"
| "spec_call (Get2 k) L = (Found (value_of (\<lambda>(_, y, _). y = k) L), L)"
| "spec_call (Mut1 f k) L =
     (Mutated (\<exists>(x, _, _) \<in> set L. x = k), map (\<lambda>(x, y, v). (x, y, if x = k then f v else v)) L)"
| "spec_call (Mut2 f k) L =
     (Mutated (\<exists>(_, y, _) \<in> set L. y = k), map (\<lambda>(x, y, v). (x, y, if y = k then f v else v)) L)"
| "spec_call (Remove1 k) L =
     (Removed (value_of (\<lambda>(x, _, _). x = k) L), filter (\<lambda>(x, _, _). x \<noteq> k) L)"
| "spec_call (Remove2 k) L =
     (Removed (value_of (\<lambda>(_, y, _). y = k) L), filter (\<lambda>(_, y, _). y \<noteq> k) L)"
| "spec_call Clear L = (Cleared, [])"

fun code_call ::
  "((addr \<rightharpoonup> 'a \<times> 'b \<times> 'v) \<Rightarrow> addr) \<Rightarrow> ('a, 'b, 'v) mm_call \<Rightarrow> ('a, 'b, 'v) multi_map \<Rightarrow>
   (('a, 'b, 'v) mm_obs \<times> ('a, 'b, 'v) multi_map) option" where
  "code_call alloc (Insert k1 k2 v) s =
     map_option (\<lambda>(r, s'). (case r of Inl (x, y, z) \<Rightarrow> Rejected x y z | Inr () \<Rightarrow> Inserted, s'))
       (insert_mm (alloc (boxes s)) k1 k2 v s)"
| "code_call alloc (Get1 k) s = map_option (\<lambda>r. (Found r, s)) (get1 k s)"
| "code_call alloc (Get2 k) s = map_option (\<lambda>r. (Found r, s)) (get2 k s)"
| "code_call alloc (Mut1 f k) s = map_option (\<lambda>(b, s'). (Mutated b, s')) (get1_mut f k s)"
| "code_call alloc (Mut2 f k) s = map_option (\<lambda>(b, s'). (Mutated b, s')) (get_mut2 f k s)"
| "code_call alloc (Remove1 k) s = map_option (\<lambda>(r, s'). (Removed r, s')) (remove1_mm k s)"
| "code_call alloc (Remove2 k) s = map_option (\<lambda>(r, s'). (Removed r, s')) (remove2_mm k s)"
| "code_call alloc Clear s = map_option (Pair Cleared) (clear_mm s)"

fun spec_run :: "('a, 'b, 'v) mm_call list \<Rightarrow> ('a \<times> 'b \<times> 'v) list \<Rightarrow> ('a, 'b, 'v) mm_obs list" where
  "spec_run [] L = []"
| "spec_run (c # cs) L = (let (r, L') = spec_call c L in r # spec_run cs L')"

fun code_run ::
  "((addr \<rightharpoonup> 'a \<times> 'b \<times> 'v) \<Rightarrow> addr) \<Rightarrow> ('a, 'b, 'v) mm_call list \<Rightarrow> ('a, 'b, 'v) multi_map \<Rightarrow>
   (('a, 'b, 'v) mm_obs list \<times> ('a, 'b, 'v) multi_map) option" where
  "code_run alloc [] s = Some ([], s)"
| "code_run alloc (c # cs) s =
     (case code_call alloc c s of
        None \<Rightarrow> None
      | Some (r, s') \<Rightarrow> map_option (\<lambda>(rs, t). (r # rs, t)) (code_run alloc cs s'))"

definition sim :: "('a, 'b, 'v) multi_map \<Rightarrow> ('a \<times> 'b \<times> 'v) list \<Rightarrow> bool" where
  "sim s L \<longleftrightarrow> mm_inv s \<and> set L = items s"

lemma value_of_hit:
  "t \<in> set L \<Longrightarrow> P t \<Longrightarrow> (\<And>u. u \<in> set L \<Longrightarrow> P u \<Longrightarrow> u = t) \<Longrightarrow> value_of P L = Some (snd (snd t))"
proof -
  assume t: "t \<in> set L" "P t" and uniq: "\<And>u. u \<in> set L \<Longrightarrow> P u \<Longrightarrow> u = t"
  from t obtain x where x: "find P L = Some x" by (metis find_None_iff not_None_eq)
  then have "x \<in> set L" "P x" by (auto simp: find_Some_iff)
  from uniq [OF this] x show ?thesis by (simp add: value_of_def)
qed

lemma value_of_miss: "(\<And>u. u \<in> set L \<Longrightarrow> \<not> P u) \<Longrightarrow> value_of P L = None"
  by (auto simp: value_of_def find_None_iff)

lemma sim_look:
  assumes "sim s L"
  shows "get1 k1 s = Some (value_of (\<lambda>(x, _, _). x = k1) L)"
    "get2 k2 s = Some (value_of (\<lambda>(_, y, _). y = k2) L)"
proof -
  have inv: "mm_inv s" and L: "set L = items s" using assms by (simp_all add: sim_def)
  show "get1 k1 s = Some (value_of (\<lambda>(x, _, _). x = k1) L)"
  proof (cases "\<exists>k v. (k1, k, v) \<in> items s")
    case True
    then obtain k v where t: "(k1, k, v) \<in> items s" by blast
    have uniq: "u = (k1, k, v)" if "u \<in> set L" "case u of (x, _, _) \<Rightarrow> x = k1" for u
      using mm.item_iff(1) [OF inv t, of u] that L by (simp add: case_prod_unfold)
    have "value_of (\<lambda>(x, _, _). x = k1) L = Some (snd (snd (k1, k, v)))"
      by (rule value_of_hit [OF _ _ uniq]) (use t L in auto)
    with mm.look1_hit [OF inv t] show ?thesis by simp
  next
    case False
    then have "value_of (\<lambda>(x, _, _). x = k1) L = None" using L by (intro value_of_miss) auto
    with mm.look1_miss [OF inv] False show ?thesis by simp
  qed
  show "get2 k2 s = Some (value_of (\<lambda>(_, y, _). y = k2) L)"
  proof (cases "\<exists>k v. (k, k2, v) \<in> items s")
    case True
    then obtain k v where t: "(k, k2, v) \<in> items s" by blast
    have uniq: "u = (k, k2, v)" if "u \<in> set L" "case u of (_, y, _) \<Rightarrow> y = k2" for u
      using mm.item_iff(2) [OF inv t, of u] that L by (simp add: case_prod_unfold)
    have "value_of (\<lambda>(_, y, _). y = k2) L = Some (snd (snd (k, k2, v)))"
      by (rule value_of_hit [OF _ _ uniq]) (use t L in auto)
    with mm.look2_hit [OF inv t] show ?thesis by simp
  next
    case False
    then have "value_of (\<lambda>(_, y, _). y = k2) L = None" using L by (intro value_of_miss) auto
    with mm.look2_miss [OF inv] False show ?thesis by simp
  qed
qed

lemma sim_insert:
  assumes "sim s L" and "a \<notin> dom (boxes s)"
  shows "\<exists>s'. insert_mm a k1 k2 v s =
      Some (if \<exists>(x, y, _) \<in> set L. x = k1 \<or> y = k2 then Inl (k1, k2, v) else Inr (), s') \<and>
    sim s' (if \<exists>(x, y, _) \<in> set L. x = k1 \<or> y = k2 then L else (k1, k2, v) # L)"
proof (cases "\<exists>(x, y, _) \<in> set L. x = k1 \<or> y = k2")
  case True
  then obtain x y u where t: "(x, y, u) \<in> items s" and "x = k1 \<or> y = k2"
    using assms(1) by (auto simp: sim_def)
  then have "(k1, y, u) \<in> items s \<or> (x, k2, u) \<in> items s" by auto
  with assms(1) have "insert_mm a k1 k2 v s = Some (Inl (k1, k2, v), s)"
    using mm.ins_dup [of s k1 y u x k2 a v] by (simp add: sim_def)
  with True assms(1) show ?thesis by auto
next
  case False
  then have "\<forall>k v. (k1, k, v) \<notin> items s" "\<forall>k v. (k, k2, v) \<notin> items s"
    using assms(1) by (auto simp: sim_def)
  with assms mm.ins_new [of s a k1 k2 v]
  obtain s' where "insert_mm a k1 k2 v s = Some (Inr (), s')" "mm_inv s'"
    "items s' = insert (k1, k2, v) (items s)"
    by (auto simp: sim_def)
  with False assms(1) show ?thesis unfolding if_not_P [OF False] by (auto simp: sim_def)
qed

lemma sim_remove:
  assumes "sim s L"
  shows "\<exists>s'. remove1_mm k1 s = Some (value_of (\<lambda>(x, _, _). x = k1) L, s') \<and>
      sim s' (filter (\<lambda>(x, _, _). x \<noteq> k1) L)"
    "\<exists>s'. remove2_mm k2 s = Some (value_of (\<lambda>(_, y, _). y = k2) L, s') \<and>
      sim s' (filter (\<lambda>(_, y, _). y \<noteq> k2) L)"
proof -
  have inv: "mm_inv s" and L: "set L = items s" using assms by (simp_all add: sim_def)
  show "\<exists>s'. remove1_mm k1 s = Some (value_of (\<lambda>(x, _, _). x = k1) L, s') \<and>
      sim s' (filter (\<lambda>(x, _, _). x \<noteq> k1) L)"
    using mm.rem1_total [OF inv, of k1] sim_look(1) [OF assms, of k1] L
    by (auto simp: sim_def case_prod_unfold)
  show "\<exists>s'. remove2_mm k2 s = Some (value_of (\<lambda>(_, y, _). y = k2) L, s') \<and>
      sim s' (filter (\<lambda>(_, y, _). y \<noteq> k2) L)"
    using mm.rem2_total [OF inv, of k2] sim_look(2) [OF assms, of k2] L
    by (auto simp: sim_def case_prod_unfold)
qed

lemma sim_mut:
  assumes "sim s L"
  shows "\<exists>s'. get1_mut f k1 s = Some (\<exists>(x, _, _) \<in> set L. x = k1, s') \<and>
      sim s' (map (\<lambda>(x, y, v). (x, y, if x = k1 then f v else v)) L)"
    "\<exists>s'. get_mut2 f k2 s = Some (\<exists>(_, y, _) \<in> set L. y = k2, s') \<and>
      sim s' (map (\<lambda>(x, y, v). (x, y, if y = k2 then f v else v)) L)"
proof -
  have inv: "mm_inv s" and L: "set L = items s" using assms by (simp_all add: sim_def)
  have hit: "\<exists>s'. update_value f s (Some i) = Some (True, s') \<and>
      sim s' (map (\<lambda>(x, y, v). (x, y, if P x y then f v else v)) L)"
    if i: "boxes s i = Some (a, b, c)"
      and P: "\<And>t. t \<in> items s \<Longrightarrow> P (fst t) (fst (snd t)) \<longleftrightarrow> t = (a, b, c)" for P i a b c
  proof -
    have t: "(a, b, c) \<in> items s" using i by (auto simp: in_items)
    let ?g = "\<lambda>(x, y, v). (x, y, if P x y then f v else v)"
    have "?g t = t" if "t \<in> items s - {(a, b, c)}" for t
      using P [of t] that by (cases t) auto
    then have "?g ` (items s - {(a, b, c)}) = (\<lambda>t. t) ` (items s - {(a, b, c)})"
      by (intro image_cong refl)
    then have "?g ` (items s - {(a, b, c)}) = items s - {(a, b, c)}" by (simp only: image_ident)
    moreover have "?g (a, b, c) = (a, b, f c)" using P [OF t] by simp
    moreover have "items s = insert (a, b, c) (items s - {(a, b, c)})" using t by blast
    ultimately have "set (map ?g L) = insert (a, b, f c) (items s - {(a, b, c)})"
      by (metis (no_types, lifting) L image_insert set_map)
    with update_value_ok [OF inv i, of f] show ?thesis unfolding sim_def by metis
  qed
  show "\<exists>s'. get1_mut f k1 s = Some (\<exists>(x, _, _) \<in> set L. x = k1, s') \<and>
      sim s' (map (\<lambda>(x, y, v). (x, y, if x = k1 then f v else v)) L)"
  proof (cases "\<exists>k v. (k1, k, v) \<in> items s")
    case True
    then obtain i k v where t: "(k1, k, v) \<in> items s" and i: "boxes s i = Some (k1, k, v)"
      by (auto simp: in_items)
    have "get1_mut f k1 s = update_value f s (Some i)"
      using key_get_hit [OF mm_invD(1) [OF inv] borrow_box(1) [OF i]] by (simp add: get1_mut_def)
    moreover have "(\<exists>(x, _, _) \<in> set L. x = k1) = True" using t L by auto
    ultimately show ?thesis
      using hit [OF i, of "\<lambda>x y. x = k1", OF mm.item_iff(1) [OF inv t]] by simp
  next
    case False
    then have "map (\<lambda>(x, y, v). (x, y, if x = k1 then f v else v)) L = L"
      using L by (intro map_idI) auto
    moreover have "k1 \<notin> ran (borrow1 s)" using False by (simp add: in_ran_borrow)
    ultimately show ?thesis
      using assms False key_get_miss [OF mm_invD(1) [OF inv]] L
      by (auto simp: get1_mut_def update_value_def)
  qed
  show "\<exists>s'. get_mut2 f k2 s = Some (\<exists>(_, y, _) \<in> set L. y = k2, s') \<and>
      sim s' (map (\<lambda>(x, y, v). (x, y, if y = k2 then f v else v)) L)"
  proof (cases "\<exists>k v. (k, k2, v) \<in> items s")
    case True
    then obtain i k v where t: "(k, k2, v) \<in> items s" and i: "boxes s i = Some (k, k2, v)"
      by (auto simp: in_items)
    have "get_mut2 f k2 s = update_value f s (Some i)"
      using key_get_hit [OF mm_invD(2) [OF inv] borrow_box(2) [OF i]] by (simp add: get_mut2_def)
    moreover have "(\<exists>(_, y, _) \<in> set L. y = k2) = True" using t L by auto
    ultimately show ?thesis
      using hit [OF i, of "\<lambda>x y. y = k2", OF mm.item_iff(2) [OF inv t]] by simp
  next
    case False
    then have "map (\<lambda>(x, y, v). (x, y, if y = k2 then f v else v)) L = L"
      using L by (intro map_idI) auto
    moreover have "k2 \<notin> ran (borrow2 s)" using False by (simp add: in_ran_borrow)
    ultimately show ?thesis
      using assms False key_get_miss [OF mm_invD(2) [OF inv]] L
      by (auto simp: get_mut2_def update_value_def)
  qed
qed

lemma finite_boxes: "mm_inv s \<Longrightarrow> finite (dom (boxes s))"
  by (metis List.finite_set finite_imageI index_ok_def mm_inv_def)

lemma code_call_sim:
  assumes "sim s L" and alloc: "\<And>h. finite (dom h) \<Longrightarrow> alloc h \<notin> dom h"
  shows "\<exists>s'. code_call alloc c s = Some (fst (spec_call c L), s') \<and> sim s' (snd (spec_call c L))"
proof (cases c)
  case (Insert k1 k2 v)
  have "alloc (boxes s) \<notin> dom (boxes s)" using alloc [OF finite_boxes, of s] assms(1) by (auto simp: sim_def)
  from sim_insert [OF assms(1) this, of k1 k2 v] obtain s' where
    "insert_mm (alloc (boxes s)) k1 k2 v s =
       Some (if \<exists>(x, y, _) \<in> set L. x = k1 \<or> y = k2 then Inl (k1, k2, v) else Inr (), s')"
    "sim s' (if \<exists>(x, y, _) \<in> set L. x = k1 \<or> y = k2 then L else (k1, k2, v) # L)" by blast
  then show ?thesis unfolding Insert
    by (cases "\<exists>(x, y, _) \<in> set L. x = k1 \<or> y = k2") (simp_all only: code_call.simps spec_call.simps
        if_True if_False option.map prod.case sum.case unit.case fst_conv snd_conv option.inject
        prod.inject simp_thms ex_simps)
next
  case (Get1 k)
  then show ?thesis using assms(1) sim_look(1) [OF assms(1), of k] by simp
next
  case (Get2 k)
  then show ?thesis using assms(1) sim_look(2) [OF assms(1), of k] by simp
next
  case (Mut1 f k)
  with sim_mut(1) [OF assms(1), of f k] show ?thesis by auto
next
  case (Mut2 f k)
  with sim_mut(2) [OF assms(1), of f k] show ?thesis by auto
next
  case (Remove1 k)
  with sim_remove(1) [OF assms(1), of k] show ?thesis by auto
next
  case (Remove2 k)
  with sim_remove(2) [OF assms(1), of k] show ?thesis by auto
next
  case Clear
  then show ?thesis
    using assms(1) clear_mm_frees_all [of s] by (simp add: sim_def mm.empty_inv mm.empty_items)
qed

lemma code_run_sim:
  assumes "sim s L" and "\<And>h. finite (dom h) \<Longrightarrow> alloc h \<notin> dom h"
  shows "\<exists>t. code_run alloc cs s = Some (spec_run cs L, t) \<and> mm_inv t"
  using assms(1)
proof (induction cs arbitrary: s L)
  case (Cons c cs)
  obtain s' where s': "code_call alloc c s = Some (fst (spec_call c L), s')" "sim s' (snd (spec_call c L))"
    using code_call_sim [OF Cons.prems assms(2)] by blast
  with Cons.IH [OF s'(2)] show ?case by (auto simp: split_beta)
qed (simp add: sim_def)

section \<open>Properties\<close>

text \<open>
  C13: the map of raw pointers behaves as a map with two unique keys. For every program of calls
  and every allocator that never returns an address in use, the run never touches a dangling
  pointer, every call returns what the specification says, and dropping the map at the end
  frees every box exactly once.
\<close>

theorem multi_map_refines:
  fixes alloc :: "(addr \<rightharpoonup> 'a \<times> 'b \<times> 'v) \<Rightarrow> addr"
  assumes "\<And>h. finite (dom h) \<Longrightarrow> alloc h \<notin> dom h"
  shows "\<exists>t. code_run alloc cs multi_map_new = Some (spec_run cs [], t) \<and>
    clear_mm t = Some multi_map_new"
proof -
  have "sim multi_map_new []" by (simp add: sim_def mm.empty_inv mm.empty_items)
  from code_run_sim [OF this assms] obtain t where
    "code_run alloc cs multi_map_new = Some (spec_run cs [], t)" "mm_inv t" by blast
  with clear_mm_frees_all show ?thesis by blast
qed

text \<open>An allocator that takes the first address not in use.\<close>

definition first_free :: "(addr \<rightharpoonup> 'x) \<Rightarrow> addr" where
  "first_free h = (LEAST a. h a = None)"

lemma first_free_fresh: "finite (dom h) \<Longrightarrow> first_free h \<notin> dom h"
  unfolding first_free_def
  by (metis (mono_tags, lifting) LeastI_ex domIff ex_new_if_finite infinite_UNIV_nat)

theorem multi_map_refines_witness:
  "\<exists>t. code_run first_free
     [Insert (1::nat) True ''x'', Insert 2 True ''y'', Get2 True, Mut1 (\<lambda>v. v @ v) 1, Remove2 True,
      Insert 2 True ''y'', Get1 2, Get1 1] multi_map_new =
     Some ([Inserted, Rejected 2 True ''y'', Found (Some ''x''), Mutated True, Removed (Some ''xx''),
       Inserted, Found (Some ''y''), Found None], t)"
proof -
  let ?cs = "[Insert (1::nat) True ''x'', Insert 2 True ''y'', Get2 True, Mut1 (\<lambda>v. v @ v) 1,
      Remove2 True, Insert 2 True ''y'', Get1 2, Get1 1]"
  have "spec_run ?cs [] = [Inserted, Rejected 2 True ''y'', Found (Some ''x''), Mutated True,
      Removed (Some ''xx''), Inserted, Found (Some ''y''), Found None]"
    by (simp add: value_of_def)
  with multi_map_refines [of first_free ?cs] first_free_fresh show ?thesis by auto
qed

end
