(* ===== verification/Config_Watcher.thy ===== *)
theory Config_Watcher
  imports Config
begin

text \<open>
  The configuration watcher, src/src/config_watcher.rs: comparing two configurations, turning
  their difference into events, and the loop that rereads the file. The trait
  \<open>InstanceConfig\<close> is a locale, interpreted for the server's and the client's configuration.
\<close>

section \<open>Equality of configurations\<close>

text \<open>\<open>HashMap\<close> equality: same size, and every entry of one is an entry of the other.\<close>

definition hm_eq :: "('k, 'v) hash_map \<Rightarrow> ('k, 'v) hash_map \<Rightarrow> bool" where
  "hm_eq a b = (length a = length b \<and> list_all (\<lambda>(k, v). map_of b k = Some v) a)"

definition server_config_eq :: "server_config \<Rightarrow> server_config \<Rightarrow> bool" where
  "server_config_eq a b =
     (a\<lparr>sc_users := [], sc_services := []\<rparr> = b\<lparr>sc_users := [], sc_services := []\<rparr> \<and>
      hm_eq (sc_users a) (sc_users b) \<and> hm_eq (sc_services a) (sc_services b))"

definition client_config_eq :: "client_config \<Rightarrow> client_config \<Rightarrow> bool" where
  "client_config_eq a b =
     (a\<lparr>cc_services := []\<rparr> = b\<lparr>cc_services := []\<rparr> \<and> hm_eq (cc_services a) (cc_services b))"

definition opt_eq :: "('a \<Rightarrow> 'a \<Rightarrow> bool) \<Rightarrow> 'a option \<Rightarrow> 'a option \<Rightarrow> bool" where
  "opt_eq eq x y =
     (case (x, y) of (None, None) \<Rightarrow> True | (Some a, Some b) \<Rightarrow> eq a b | _ \<Rightarrow> False)"

definition config_eq :: "config \<Rightarrow> config \<Rightarrow> bool" where
  "config_eq a b =
     (opt_eq server_config_eq (cfg_server a) (cfg_server b) \<and>
      opt_eq client_config_eq (cfg_client a) (cfg_client b))"

section \<open>Events\<close>

datatype server_service_change = ServerAdd server_service_config | ServerDelete string

datatype client_service_change = ClientAdd client_service_config | ClientDelete string

datatype config_change =
    General config
  | ServerChange server_service_change
  | ClientChange client_service_change

text \<open>The two implementations of \<open>InstanceConfig\<close>.\<close>

definition server_equal_without_service :: "server_config \<Rightarrow> server_config \<Rightarrow> bool" where
  "server_equal_without_service a b = server_config_eq (a\<lparr>sc_services := []\<rparr>) (b\<lparr>sc_services := []\<rparr>)"

definition server_service_delete_change :: "string \<Rightarrow> config_change" where
  "server_service_delete_change s = ServerChange (ServerDelete s)"

definition server_service_add_change :: "server_service_config \<Rightarrow> config_change" where
  "server_service_add_change c = ServerChange (ServerAdd c)"

definition client_equal_without_service :: "client_config \<Rightarrow> client_config \<Rightarrow> bool" where
  "client_equal_without_service a b = client_config_eq (a\<lparr>cc_services := []\<rparr>) (b\<lparr>cc_services := []\<rparr>)"

definition client_service_delete_change :: "string \<Rightarrow> config_change" where
  "client_service_delete_change s = ClientChange (ClientDelete s)"

definition client_service_add_change :: "client_service_config \<Rightarrow> config_change" where
  "client_service_add_change c = ClientChange (ClientAdd c)"

text \<open>The generic function over the trait: its methods are the first four arguments.\<close>

definition calculate_instance_config_events ::
  "('c \<Rightarrow> 'c \<Rightarrow> bool) \<Rightarrow> (string \<Rightarrow> config_change) \<Rightarrow> ('s \<Rightarrow> config_change) \<Rightarrow>
   ('c \<Rightarrow> (string, 's) hash_map) \<Rightarrow> 'c \<Rightarrow> 'c \<Rightarrow> config_change list option" where
  "calculate_instance_config_events equal_without_service delete_change add_change get_services old new =
     (if \<not> equal_without_service old new then None
      else
        let old_s = get_services old; new_s = get_services new;
            deletions = map delete_change (filter (\<lambda>name. map_of new_s name = None) (map fst old_s));
            additions = map (\<lambda>(_, c). add_change c)
                          (filter (\<lambda>(name, c). map_of old_s name \<noteq> Some c) new_s)
        in Some (deletions @ additions))"

abbreviation server_config_events :: "server_config \<Rightarrow> server_config \<Rightarrow> config_change list option" where
  "server_config_events \<equiv> calculate_instance_config_events server_equal_without_service
     server_service_delete_change server_service_add_change sc_services"

abbreviation client_config_events :: "client_config \<Rightarrow> client_config \<Rightarrow> config_change list option" where
  "client_config_events \<equiv> calculate_instance_config_events client_equal_without_service
     client_service_delete_change client_service_add_change cc_services"

text \<open>
  \<open>calculate_events\<close>. Both \<open>unwrap\<close>s are reached only when the roles agree and the two sides
  differ, so that both are present; the last alternatives of the case distinctions are dead.
\<close>

definition events_of_role ::
  "('c \<Rightarrow> 'c \<Rightarrow> bool) \<Rightarrow> ('c \<Rightarrow> 'c \<Rightarrow> config_change list option) \<Rightarrow> 'c option \<Rightarrow> 'c option \<Rightarrow>
   config_change list option" where
  "events_of_role eq events old new =
     (if opt_eq eq old new then Some []
      else (case (old, new) of (Some a, Some b) \<Rightarrow> events a b | _ \<Rightarrow> None))"

definition calculate_events :: "config \<Rightarrow> config \<Rightarrow> config_change list option" where
  "calculate_events old new =
     (if config_eq old new then None
      else if (cfg_server old = None) \<noteq> (cfg_server new = None) \<or>
              (cfg_client old = None) \<noteq> (cfg_client new = None)
      then Some [General new]
      else (case events_of_role server_config_eq server_config_events (cfg_server old) (cfg_server new) of
              None \<Rightarrow> Some [General new]
            | Some v \<Rightarrow>
                (case events_of_role client_config_eq client_config_events (cfg_client old) (cfg_client new) of
                   None \<Rightarrow> Some [General new]
                 | Some w \<Rightarrow> Some (v @ w))))"

section \<open>The watcher\<close>

text \<open>
  One turn of the watcher's loop, after a file event: reread the file, ignore it when it is
  invalid, otherwise send the events. \<open>toml\<close> is the parser and \<open>content\<close> what reading the file
  gave.
\<close>

definition watcher_turn ::
  "(string \<Rightarrow> config option) \<Rightarrow> config \<Rightarrow> string option \<Rightarrow> config \<times> config_change list" where
  "watcher_turn toml old content =
     (case from_file toml (\<lambda>_. content) '''' of
        Inl _ \<Rightarrow> (old, [])
      | Inr new \<Rightarrow> (new, concat (case calculate_events old new of None \<Rightarrow> [] | Some v \<Rightarrow> [v])))"

fun config_watcher ::
  "(string \<Rightarrow> config option) \<Rightarrow> config \<Rightarrow> string option list \<Rightarrow> config \<times> config_change list" where
  "config_watcher toml old [] = (old, [])"
| "config_watcher toml old (content # rest) =
     (let (old1, sent) = watcher_turn toml old content;
          (old2, sent') = config_watcher toml old1 rest
      in (old2, sent @ sent'))"

definition config_watcher_new ::
  "(string \<Rightarrow> config option) \<Rightarrow> string option \<Rightarrow> string option list \<Rightarrow>
   config_error + (config \<times> config_change list)" where
  "config_watcher_new toml first rest =
     (case from_file toml (\<lambda>_. first) '''' of
        Inl e \<Rightarrow> Inl e
      | Inr origin \<Rightarrow>
          (let (final, sent) = config_watcher toml origin rest in Inr (final, General origin # sent)))"

section \<open>What an event asks for\<close>

text \<open>The effect an event stands for, on the configuration of the instance that receives it.\<close>

fun apply_server_change :: "config_change \<Rightarrow> server_config \<Rightarrow> server_config" where
  "apply_server_change (ServerChange (ServerAdd c)) s =
     s\<lparr>sc_services := hm_insert (ss_name c) c (sc_services s)\<rparr>"
| "apply_server_change (ServerChange (ServerDelete n)) s =
     s\<lparr>sc_services := hm_remove n (sc_services s)\<rparr>"
| "apply_server_change _ s = s"

fun apply_client_change :: "config_change \<Rightarrow> client_config \<Rightarrow> client_config" where
  "apply_client_change (ClientChange (ClientAdd c)) s =
     s\<lparr>cc_services := hm_insert (cs_name c) c (cc_services s)\<rparr>"
| "apply_client_change (ClientChange (ClientDelete n)) s =
     s\<lparr>cc_services := hm_remove n (cc_services s)\<rparr>"
| "apply_client_change _ s = s"

definition apply_change :: "config_change \<Rightarrow> config \<Rightarrow> config" where
  "apply_change ev c =
     (case ev of
        General new \<Rightarrow> new
      | _ \<Rightarrow> \<lparr>cfg_server = map_option (apply_server_change ev) (cfg_server c),
              cfg_client = map_option (apply_client_change ev) (cfg_client c)\<rparr>)"

lemma hm_eq_iff: "hm_inv a \<Longrightarrow> hm_inv b \<Longrightarrow> hm_eq a b \<longleftrightarrow> map_of a = map_of b"
proof
  assume inv: "hm_inv a" "hm_inv b" and eq: "hm_eq a b"
  have sub: "map_of a \<subseteq>\<^sub>m map_of b"
    using eq by (force simp: hm_eq_def map_le_def list_all_iff dest: map_of_SomeD)
  have "card (dom (map_of b)) = card (dom (map_of a))"
    using hmm.length_keys [OF inv(1)] hmm.length_keys [OF inv(2)] eq by (simp add: hm_eq_def)
  moreover have "dom (map_of a) \<subseteq> dom (map_of b)" using sub by (rule map_le_implies_dom_le)
  ultimately have "dom (map_of a) = dom (map_of b)"
    by (metis card_subset_eq finite_dom_map_of)
  with sub show "map_of a = map_of b" by (metis map_le_antisym map_le_def)
next
  assume inv: "hm_inv a" "hm_inv b" and eq: "map_of a = map_of b"
  have "length (map fst a) = length (map fst b)"
    using hmm.length_keys [OF inv(1)] hmm.length_keys [OF inv(2)] eq by simp
  moreover have "list_all (\<lambda>(k, v). map_of b k = Some v) a"
    using inv(1) eq by (auto simp: list_all_iff hm_inv_def simp flip: eq)
  ultimately show "hm_eq a b" by (simp add: hm_eq_def)
qed

section \<open>The trait InstanceConfig\<close>

text \<open>
  What the generic function relies on: the events stand for insertion and removal of one
  service, and two instances that agree without their services agree when their services do.
\<close>

locale instance_config =
  fixes equal_ws :: "'c \<Rightarrow> 'c \<Rightarrow> bool"
    and del_change :: "string \<Rightarrow> config_change"
    and add_change :: "'s \<Rightarrow> config_change"
    and services :: "'c \<Rightarrow> (string, 's) hash_map"
    and service_name :: "'s \<Rightarrow> string"
    and apply_ev :: "config_change \<Rightarrow> 'c \<Rightarrow> 'c"
    and same :: "'c \<Rightarrow> 'c \<Rightarrow> bool"
  assumes apply_del: "services (apply_ev (del_change n) c) = hm_remove n (services c)"
    and apply_add: "services (apply_ev (add_change s) c) = hm_insert (service_name s) s (services c)"
    and equal_ws_del: "equal_ws (apply_ev (del_change n) a) b = equal_ws a b"
    and equal_ws_add: "equal_ws (apply_ev (add_change s) a) b = equal_ws a b"
    and equal_ws_trans: "equal_ws a b \<Longrightarrow> equal_ws b c \<Longrightarrow> equal_ws a c"
    and same_iff: "same a b \<longleftrightarrow> equal_ws a b \<and> hm_eq (services a) (services b)"
begin

definition well_named :: "'c \<Rightarrow> bool" where
  "well_named c \<longleftrightarrow> hm_inv (services c) \<and> (\<forall>(k, s) \<in> set (services c). service_name s = k)"

lemma fold_del:
  "map_of (services (fold apply_ev (map del_change ns) c)) = (map_of (services c)) |` (- set ns) \<and>
   (hm_inv (services c) \<longrightarrow> hm_inv (services (fold apply_ev (map del_change ns) c))) \<and>
   equal_ws (fold apply_ev (map del_change ns) c) b = equal_ws c b"
proof (induction ns arbitrary: c)
  case (Cons n ns)
  show ?case
    using Cons.IH [of "apply_ev (del_change n) c"]
    by (auto simp: apply_del equal_ws_del delete_conv' restrict_map_def fun_eq_iff hmm.invar_rem)
qed (simp add: restrict_map_def)

lemma fold_add:
  "map_of (services (fold apply_ev (map add_change ss) c)) =
     map_of (services c) ++ map_of (rev (map (\<lambda>s. (service_name s, s)) ss)) \<and>
   (hm_inv (services c) \<longrightarrow> hm_inv (services (fold apply_ev (map add_change ss) c))) \<and>
   equal_ws (fold apply_ev (map add_change ss) c) b = equal_ws c b"
proof (induction ss arbitrary: c)
  case (Cons s ss)
  show ?case
    using Cons.IH [of "apply_ev (add_change s) c"]
    by (auto simp: apply_add equal_ws_add update_conv' map_add_def fun_eq_iff hmm.invar_ins
        split: option.splits)
qed simp

lemma events_Some:
  assumes "calculate_instance_config_events equal_ws del_change add_change services old new = Some evs"
  shows "equal_ws old new"
    "evs = map del_change (filter (\<lambda>name. map_of (services new) name = None) (map fst (services old))) @
       map add_change (map snd (filter (\<lambda>(name, c). map_of (services old) name \<noteq> Some c) (services new)))"
  using assms
  by (simp_all add: calculate_instance_config_events_def case_prod_unfold Let_def comp_def split: if_splits)

text \<open>Applying the computed events to any copy \<open>r\<close> of the old configuration gives the new one.\<close>

lemma events_reach_new:
  assumes ev: "calculate_instance_config_events equal_ws del_change add_change services old new = Some evs"
    and r: "same r old" and inv: "hm_inv (services r)" "hm_inv (services old)" and new: "well_named new"
  shows "same (fold apply_ev evs r) new" "hm_inv (services (fold apply_ev evs r))"
proof -
  let ?dels = "filter (\<lambda>name. map_of (services new) name = None) (map fst (services old))"
  let ?adds = "filter (\<lambda>(name, c). map_of (services old) name \<noteq> Some c) (services new)"
  have eq: "equal_ws old new" and evs: "evs = map del_change ?dels @ map add_change (map snd ?adds)"
    using events_Some [OF ev] by simp_all
  let ?mid = "fold apply_ev (map del_change ?dels) r"
  have fin: "fold apply_ev evs r = fold apply_ev (map add_change (map snd ?adds)) ?mid"
    by (simp add: evs)
  have copy: "map_of (services r) = map_of (services old)" "equal_ws r old"
    using r hm_eq_iff [OF inv] by (simp_all add: same_iff)
  have named: "map (\<lambda>s. (service_name s, s)) (map snd ?adds) = ?adds"
    using new by (auto simp: well_named_def intro!: map_idI)
  have d: "distinct (map fst (services new))" using new by (simp add: well_named_def hm_inv_def)
  have dist: "distinct (map fst (rev ?adds))" using distinct_map_filter [OF d] by (simp flip: rev_map)
  have adds: "map_of (rev ?adds) k = Some c \<longleftrightarrow>
      map_of (services new) k = Some c \<and> map_of (services old) k \<noteq> Some c" for k c
    unfolding map_of_eq_Some_iff [OF dist] map_of_eq_Some_iff [OF d] by simp
  have dels: "k \<in> set ?dels \<longleftrightarrow> map_of (services new) k = None \<and> map_of (services old) k \<noteq> None" for k
    by (auto simp: map_of_eq_None_iff)
  have "map_of (services (fold apply_ev evs r)) k = map_of (services new) k" for k
  proof -
    have "map_of (services (fold apply_ev evs r)) k =
        (case map_of (rev ?adds) k of Some c \<Rightarrow> Some c
         | None \<Rightarrow> if k \<in> set ?dels then None else map_of (services old) k)"
      unfolding fin fold_add [THEN conjunct1] fold_del [THEN conjunct1] named copy
      by (simp add: map_add_def restrict_map_def del: set_filter set_map split: option.splits)
    also have "\<dots> = map_of (services new) k" using adds dels by (rule patched_lookup)
    finally show ?thesis .
  qed
  moreover show inv': "hm_inv (services (fold apply_ev evs r))"
    unfolding fin using fold_add fold_del inv(1) by blast
  moreover have "equal_ws (fold apply_ev evs r) new"
    unfolding fin
    using fold_add [THEN conjunct2, THEN conjunct2] fold_del [THEN conjunct2, THEN conjunct2]
      equal_ws_trans [OF copy(2) eq]
    by blast
  ultimately show "same (fold apply_ev evs r) new"
    using new by (auto simp: same_iff hm_eq_iff [OF inv'] well_named_def)
qed

text \<open>An event names only services that really changed.\<close>

lemma events_minimal:
  assumes "calculate_instance_config_events equal_ws del_change add_change services old new = Some evs"
    and "well_named new" and "ev \<in> set evs"
  shows "(\<exists>n. ev = del_change n \<and> map_of (services old) n \<noteq> None \<and> map_of (services new) n = None) \<or>
    (\<exists>s. ev = add_change s \<and> map_of (services new) (service_name s) = Some s \<and>
       map_of (services old) (service_name s) \<noteq> Some s)"
proof -
  have named: "service_name s = k" "map_of (services new) k = Some s" if "(k, s) \<in> set (services new)" for k s
    using assms(2) that by (auto simp: well_named_def hm_inv_def)
  have "ev \<in> del_change ` {n \<in> fst ` set (services old). map_of (services new) n = None} \<or>
      ev \<in> add_change ` snd ` {(k, s) \<in> set (services new). map_of (services old) k \<noteq> Some s}"
    using assms(3) unfolding events_Some(2) [OF assms(1)] by auto
  then show ?thesis
  proof
    assume "ev \<in> del_change ` {n \<in> fst ` set (services old). map_of (services new) n = None}"
    then show ?thesis by (auto simp: map_of_eq_None_iff)
  next
    assume "ev \<in> add_change ` snd ` {(k, s) \<in> set (services new). map_of (services old) k \<noteq> Some s}"
    then obtain k s where "ev = add_change s" "(k, s) \<in> set (services new)" "map_of (services old) k \<noteq> Some s"
      by auto
    with named [OF this(2)] show ?thesis by blast
  qed
qed

end

lemma hm_eq_trans: "hm_eq a b \<Longrightarrow> hm_eq b c \<Longrightarrow> hm_eq a c"
  by (fastforce simp: hm_eq_def list_all_iff dest: map_of_SomeD)

lemma hm_eq_Nil [simp]: "hm_eq [] []"
  by (simp add: hm_eq_def)

lemma hm_eq_refl: "hm_inv a \<Longrightarrow> hm_eq a a"
  by (simp add: hm_eq_iff)

interpretation server_instance: instance_config server_equal_without_service
  server_service_delete_change server_service_add_change sc_services ss_name apply_server_change
  server_config_eq
  by unfold_locales
    (auto simp: server_service_delete_change_def server_service_add_change_def
      server_equal_without_service_def server_config_eq_def
      intro: hm_eq_trans)

interpretation client_instance: instance_config client_equal_without_service
  client_service_delete_change client_service_add_change cc_services cs_name apply_client_change
  client_config_eq
  by unfold_locales
    (auto simp: client_service_delete_change_def client_service_add_change_def
      client_equal_without_service_def client_config_eq_def
      intro: hm_eq_trans)

section \<open>Whole configurations\<close>

definition maps_ok :: "config \<Rightarrow> bool" where
  "maps_ok c \<longleftrightarrow>
     (\<forall>s. cfg_server c = Some s \<longrightarrow> hm_inv (sc_users s) \<and> hm_inv (sc_services s)) \<and>
     (\<forall>s. cfg_client c = Some s \<longrightarrow> hm_inv (cc_services s))"

definition names_ok :: "config \<Rightarrow> bool" where
  "names_ok c \<longleftrightarrow>
     (\<forall>s. cfg_server c = Some s \<longrightarrow> (\<forall>(k, v) \<in> set (sc_services s). ss_name v = k)) \<and>
     (\<forall>s. cfg_client c = Some s \<longrightarrow> (\<forall>(k, v) \<in> set (cc_services s). cs_name v = k))"

lemma map_values_hm_inv: "map_values f m = Inr m' \<Longrightarrow> hm_inv m \<Longrightarrow> hm_inv m'"
  by (simp add: hm_inv_def map_values_keys)

lemma from_str_maps_ok:
  assumes "from_str toml s = Inr c" and "\<And>c0. toml s = Some c0 \<Longrightarrow> maps_ok c0"
  shows "maps_ok c \<and> names_ok c"
proof -
  obtain c0 :: config where c0: "toml s = Some c0"
    "validate_opt validate_server_config (cfg_server c0) = Inr (cfg_server c)"
    "validate_opt validate_client_config (cfg_client c0) = Inr (cfg_client c)"
    using assms(1) unfolding from_str_Inr by blast
  have ok: "maps_ok c0" using assms(2) c0(1) .
  have server: "\<exists>s0. cfg_server c0 = Some s0 \<and> validate_server_config s0 = Inr sv"
    if "cfg_server c = Some sv" for sv
    using c0(2) that by (auto simp: validate_opt_Inr split: option.splits)
  have client: "\<exists>s0. cfg_client c0 = Some s0 \<and> validate_client_config s0 = Inr cl"
    if "cfg_client c = Some cl" for cl
    using c0(3) that by (auto simp: validate_opt_Inr split: option.splits)
  have maps: "maps_ok c"
    using ok server client
    by (fastforce simp: maps_ok_def validate_server_config_Inr validate_client_config_Inr
        intro: map_values_hm_inv)
  moreover have "names_ok c"
    unfolding names_ok_def
  proof (intro conjI allI impI ballI; clarify)
    fix sv k v assume sv: "cfg_server c = Some sv" and "(k, v) \<in> set (sc_services sv)"
    then have "map_of (sc_services sv) k = Some v" using maps by (simp add: maps_ok_def hm_inv_def)
    then show "ss_name v = k" using server [OF sv] server_service_valid by blast
  next
    fix cl k v assume cl: "cfg_client c = Some cl" and "(k, v) \<in> set (cc_services cl)"
    then have "map_of (cc_services cl) k = Some v" using maps by (simp add: maps_ok_def hm_inv_def)
    then show "cs_name v = k" using client [OF cl] client_service_valid by blast
  qed
  ultimately show ?thesis ..
qed

lemma opt_eq_simps [simp]:
  "opt_eq eq None None" "opt_eq eq (Some a) (Some b) = eq a b"
  "\<not> opt_eq eq None (Some b)" "\<not> opt_eq eq (Some a) None"
  by (simp_all add: opt_eq_def)

text \<open>Events of one role, replayed on a copy of the old configuration of that role.\<close>


context instance_config
begin

lemma same_trans: "same a b \<Longrightarrow> same b c \<Longrightarrow> same a c"
  by (auto simp: same_iff intro: equal_ws_trans hm_eq_trans)

lemma role_reach:
  assumes ev: "events_of_role same
      (calculate_instance_config_events equal_ws del_change add_change services) old new = Some evs"
    and r: "opt_eq same r old"
    and inv: "\<And>c. r = Some c \<Longrightarrow> hm_inv (services c)" "\<And>c. old = Some c \<Longrightarrow> hm_inv (services c)"
    and new: "\<And>c. new = Some c \<Longrightarrow> well_named c"
  shows "opt_eq same (map_option (fold apply_ev evs) r) new \<and>
    (\<forall>c. map_option (fold apply_ev evs) r = Some c \<longrightarrow> hm_inv (services c))"
proof (cases "opt_eq same old new")
  case True
  then have "evs = []" using ev by (simp add: events_of_role_def)
  with True r inv(1) show ?thesis by (cases r; cases old; cases new) (auto intro: same_trans)
next
  case False
  then obtain a b where ab: "old = Some a" "new = Some b"
    "calculate_instance_config_events equal_ws del_change add_change services a b = Some evs"
    using ev by (auto simp: events_of_role_def split: option.splits)
  then obtain c where "r = Some c" "same c a" using r by (cases r) auto
  with ab events_reach_new [OF ab(3) this(2)] inv new show ?thesis by auto
qed

end

lemma apply_server_users [simp]: "sc_users (fold apply_server_change evs s) = sc_users s"
proof (induction evs arbitrary: s)
  case (Cons ev evs)
  have "sc_users (apply_server_change ev s) = sc_users s"
    by (cases "(ev, s)" rule: apply_server_change.cases) simp_all
  with Cons show ?case by simp
qed simp

definition is_server_change :: "config_change \<Rightarrow> bool" where
  "is_server_change ev \<longleftrightarrow> (\<exists>c. ev = ServerChange c)"

definition is_client_change :: "config_change \<Rightarrow> bool" where
  "is_client_change ev \<longleftrightarrow> (\<exists>c. ev = ClientChange c)"

lemma role_events_kind:
  "events_of_role server_config_eq server_config_events old new = Some v \<Longrightarrow> \<forall>ev \<in> set v. is_server_change ev"
  "events_of_role client_config_eq client_config_events old' new' = Some w \<Longrightarrow> \<forall>ev \<in> set w. is_client_change ev"
  by (auto simp: events_of_role_def calculate_instance_config_events_def Let_def is_server_change_def
      is_client_change_def server_service_delete_change_def server_service_add_change_def
      client_service_delete_change_def client_service_add_change_def split: if_splits option.splits)

lemma fold_ignored:
  "\<forall>ev \<in> set w. is_client_change ev \<Longrightarrow> fold apply_server_change w s = s"
  "\<forall>ev \<in> set v. is_server_change ev \<Longrightarrow> fold apply_client_change v c = c"
  by (induction w arbitrary: s) (auto simp: is_client_change_def,
      induction v arbitrary: c, auto simp: is_server_change_def)

lemma fold_apply_change:
  "\<forall>ev \<in> set evs. is_server_change ev \<or> is_client_change ev \<Longrightarrow>
   fold apply_change evs c = \<lparr>cfg_server = map_option (fold apply_server_change evs) (cfg_server c),
      cfg_client = map_option (fold apply_client_change evs) (cfg_client c)\<rparr>"
proof (induction evs arbitrary: c)
  case Nil
  then show ?case by (cases c) (simp add: option.map_ident)
next
  case (Cons ev evs)
  then have "apply_change ev c = \<lparr>cfg_server = map_option (apply_server_change ev) (cfg_server c),
      cfg_client = map_option (apply_client_change ev) (cfg_client c)\<rparr>"
    by (auto simp: apply_change_def is_server_change_def is_client_change_def)
  with Cons show ?case by (simp add: option.map_comp comp_def)
qed

lemma config_eq_refl: "maps_ok c \<Longrightarrow> config_eq c c"
  by (cases "cfg_server c"; cases "cfg_client c")
    (auto simp: config_eq_def maps_ok_def server_config_eq_def client_config_eq_def hm_eq_refl)

lemma config_eq_trans:
  assumes "config_eq a b" "config_eq b c"
  shows "config_eq a c"
  using assms unfolding config_eq_def
  by (cases "cfg_server a"; cases "cfg_server b"; cases "cfg_server c";
      cases "cfg_client a"; cases "cfg_client b"; cases "cfg_client c")
    (auto intro: server_instance.same_trans client_instance.same_trans)

lemma events_reach:
  assumes r: "config_eq r old" and ok: "maps_ok r" "maps_ok old" "maps_ok new" "names_ok new"
    and evs: "evs = concat (case calculate_events old new of None \<Rightarrow> [] | Some v \<Rightarrow> [v])"
  shows "config_eq (fold apply_change evs r) new \<and> maps_ok (fold apply_change evs r)"
proof -
  consider (same) "config_eq old new" "evs = []" | (general) "evs = [General new]"
    | (roles) v w where "evs = v @ w"
      "events_of_role server_config_eq server_config_events (cfg_server old) (cfg_server new) = Some v"
      "events_of_role client_config_eq client_config_events (cfg_client old) (cfg_client new) = Some w"
    using evs by (auto simp: calculate_events_def split: if_splits option.splits)
  then show ?thesis
  proof cases
    case same
    then show ?thesis using config_eq_trans [OF r] ok(1) by simp
  next
    case general
    then show ?thesis using config_eq_refl [OF ok(3)] ok(3) by (simp add: apply_change_def)
  next
    case roles
    note kinds = role_events_kind(1) [OF roles(2)] role_events_kind(2) [OF roles(3)]
    have fold: "fold apply_change evs r =
        \<lparr>cfg_server = map_option (fold apply_server_change v) (cfg_server r),
         cfg_client = map_option (fold apply_client_change w) (cfg_client r)\<rparr>"
      using kinds by (subst fold_apply_change) (auto simp: roles(1) fold_ignored comp_def)
    have s: "opt_eq server_config_eq (map_option (fold apply_server_change v) (cfg_server r)) (cfg_server new) \<and>
      (\<forall>c. map_option (fold apply_server_change v) (cfg_server r) = Some c \<longrightarrow> hm_inv (sc_services c))"
      by (rule server_instance.role_reach [OF roles(2)])
        (use r ok in \<open>auto simp: config_eq_def maps_ok_def names_ok_def server_instance.well_named_def\<close>)
    have c: "opt_eq client_config_eq (map_option (fold apply_client_change w) (cfg_client r)) (cfg_client new) \<and>
      (\<forall>c. map_option (fold apply_client_change w) (cfg_client r) = Some c \<longrightarrow> hm_inv (cc_services c))"
      by (rule client_instance.role_reach [OF roles(3)])
        (use r ok in \<open>auto simp: config_eq_def maps_ok_def names_ok_def client_instance.well_named_def\<close>)
    show ?thesis using s c ok(1) unfolding fold by (auto simp: config_eq_def maps_ok_def)
  qed
qed

section \<open>Properties\<close>

lemma watcher_reach:
  assumes "config_eq r old" "maps_ok r" "maps_ok old"
    and toml: "\<And>body c0. toml body = Some c0 \<Longrightarrow> maps_ok c0"
    and "config_watcher toml old contents = (final, sent)"
  shows "config_eq (fold apply_change sent r) final"
  using assms(1-3,5)
proof (induction contents arbitrary: r old sent)
  case (Cons content rest)
  obtain old1 sent1 sent2 where t: "watcher_turn toml old content = (old1, sent1)"
    "config_watcher toml old1 rest = (final, sent2)" "sent = sent1 @ sent2"
    using Cons.prems(4) by (auto split: prod.splits)
  have "config_eq (fold apply_change sent1 r) old1 \<and> maps_ok (fold apply_change sent1 r) \<and> maps_ok old1"
  proof (cases "from_file toml (\<lambda>_. content) ''''")
    case (Inl e)
    then show ?thesis using t(1) Cons.prems by (simp add: watcher_turn_def)
  next
    case (Inr new)
    then obtain body where "from_str toml body = Inr new"
      by (auto simp: from_file_def split: option.splits)
    then have "maps_ok new \<and> names_ok new" using from_str_maps_ok toml by blast
    with events_reach [OF Cons.prems(1-3), of new] t(1) Inr show ?thesis
      by (auto simp: watcher_turn_def)
  qed
  with Cons.IH [OF _ _ _ t(2)] t(3) show ?case by simp
qed (use assms in simp)

text \<open>
  The watcher's events track the file. For any sequence of rereads of the configuration
  file, valid or not, replaying everything the watcher sent (a full configuration first, then
  restarts and single-service changes) ends in a configuration equal to the last valid one.
\<close>

theorem watcher_tracks_file:
  assumes "\<And>body c. toml body = Some c \<Longrightarrow> maps_ok c"
    and "config_watcher_new toml first rest = Inr (final, sent)"
  shows "config_eq (fold apply_change sent c0) final"
proof -
  obtain origin sent' where og: "from_file toml (\<lambda>_. first) '''' = Inr origin"
    "config_watcher toml origin rest = (final, sent')" "sent = General origin # sent'"
    using assms(2) by (auto simp: config_watcher_new_def split: sum.splits prod.splits)
  then have ok: "maps_ok origin"
    using from_str_maps_ok assms(1) by (fastforce simp: from_file_def split: option.splits)
  from watcher_reach [OF config_eq_refl [OF ok] ok ok assms(1) og(2)] og(3)
  show ?thesis by (simp add: apply_change_def)
qed

definition demo_toml :: "string \<Rightarrow> config option" where
  "demo_toml s =
     (if s = ''a'' then Some \<lparr>cfg_server = Some demo_server, cfg_client = None\<rparr>
      else if s = ''b'' then Some \<lparr>cfg_server = Some (demo_server\<lparr>sc_services := []\<rparr>), cfg_client = None\<rparr>
      else None)"

lemma demo_toml_maps_ok: "demo_toml s = Some c \<Longrightarrow> maps_ok c"
  by (auto simp: demo_toml_def maps_ok_def demo_server_def hm_inv_def split: if_splits)

text \<open>The two versions the stand-in knows, as they load, and a run over them with bad versions between.\<close>

definition demo_version_a :: config where
  "demo_version_a = \<lparr>cfg_server = Some (demo_server\<lparr>sc_services := [(''web'', \<lparr>ss_type = ServiceTcp, ss_name = ''web'',
     ss_bind_addr = ''0.0.0.0:80'', ss_user = Some ''default'', ss_token = Some ''t'', ss_nodelay = None\<rparr>)]\<rparr>), cfg_client = None\<rparr>"

definition demo_version_b :: config where
  "demo_version_b = \<lparr>cfg_server = Some (demo_server\<lparr>sc_services := []\<rparr>), cfg_client = None\<rparr>"

lemma demo_loads:
  "from_file demo_toml (\<lambda>_. Some ''a'') '''' = Inr demo_version_a"
  "from_file demo_toml (\<lambda>_. Some ''b'') '''' = Inr demo_version_b"
  "from_file demo_toml (\<lambda>_. Some ''junk'') '''' = Inl ParseFailed"
  "from_file demo_toml (\<lambda>_. None) '''' = Inl ReadFailed"
  by (simp_all add: from_file_def from_str_def validate_opt_def res_bind_def validate_server_config_def
      validate_server_service_def server_service_with_name_def validate_transport_config_def
      transport_config_default_def tcp_config_default_def udp_transport_config_default_def demo_toml_def
      demo_server_def demo_version_a_def demo_version_b_def)

lemma demo_watch:
  "config_watcher_new demo_toml (Some ''a'') [Some ''junk'', None, Some ''b''] =
   Inr (demo_version_b, [General demo_version_a, ServerChange (ServerDelete ''web'')])"
proof -
  have "calculate_events demo_version_a demo_version_b = Some [ServerChange (ServerDelete ''web'')]"
    by (simp add: calculate_events_def config_eq_def server_config_eq_def hm_eq_def events_of_role_def
        calculate_instance_config_events_def server_equal_without_service_def demo_server_def
        demo_version_a_def demo_version_b_def server_service_delete_change_def)
  then show ?thesis by (simp add: config_watcher_new_def watcher_turn_def demo_loads)
qed

theorem watcher_tracks_file_witness:
  "\<exists>final sent. config_watcher_new demo_toml (Some ''a'') [Some ''junk'', None, Some ''b''] = Inr (final, sent) \<and>
     length sent = 2 \<and> config_eq (fold apply_change sent final) final"
  using watcher_tracks_file [OF demo_toml_maps_ok demo_watch] demo_watch by simp

text \<open>
  A service that did not change is left alone. An event computed for a server names either a
  service that is gone or one whose configuration is new or different.
\<close>

theorem service_events_minimal:
  assumes "server_config_events old new = Some evs" and "ev \<in> set evs"
    and "hm_inv (sc_services new)" and "\<forall>(k, s) \<in> set (sc_services new). ss_name s = k"
  shows "(\<exists>n. ev = ServerChange (ServerDelete n) \<and>
       map_of (sc_services old) n \<noteq> None \<and> map_of (sc_services new) n = None) \<or>
    (\<exists>s. ev = ServerChange (ServerAdd s) \<and> map_of (sc_services new) (ss_name s) = Some s \<and>
       map_of (sc_services old) (ss_name s) \<noteq> Some s)"
  using server_instance.events_minimal [OF assms(1) _ assms(2)] assms(3,4)
  by (simp add: server_instance.well_named_def server_service_delete_change_def
      server_service_add_change_def)

theorem service_events_minimal_witness:
  "\<exists>n. ServerChange (ServerDelete ''web'') = ServerChange (ServerDelete n) \<and>
     map_of (sc_services demo_server) n \<noteq> None"
proof -
  let ?old = demo_server and ?new = "demo_server\<lparr>sc_services := []\<rparr>"
  have e: "server_config_events ?old ?new = Some [ServerChange (ServerDelete ''web'')]"
    by (simp add: server_config_eq_def hm_eq_def calculate_instance_config_events_def
        server_equal_without_service_def demo_server_def server_service_delete_change_def)
  from service_events_minimal [OF e, of "ServerChange (ServerDelete ''web'')"]
  show ?thesis by (auto simp: hm_inv_def)
qed

end
