(* ===== verification/Server.thy ===== *)
theory Server
  imports Server_Channel Multi_Map Config_Watcher
begin

text \<open>
  The server, src/src/server.rs up to \<open>ControlChannelHandle\<close>: the table of services, the table of
  control channels, the three handshakes of an incoming connection, hot reload, and the main loop.
  Hash, serialisation and memory allocation are parameters, collected in \<open>env\<close>; the random numbers
  a handshake draws are arguments.

  Outcomes: \<open>Done\<close> with a result, \<open>Waits\<close> when the code waits for room in a queue, and \<open>Undefined\<close>
  for undefined behaviour (a dangling pointer followed inside the table of control channels).
\<close>

section \<open>State\<close>

record control_channel_handle =
  h_session :: nat
  h_service :: server_service_config

type_synonym channel_map = "(digest, digest, control_channel_handle) multi_map"

record env =
  en_sha :: "bytes \<Rightarrow> digest"
  en_bc :: bincode
  en_alloc :: "(addr \<rightharpoonup> digest \<times> digest \<times> control_channel_handle) \<Rightarrow> addr"

record server =
  sv_config :: server_config
  sv_services :: "(digest, server_service_config) hash_map"
  sv_channels :: channel_map
  sv_sessions :: "nat \<rightharpoonup> session"
  sv_next :: nat

datatype 'a outcome = Done 'a | Waits | Undefined

fun of_option :: "'a option \<Rightarrow> 'a outcome" where
  "of_option (Some x) = Done x"
| "of_option None = Undefined"

section \<open>Services\<close>

definition service_id :: "string option \<Rightarrow> string \<Rightarrow> string" where
  "service_id user name = (case user of Some u \<Rightarrow> u | None \<Rightarrow> ''default'') @ '':'' @ name"

definition service_digest :: "(bytes \<Rightarrow> digest) \<Rightarrow> string option \<Rightarrow> string \<Rightarrow> digest" where
  "service_digest sha user name = sha (as_bytes (service_id user name))"

definition generate_service_hashmap ::
  "(bytes \<Rightarrow> digest) \<Rightarrow> server_config \<Rightarrow> (digest, server_service_config) hash_map" where
  "generate_service_hashmap sha cfg =
     fold (\<lambda>(name, s) m. hm_insert (service_digest sha (ss_user s) name) s m) (sc_services cfg) []"

definition server_from_config :: "(bytes \<Rightarrow> digest) \<Rightarrow> server_config \<Rightarrow> server" where
  "server_from_config sha cfg =
     \<lparr>sv_config = cfg, sv_services = generate_service_hashmap sha cfg, sv_channels = multi_map_new,
      sv_sessions = Map.empty, sv_next = 0\<rparr>"

section \<open>The table of control channels\<close>

text \<open>Dropping a handle tells its tasks; \<open>remove1\<close> hands back a handle that is dropped at once.\<close>

definition drop_session :: "control_channel_handle \<Rightarrow> server \<Rightarrow> server" where
  "drop_session h sv =
     sv\<lparr>sv_sessions := (sv_sessions sv)(h_session h := map_option drop_handle (sv_sessions sv (h_session h)))\<rparr>"

definition remove_channel :: "digest \<Rightarrow> server \<Rightarrow> server option" where
  "remove_channel d sv =
     (case remove1_mm d (sv_channels sv) of
        None \<Rightarrow> None
      | Some (r, m) \<Rightarrow>
          Some (case r of None \<Rightarrow> sv\<lparr>sv_channels := m\<rparr> | Some h \<Rightarrow> drop_session h (sv\<lparr>sv_channels := m\<rparr>)))"

definition new_handle :: "conn \<Rightarrow> server_service_config \<Rightarrow> server \<Rightarrow> control_channel_handle \<times> server" where
  "new_handle c service sv =
     (\<lparr>h_session = sv_next sv, h_service = service\<rparr>,
      sv\<lparr>sv_sessions := (sv_sessions sv)(sv_next sv \<mapsto>
             control_channel_handle_new c service (sc_heartbeat_interval (sv_config sv))),
         sv_next := Suc (sv_next sv)\<rparr>)"

text \<open>A refused insertion gives the handle back, and it is dropped.\<close>

definition insert_channel ::
  "env \<Rightarrow> digest \<Rightarrow> digest \<Rightarrow> control_channel_handle \<Rightarrow> server \<Rightarrow> server option" where
  "insert_channel en k1 k2 h sv =
     (case insert_mm (en_alloc en (boxes (sv_channels sv))) k1 k2 h (sv_channels sv) of
        None \<Rightarrow> None
      | Some (Inr _, m) \<Rightarrow> Some (sv\<lparr>sv_channels := m\<rparr>)
      | Some (Inl (_, _, h'), m) \<Rightarrow> Some (drop_session h' (sv\<lparr>sv_channels := m\<rparr>)))"

section \<open>Handshakes\<close>

text \<open>
  The part of \<open>do_control_channel_handshake\<close> before the table is locked. \<open>services\<close> is the table of
  services at the moment of the lookup.
\<close>

definition control_channel_auth ::
  "env \<Rightarrow> digest \<Rightarrow> (digest, server_service_config) hash_map \<Rightarrow> digest \<Rightarrow>
   (server_service_config \<times> digest) io" where
  "control_channel_auth en nonce services d conn =
     io_bind (write_packet_message (en_bc en) (MHello (ControlChannelHello CURRENT_PROTO_VERSION nonce))) (\<lambda>_.
       case map_of services d of
         None \<Rightarrow>
           io_bind (write_packet_message (en_bc en) (MAck AckServiceNotExist)) (\<lambda>_. io_fail NoSuchService)
       | Some service_config \<Rightarrow>
           io_bind (read_auth (en_bc en)) (\<lambda>auth.
             let session_key = en_sha en (token_bytes (ss_token service_config) @ nonce)
             in if session_key \<noteq> auth
                then io_bind (write_packet_message (en_bc en) (MAck AckAuthFailed)) (\<lambda>_. io_fail AuthFailure)
                else io_return (service_config, session_key)))
     (hint for_control_channel conn)"

text \<open>The rest runs under the lock: drop the old channel, acknowledge, insert the new one.\<close>

definition do_control_channel_handshake ::
  "env \<Rightarrow> digest \<Rightarrow> (digest, server_service_config) hash_map \<Rightarrow> digest \<Rightarrow> conn \<Rightarrow> server \<Rightarrow>
   ((net_error + unit) \<times> conn \<times> server) option" where
  "do_control_channel_handshake en nonce services d conn sv =
     (case control_channel_auth en nonce services d conn of
        (Inl e, c) \<Rightarrow> Some (Inl e, c, sv)
      | (Inr (service_config, session_key), c) \<Rightarrow>
          Option.bind (remove_channel d sv) (\<lambda>sv1.
            case write_packet_message (en_bc en) (MAck AckOk) c of
              (Inl e, c') \<Rightarrow> Some (Inl e, c', sv1)
            | (Inr _, c') \<Rightarrow>
                (let (h, sv2) = new_handle c' service_config sv1
                 in map_option (\<lambda>sv3. (Inr (), c', sv3)) (insert_channel en d session_key h sv2))))"

definition do_data_channel_handshake ::
  "digest \<Rightarrow> conn \<Rightarrow> server \<Rightarrow> ((net_error + unit) \<times> conn \<times> server) outcome" where
  "do_data_channel_handshake nonce conn sv =
     (case get2 nonce (sv_channels sv) of
        None \<Rightarrow> Undefined
      | Some None \<Rightarrow> Done (Inr (), conn, sv)
      | Some (Some h) \<Rightarrow>
          (let c1 = hint (from_server_cfg (h_service h)) conn;
               c2 = (if ss_type (h_service h) = ServiceUdp then set_nack_mode c1 else c1)
           in case sv_sessions sv (h_session h) of
                None \<Rightarrow> Undefined
              | Some se \<Rightarrow>
                  (case send_data_ch c2 se of
                     None \<Rightarrow> Waits
                   | Some (r, se') \<Rightarrow>
                       Done (r, c2, sv\<lparr>sv_sessions := (sv_sessions sv)(h_session h \<mapsto> se')\<rparr>))))"

text \<open>The user whose token answers the challenge, in the order the map of users is visited.\<close>

definition find_visitor_user ::
  "(bytes \<Rightarrow> digest) \<Rightarrow> (string, user_config) hash_map \<Rightarrow> digest \<Rightarrow> digest \<Rightarrow> (string \<times> user_config) option" where
  "find_visitor_user sha users challenge_nonce d =
     find (\<lambda>(_, u). sha (token_bytes (uc_token u) @ challenge_nonce) = d) users"

definition visitor_channel_auth ::
  "env \<Rightarrow> digest \<Rightarrow> digest \<Rightarrow> server_config \<Rightarrow> (string \<times> user_config \<times> visitor_auth) io" where
  "visitor_channel_auth en challenge_nonce session_nonce cfg conn =
     io_bind (write_all challenge_nonce) (\<lambda>_.
     io_bind (read_visitor_auth (en_bc en)) (\<lambda>auth.
       case find_visitor_user (en_sha en) (sc_users cfg) challenge_nonce (va_token_digest auth) of
         None \<Rightarrow>
           io_bind (write_packet_message (en_bc en) (MVisitorAck VisitorAuthFailed)) (\<lambda>_. io_fail AuthFailure)
       | Some (user_name, user_config) \<Rightarrow>
           (case parse_sock_addr (va_bind_addr auth) of
              None \<Rightarrow>
                io_bind (write_packet_message (en_bc en) (MVisitorAck VisitorBindError)) (\<lambda>_. io_fail BadBindAddr)
            | Some bind_addr \<Rightarrow>
                if \<not> is_port_allowed (uc_allowed_ports user_config) (sa_port bind_addr)
                then io_bind (write_packet_message (en_bc en) (MVisitorAck VisitorPortDenied))
                       (\<lambda>_. io_fail PortNotAllowed)
                else io_bind (write_packet_message (en_bc en) (MVisitorAck VisitorOk)) (\<lambda>_.
                     io_bind (write_packet_message (en_bc en) (MAuth session_nonce)) (\<lambda>_.
                       io_return (user_name, user_config, auth))))))
     (hint for_control_channel conn)"

definition visitor_service :: "string \<Rightarrow> user_config \<Rightarrow> visitor_auth \<Rightarrow> server_service_config" where
  "visitor_service user_name user_config auth =
     \<lparr>ss_type = va_service_type auth, ss_name = ''visitor:'' @ user_name, ss_bind_addr = va_bind_addr auth,
      ss_user = Some user_name, ss_token = uc_token user_config, ss_nodelay = None\<rparr>"

definition visitor_digest :: "(bytes \<Rightarrow> digest) \<Rightarrow> string \<Rightarrow> string \<Rightarrow> digest" where
  "visitor_digest sha user_name bind_addr = sha (as_bytes (user_name @ '':visitor:'' @ bind_addr))"

definition do_visitor_channel_handshake ::
  "env \<Rightarrow> digest \<Rightarrow> digest \<Rightarrow> conn \<Rightarrow> server \<Rightarrow> ((net_error + unit) \<times> conn \<times> server) option" where
  "do_visitor_channel_handshake en challenge_nonce session_nonce conn sv =
     (case visitor_channel_auth en challenge_nonce session_nonce (sv_config sv) conn of
        (Inl e, c) \<Rightarrow> Some (Inl e, c, sv)
      | (Inr (user_name, user_config, auth), c) \<Rightarrow>
          (let d = visitor_digest (en_sha en) user_name (va_bind_addr auth);
               (h, sv1) = new_handle c (visitor_service user_name user_config auth) sv
           in Option.bind (remove_channel d sv1) (\<lambda>sv2.
                map_option (\<lambda>sv3. (Inr (), c, sv3)) (insert_channel en d session_nonce h sv2))))"

text \<open>The random numbers one connection draws.\<close>

record chance =
  rnd_nonce :: digest
  rnd_challenge :: digest
  rnd_session :: digest

definition handle_connection ::
  "env \<Rightarrow> chance \<Rightarrow> (digest, server_service_config) hash_map \<Rightarrow> conn \<Rightarrow> server \<Rightarrow>
   ((net_error + unit) \<times> conn \<times> server) outcome" where
  "handle_connection en rnd services conn sv =
     (case read_hello (en_bc en) conn of
        (Inl e, c) \<Rightarrow> Done (Inl e, c, sv)
      | (Inr (ControlChannelHello _ d), c) \<Rightarrow>
          of_option (do_control_channel_handshake en (rnd_nonce rnd) services d c sv)
      | (Inr (DataChannelHello _ nonce), c) \<Rightarrow> do_data_channel_handshake nonce c sv
      | (Inr (VisitorHello _ _), c) \<Rightarrow>
          of_option (do_visitor_channel_handshake en (rnd_challenge rnd) (rnd_session rnd) c sv))"

section \<open>Hot reload and the main loop\<close>

definition handle_hot_reload :: "env \<Rightarrow> config_change \<Rightarrow> server \<Rightarrow> server option" where
  "handle_hot_reload en e sv =
     (case e of
        ServerChange (ServerAdd cfg) \<Rightarrow>
          (let hash = service_digest (en_sha en) (ss_user cfg) (ss_name cfg)
           in remove_channel hash (sv\<lparr>sv_services := hm_insert hash cfg (sv_services sv)\<rparr>))
      | ServerChange (ServerDelete s) \<Rightarrow>
          (case find (\<lambda>(_, cfg). ss_name cfg = s) (sv_services sv) of
             Some (hash, _) \<Rightarrow> remove_channel hash (sv\<lparr>sv_services := hm_remove hash (sv_services sv)\<rparr>)
           | None \<Rightarrow> Some sv)
      | _ \<Rightarrow> Some sv)"

text \<open>The end of \<open>Server::run\<close>: \<open>clear\<close> drops every handle.\<close>

definition server_shutdown :: "server \<Rightarrow> server option" where
  "server_shutdown sv =
     map_option (\<lambda>m. fold (\<lambda>(_, i) sv'. case boxes (sv_channels sv) i of
                               Some (_, _, h) \<Rightarrow> drop_session h sv' | None \<Rightarrow> sv')
                          (map2 (sv_channels sv)) (sv\<lparr>sv_channels := m\<rparr>))
       (clear_mm (sv_channels sv))"

text \<open>
  The branches of \<open>Server::run\<close> and what the spawned tasks do between them: an error of \<open>accept\<close>, an
  accepted connection whose transport handshake fails, a connection handled with the services it
  looked up, an update, and a turn of one of the tasks of a control channel.
\<close>

datatype server_event =
    AcceptFailed
  | HandshakeFailed
  | Connection chance "(digest, server_service_config) hash_map" conn
  | Update config_change
  | SessionTurn nat session_event

definition server_turn :: "env \<Rightarrow> server_event \<Rightarrow> server \<Rightarrow> server outcome" where
  "server_turn en ev sv =
     (case ev of
        AcceptFailed \<Rightarrow> Done sv
      | HandshakeFailed \<Rightarrow> Done sv
      | Connection rnd services conn \<Rightarrow>
          (case handle_connection en rnd services conn sv of
             Done (_, _, sv') \<Rightarrow> Done sv' | Waits \<Rightarrow> Waits | Undefined \<Rightarrow> Undefined)
      | Update e \<Rightarrow> of_option (handle_hot_reload en e sv)
      | SessionTurn i sev \<Rightarrow>
          (case (sv_sessions sv i, sev) of
             (None, _) \<Rightarrow> Waits
           | (_, DataChannel _) \<Rightarrow> Waits
           | (_, HandleDropped) \<Rightarrow> Waits
           | (Some se, _) \<Rightarrow>
               (case session_turn (en_bc en) sev se of
                  None \<Rightarrow> Waits
                | Some se' \<Rightarrow> Done (sv\<lparr>sv_sessions := (sv_sessions sv)(i \<mapsto> se')\<rparr>))))"

text \<open>
  \<open>Server::run\<close> along a sequence of events that ends with the shutdown signal: bind, loop, clear. An event that
  has to wait changes nothing. \<open>bound\<close> is what binding the address gave.
\<close>

fun server_loop :: "env \<Rightarrow> server_event list \<Rightarrow> server \<Rightarrow> server outcome" where
  "server_loop en [] sv = Done sv"
| "server_loop en (ev # evs) sv =
     (case server_turn en ev sv of
        Done sv' \<Rightarrow> server_loop en evs sv'
      | Waits \<Rightarrow> server_loop en evs sv
      | Undefined \<Rightarrow> Undefined)"

definition server_run :: "env \<Rightarrow> net_error + unit \<Rightarrow> server_event list \<Rightarrow> server \<Rightarrow> (net_error + server) outcome" where
  "server_run en bound evs sv =
     (case bound of
        Inl e \<Rightarrow> Done (Inl e)
      | Inr _ \<Rightarrow>
          (case server_loop en evs sv of
             Done sv' \<Rightarrow> of_option (map_option Inr (server_shutdown sv'))
           | Waits \<Rightarrow> Waits
           | Undefined \<Rightarrow> Undefined))"

inductive server_reach :: "env \<Rightarrow> server_config \<Rightarrow> server \<Rightarrow> bool" for en :: env and cfg :: server_config where
  reach_start: "server_reach en cfg (server_from_config (en_sha en) cfg)"
| reach_turn: "server_reach en cfg sv \<Longrightarrow> server_turn en ev sv = Done sv' \<Longrightarrow> server_reach en cfg sv'"

section \<open>Invariant\<close>

definition env_ok :: "env \<Rightarrow> bool" where
  "env_ok en \<longleftrightarrow> (\<forall>h. finite (dom h) \<longrightarrow> en_alloc en h \<notin> dom h)"

definition live :: "server \<Rightarrow> nat \<Rightarrow> bool" where
  "live sv i \<longleftrightarrow> (\<exists>se. sv_sessions sv i = Some se \<and> \<not> se_dropped se)"

definition owner :: "digest \<times> digest \<times> control_channel_handle \<Rightarrow> nat" where
  "owner t = h_session (snd (snd t))"

text \<open>
  The sessions that run are those of the handles in the table, each of one handle, and those in \<open>X\<close>,
  whose handles are still in the hands of a handshake.
\<close>

definition server_inv_with :: "nat set \<Rightarrow> server \<Rightarrow> bool" where
  "server_inv_with X sv \<longleftrightarrow>
     mm_inv (sv_channels sv) \<and> hm_inv (sv_services sv) \<and> (\<forall>i \<in> dom (sv_sessions sv). i < sv_next sv) \<and>
     (\<forall>i. live sv i \<longleftrightarrow> i \<in> owner ` items (sv_channels sv) \<union> X) \<and>
     inj_on owner (items (sv_channels sv)) \<and> X \<inter> owner ` items (sv_channels sv) = {}"

abbreviation server_inv :: "server \<Rightarrow> bool" where
  "server_inv \<equiv> server_inv_with {}"

lemma server_inv_withD:
  assumes "server_inv_with X sv"
  shows "mm_inv (sv_channels sv)" "hm_inv (sv_services sv)" "i \<in> dom (sv_sessions sv) \<Longrightarrow> i < sv_next sv"
    "live sv i \<longleftrightarrow> i \<in> owner ` items (sv_channels sv) \<union> X" "inj_on owner (items (sv_channels sv))"
    "X \<inter> owner ` items (sv_channels sv) = {}"
  using assms by (auto simp: server_inv_with_def)

lemma server_inv_withI:
  assumes "mm_inv (sv_channels sv)" "hm_inv (sv_services sv)" "\<And>i. i \<in> dom (sv_sessions sv) \<Longrightarrow> i < sv_next sv"
    "\<And>i. live sv i \<longleftrightarrow> i \<in> owner ` items (sv_channels sv) \<union> X" "inj_on owner (items (sv_channels sv))"
    "X \<inter> owner ` items (sv_channels sv) = {}"
  shows "server_inv_with X sv"
  using assms unfolding server_inv_with_def by blast

lemma live_drop: "live (drop_session h sv) i \<longleftrightarrow> live sv i \<and> i \<noteq> h_session h"
  by (auto simp: live_def drop_session_def drop_handle_def)

lemma drop_session_fields [simp]:
  "sv_channels (drop_session h sv) = sv_channels sv" "sv_services (drop_session h sv) = sv_services sv"
  "sv_next (drop_session h sv) = sv_next sv" "sv_config (drop_session h sv) = sv_config sv"
  "dom (sv_sessions (drop_session h sv)) = dom (sv_sessions sv)"
  by (auto simp: drop_session_def)

lemma live_fields [simp]:
  "live (sv\<lparr>sv_channels := m\<rparr>) = live sv" "live (sv\<lparr>sv_services := s\<rparr>) = live sv"
  by (simp_all add: live_def fun_eq_iff)

text \<open>Taking the channel of a digest out of the table: the handles of the other digests stay.\<close>

lemma remove_channel_total:
  assumes "server_inv_with X sv"
  shows "\<exists>sv'. remove_channel d sv = Some sv' \<and> server_inv_with X sv' \<and>
    items (sv_channels sv') = {t \<in> items (sv_channels sv). fst t \<noteq> d} \<and>
    sv_services sv' = sv_services sv \<and> sv_config sv' = sv_config sv \<and> sv_next sv' = sv_next sv \<and>
    (\<forall>i. (\<forall>k h. (d, k, h) \<in> items (sv_channels sv) \<longrightarrow> i \<noteq> h_session h) \<longrightarrow> sv_sessions sv' i = sv_sessions sv i)"
proof -
  note inv = server_inv_withD [OF assms]
  obtain r m where m: "remove1_mm d (sv_channels sv) = Some (r, m)" "mm_inv m"
    "items m = {t \<in> items (sv_channels sv). fst t \<noteq> d}" "get1 d (sv_channels sv) = Some r"
    using mm.rem1_total [OF inv(1), of d] by blast
  show ?thesis
  proof (cases r)
    case None
    have "fst t \<noteq> d" if "t \<in> items (sv_channels sv)" for t
      using mm.look1_hit [OF inv(1), of d "fst (snd t)" "snd (snd t)"] that m(4) None by force
    then have eq: "items m = items (sv_channels sv)" using m(3) by blast
    have "server_inv_with X (sv\<lparr>sv_channels := m\<rparr>)"
      using m(2) inv(2-6) by (intro server_inv_withI) (simp_all add: eq)
    moreover have "remove_channel d sv = Some (sv\<lparr>sv_channels := m\<rparr>)" using m(1) None by (simp add: remove_channel_def)
    ultimately show ?thesis using m(3) by auto
  next
    case (Some h)
    then obtain k where k: "(d, k, h) \<in> items (sv_channels sv)"
      using m(4) mm.look1_iff [OF inv(1), of d h] by auto
    have eq: "items m = items (sv_channels sv) - {(d, k, h)}"
      using mm.item_iff(1) [OF inv(1) k] m(3) by blast
    have own: "owner ` items m = owner ` items (sv_channels sv) - {h_session h}"
      using inv(5) k inj_on_image_set_diff [of owner "items (sv_channels sv)" "items (sv_channels sv)" "{(d, k, h)}"]
      by (simp add: eq owner_def)
    have "h_session h \<in> owner ` items (sv_channels sv)" using k by (force simp: owner_def)
    then have "server_inv_with X (drop_session h (sv\<lparr>sv_channels := m\<rparr>))"
      using inv(2-6) m(2) inj_on_diff [OF inv(5), of "{(d, k, h)}", folded eq]
      by (intro server_inv_withI) (auto simp: live_drop own)
    moreover have "remove_channel d sv = Some (drop_session h (sv\<lparr>sv_channels := m\<rparr>))"
      using m(1) Some by (simp add: remove_channel_def)
    moreover have "i \<noteq> h_session h \<Longrightarrow> sv_sessions (drop_session h (sv\<lparr>sv_channels := m\<rparr>)) i = sv_sessions sv i" for i
      by (simp add: drop_session_def)
    ultimately show ?thesis using m(3) k by auto
  qed
qed

lemma new_handle_inv:
  assumes "server_inv_with X sv" and "new_handle c service sv = (h, sv')"
  shows "server_inv_with (insert (h_session h) X) sv'"
    "h_session h \<notin> owner ` items (sv_channels sv) \<union> X"
proof -
  note inv = server_inv_withD [OF assms(1)]
  have h: "h_session h = sv_next sv" "sv_channels sv' = sv_channels sv" "sv_services sv' = sv_services sv"
    "sv_next sv' = Suc (sv_next sv)" "dom (sv_sessions sv') = insert (sv_next sv) (dom (sv_sessions sv))"
    using assms(2) by (auto simp: new_handle_def)
  have l: "live sv' i \<longleftrightarrow> live sv i \<or> i = sv_next sv" for i
    using assms(2) by (auto simp: new_handle_def live_def control_channel_handle_new_def)
  have "\<not> live sv (sv_next sv)" using inv(3) by (auto simp: live_def)
  then show new: "h_session h \<notin> owner ` items (sv_channels sv) \<union> X" using inv(4) h(1) by simp
  show "server_inv_with (insert (h_session h) X) sv'"
    using inv l new by (intro server_inv_withI) (auto simp: h intro: less_SucI)
qed

text \<open>Inserting a handle succeeds or drops it.\<close>

lemma insert_channel_total:
  assumes "server_inv_with (insert (h_session h) X) sv" and "h_session h \<notin> X" and "env_ok en"
  shows "\<exists>sv'. insert_channel en k1 k2 h sv = Some sv' \<and> server_inv_with X sv' \<and>
    items (sv_channels sv') =
      (if \<exists>(x, y, _) \<in> items (sv_channels sv). x = k1 \<or> y = k2 then items (sv_channels sv)
       else insert (k1, k2, h) (items (sv_channels sv))) \<and>
    sv_services sv' = sv_services sv \<and> sv_config sv' = sv_config sv \<and>
    (\<forall>i. i \<noteq> h_session h \<longrightarrow> sv_sessions sv' i = sv_sessions sv i) \<and>
    ((\<forall>(x, y, _) \<in> items (sv_channels sv). x \<noteq> k1 \<and> y \<noteq> k2) \<longrightarrow> sv_sessions sv' = sv_sessions sv)"
proof -
  note inv = server_inv_withD [OF assms(1)]
  let ?m = "sv_channels sv"
  let ?a = "en_alloc en (boxes ?m)"
  have fresh: "?a \<notin> dom (boxes ?m)" using assms(3) finite_boxes [OF inv(1)] by (simp add: env_ok_def)
  show ?thesis
  proof (cases "\<exists>(x, y, _) \<in> items ?m. x = k1 \<or> y = k2")
    case True
    then have "insert_mm ?a k1 k2 h ?m = Some (Inl (k1, k2, h), ?m)" using mm.ins_dup [OF inv(1)] by blast
    then have ins: "insert_channel en k1 k2 h sv = Some (drop_session h sv)" by (simp add: insert_channel_def)
    have "live (drop_session h sv) i \<longleftrightarrow> i \<in> owner ` items ?m \<union> X" for i
      using inv(4) [of i] inv(6) assms(2) unfolding live_drop by blast
    then have "server_inv_with X (drop_session h sv)"
      using inv(1,2,3,5,6) by (intro server_inv_withI) simp_all
    then show ?thesis using True ins by (auto simp: drop_session_def)
  next
    case False
    then obtain m where m: "insert_mm ?a k1 k2 h ?m = Some (Inr (), m)" "mm_inv m" "items m = insert (k1, k2, h) (items ?m)"
      using mm.ins_new [OF inv(1) fresh, of k1 k2 h] by blast
    have own: "owner (k1, k2, h) = h_session h" by (simp add: owner_def)
    have "server_inv_with X (sv\<lparr>sv_channels := m\<rparr>)"
      using inv(2-6) assms(2) m(2) by (intro server_inv_withI) (auto simp: m(3) own)
    moreover have "insert_channel en k1 k2 h sv = Some (sv\<lparr>sv_channels := m\<rparr>)" using m(1) by (simp add: insert_channel_def)
    ultimately show ?thesis using False m(3) by auto
  qed
qed

section \<open>Handshakes keep the invariant\<close>

lemma read_packet_inp: "inp c = inp c1 \<Longrightarrow> fst (read_packet_message bc c) = fst (read_packet_message bc c1)"
  by (simp add: read_packet_message_def io_bind_def read_framed_packet_unframe split: option.splits)

lemma fst_io_bind:
  "fst (io_bind m f c) = (case m c of (Inl e, c') \<Rightarrow> Inl e | (Inr a, c') \<Rightarrow> fst (f a c'))"
  by (simp add: io_bind_def split: prod.splits sum.splits)

lemma read_auth_inp: "inp c = inp c1 \<Longrightarrow> fst (read_auth bc c) = fst (read_auth bc c1)"
  using read_packet_inp [of c c1 bc]
  by (auto simp: read_auth_def fst_io_bind io_return_def io_fail_def
      split: prod.splits sum.splits packet_message.splits)

lemma io_bind_Inr: "io_bind m f c = (Inr b, c') \<longleftrightarrow> (\<exists>a c1. m c = (Inr a, c1) \<and> f a c1 = (Inr b, c'))"
  by (auto simp: io_bind_def split: prod.splits sum.splits)

lemma io_simps [simp]: "io_return a c = (Inr a, c)" "io_fail e c = (Inl e, c)"
  by (simp_all add: io_return_def io_fail_def)

lemma write_packet_inp: "write_packet_message bc m c = (r, c') \<Longrightarrow> inp c' = inp c"
  by (auto simp: write_packet_message_def write_framed_packet_def io_bind_def write_all_def
      split: prod.splits sum.splits if_splits)

text \<open>What a successful authentication has established.\<close>

lemma control_channel_auth_Inr:
  assumes "control_channel_auth en nonce services d c = (Inr (service, key), c')"
  shows "map_of services d = Some service" "key = en_sha en (token_bytes (ss_token service) @ nonce)"
    "fst (read_auth (en_bc en) c) = Inr key"
proof -
  obtain u c1 s a c2 where a: "write_packet_message (en_bc en) (MHello (ControlChannelHello CURRENT_PROTO_VERSION nonce))
      (hint for_control_channel c) = (Inr u, c1)" "map_of services d = Some s" "read_auth (en_bc en) c1 = (Inr a, c2)"
      "service = s" "a = en_sha en (token_bytes (ss_token s) @ nonce)" "key = a"
    using assms unfolding control_channel_auth_def
    by (auto simp: io_bind_Inr Let_def split: option.splits if_splits)
  have "inp c1 = inp c" using write_packet_inp [OF a(1)] by (simp add: hint_def)
  with a read_auth_inp [of c c1 "en_bc en"] show "map_of services d = Some service"
    "key = en_sha en (token_bytes (ss_token service) @ nonce)" "fst (read_auth (en_bc en) c) = Inr key"
    by auto
qed

lemma visitor_channel_auth_Inr:
  assumes "visitor_channel_auth en challenge sn cfg c = (Inr (user, uc, auth), c')"
  shows "find_visitor_user (en_sha en) (sc_users cfg) challenge (va_token_digest auth) = Some (user, uc)"
    "\<exists>a. parse_sock_addr (va_bind_addr auth) = Some a \<and> is_port_allowed (uc_allowed_ports uc) (sa_port a)"
proof -
  show "find_visitor_user (en_sha en) (sc_users cfg) challenge (va_token_digest auth) = Some (user, uc)"
    using assms unfolding visitor_channel_auth_def io_bind_Inr
    by (elim exE conjE) (auto simp: io_bind_Inr split: option.split_asm prod.split_asm if_split_asm)
  show "\<exists>a. parse_sock_addr (va_bind_addr auth) = Some a \<and> is_port_allowed (uc_allowed_ports uc) (sa_port a)"
    using assms unfolding visitor_channel_auth_def io_bind_Inr
    by (elim exE conjE) (auto simp: io_bind_Inr split: option.split_asm prod.split_asm if_split_asm)
qed

lemma find_visitor_user_Some:
  "find_visitor_user sha users ch d = Some (n, u) \<Longrightarrow> (n, u) \<in> set users \<and> sha (token_bytes (uc_token u) @ ch) = d"
  by (auto simp: find_visitor_user_def find_Some_iff) (metis nth_mem)

text \<open>Both handshakes replace the channel of a digest, unless the second key belongs to another one.\<close>

definition key_taken :: "digest \<Rightarrow> digest \<Rightarrow> server \<Rightarrow> bool" where
  "key_taken d key sv \<longleftrightarrow> (\<exists>(x, y, _) \<in> items (sv_channels sv). x \<noteq> d \<and> y = key)"

lemma control_channel_install:
  assumes inv: "server_inv sv" and en: "env_ok en"
    and auth: "control_channel_auth en nonce services d conn = (Inr (service, key), c)"
  shows "\<exists>r c' sv'. do_control_channel_handshake en nonce services d conn sv = Some (r, c', sv') \<and>
    (r, c') = write_packet_message (en_bc en) (MAck AckOk) c \<and> server_inv sv' \<and>
    sv_services sv' = sv_services sv \<and> sv_config sv' = sv_config sv \<and>
    items (sv_channels sv') = {t \<in> items (sv_channels sv). fst t \<noteq> d} \<union>
      (if r = Inr () \<and> \<not> key_taken d key sv then {(d, key, \<lparr>h_session = sv_next sv, h_service = service\<rparr>)} else {}) \<and>
    (r = Inr () \<and> \<not> key_taken d key sv \<longrightarrow> sv_sessions sv' (sv_next sv) =
       Some (control_channel_handle_new c' service (sc_heartbeat_interval (sv_config sv))))"
proof -
  obtain sv1 where sv1: "remove_channel d sv = Some sv1" "server_inv sv1"
    "items (sv_channels sv1) = {t \<in> items (sv_channels sv). fst t \<noteq> d}"
    "sv_services sv1 = sv_services sv" "sv_config sv1 = sv_config sv" "sv_next sv1 = sv_next sv"
    using remove_channel_total [OF inv, of d] by blast
  obtain r c' where w: "write_packet_message (en_bc en) (MAck AckOk) c = (r, c')"
    by (cases "write_packet_message (en_bc en) (MAck AckOk) c")
  show ?thesis
  proof (cases r)
    case (Inl e)
    with w auth sv1 show ?thesis by (auto simp: do_control_channel_handshake_def)
  next
    case (Inr u)
    obtain h sv2 where sv2: "new_handle c' service sv1 = (h, sv2)" by (cases "new_handle c' service sv1")
    then have h: "h = \<lparr>h_session = sv_next sv, h_service = service\<rparr>" and same: "sv_channels sv2 = sv_channels sv1"
      "sv_services sv2 = sv_services sv1" "sv_config sv2 = sv_config sv1"
      "sv_sessions sv2 (sv_next sv) = Some (control_channel_handle_new c' service (sc_heartbeat_interval (sv_config sv)))"
      using sv1(5,6) by (auto simp: new_handle_def)
    have "h_session h \<notin> {}" by simp
    from insert_channel_total [OF new_handle_inv(1) [OF sv1(2) sv2] this en, of d key]
    obtain sv3 where sv3: "insert_channel en d key h sv2 = Some sv3" "server_inv sv3"
      "items (sv_channels sv3) = (if \<exists>(x, y, _) \<in> items (sv_channels sv2). x = d \<or> y = key
         then items (sv_channels sv2) else insert (d, key, h) (items (sv_channels sv2)))"
      "sv_services sv3 = sv_services sv2" "sv_config sv3 = sv_config sv2"
      "(\<forall>(x, y, _) \<in> items (sv_channels sv2). x \<noteq> d \<and> y \<noteq> key) \<longrightarrow> sv_sessions sv3 = sv_sessions sv2"
      by (elim exE conjE)
    have taken: "(\<exists>(x, y, _) \<in> items (sv_channels sv2). x = d \<or> y = key) \<longleftrightarrow> key_taken d key sv"
      unfolding same sv1(3) key_taken_def by auto
    have run: "do_control_channel_handshake en nonce services d conn sv = Some (Inr (), c', sv3)"
      using auth sv1(1) w Inr sv2 sv3(1) by (simp add: do_control_channel_handshake_def)
    moreover have "items (sv_channels sv3) = {t \<in> items (sv_channels sv). fst t \<noteq> d} \<union>
        (if \<not> key_taken d key sv then {(d, key, h)} else {})"
      unfolding sv3(3) taken unfolding same sv1(3) by auto
    moreover have "\<not> key_taken d key sv \<longrightarrow> sv_sessions sv3 = sv_sessions sv2"
      using sv3(6) taken by fastforce
    ultimately show ?thesis using w Inr h same sv1 sv3(2,4,5) by auto
  qed
qed

lemma visitor_channel_install:
  assumes inv: "server_inv sv" and en: "env_ok en"
    and auth: "visitor_channel_auth en challenge sn (sv_config sv) conn = (Inr (user, uc, auth), c)"
  defines "d \<equiv> visitor_digest (en_sha en) user (va_bind_addr auth)"
  shows "\<exists>sv'. do_visitor_channel_handshake en challenge sn conn sv = Some (Inr (), c, sv') \<and> server_inv sv' \<and>
    sv_services sv' = sv_services sv \<and> sv_config sv' = sv_config sv \<and>
    items (sv_channels sv') = {t \<in> items (sv_channels sv). fst t \<noteq> d} \<union>
      (if key_taken d sn sv then {}
       else {(d, sn, \<lparr>h_session = sv_next sv, h_service = visitor_service user uc auth\<rparr>)})"
proof -
  let ?svc = "visitor_service user uc auth"
  obtain h sv1 where sv1: "new_handle c ?svc sv = (h, sv1)" by (cases "new_handle c ?svc sv")
  then have h: "h = \<lparr>h_session = sv_next sv, h_service = ?svc\<rparr>" and same: "sv_channels sv1 = sv_channels sv"
    "sv_services sv1 = sv_services sv" "sv_config sv1 = sv_config sv"
    by (auto simp: new_handle_def)
  obtain sv2 where sv2: "remove_channel d sv1 = Some sv2" "server_inv_with {h_session h} sv2"
    "items (sv_channels sv2) = {t \<in> items (sv_channels sv1). fst t \<noteq> d}"
    "sv_services sv2 = sv_services sv1" "sv_config sv2 = sv_config sv1"
    using remove_channel_total [OF new_handle_inv(1) [OF inv sv1], of d] by blast
  obtain sv3 where sv3: "insert_channel en d sn h sv2 = Some sv3" "server_inv sv3"
    "items (sv_channels sv3) = (if \<exists>(x, y, _) \<in> items (sv_channels sv2). x = d \<or> y = sn
       then items (sv_channels sv2) else insert (d, sn, h) (items (sv_channels sv2)))"
    "sv_services sv3 = sv_services sv2" "sv_config sv3 = sv_config sv2"
    using insert_channel_total [OF sv2(2) _ en, of d sn] by auto
  have taken: "(\<exists>(x, y, _) \<in> items (sv_channels sv2). x = d \<or> y = sn) \<longleftrightarrow> key_taken d sn sv"
    unfolding sv2(3) same key_taken_def by auto
  have "do_visitor_channel_handshake en challenge sn conn sv = Some (Inr (), c, sv3)"
    using auth sv1 sv2(1) sv3(1) by (simp add: do_visitor_channel_handshake_def d_def)
  moreover have "items (sv_channels sv3) = {t \<in> items (sv_channels sv). fst t \<noteq> d} \<union>
      (if key_taken d sn sv then {} else {(d, sn, h)})"
    unfolding sv3(3) taken unfolding sv2(3) same by auto
  ultimately show ?thesis using h same sv2 sv3(2,4,5) by auto
qed

section \<open>Every turn keeps the invariant\<close>

lemma inv_update_session:
  assumes "server_inv sv" and "sv_sessions sv i = Some se" and "se_dropped se' = se_dropped se"
  shows "server_inv (sv\<lparr>sv_sessions := (sv_sessions sv)(i \<mapsto> se')\<rparr>)"
proof -
  have "live (sv\<lparr>sv_sessions := (sv_sessions sv)(i \<mapsto> se')\<rparr>) j = live sv j" for j
    using assms(2,3) by (auto simp: live_def)
  moreover have "dom (sv_sessions (sv\<lparr>sv_sessions := (sv_sessions sv)(i \<mapsto> se')\<rparr>)) = dom (sv_sessions sv)"
    using assms(2) by auto
  ultimately show ?thesis
    using server_inv_withD [OF assms(1)] by (intro server_inv_withI) simp_all
qed

lemma inv_services: "server_inv sv \<Longrightarrow> hm_inv m \<Longrightarrow> server_inv (sv\<lparr>sv_services := m\<rparr>)"
  by (simp add: server_inv_with_def)

lemma handle_has_session:
  assumes "server_inv sv" and "(k1, k2, h) \<in> items (sv_channels sv)"
  shows "\<exists>se. sv_sessions sv (h_session h) = Some se \<and> \<not> se_dropped se"
proof -
  have "h_session h \<in> owner ` items (sv_channels sv)" using assms(2) by (force simp: owner_def)
  with server_inv_withD(4) [OF assms(1), of "h_session h"] show ?thesis by (simp add: live_def)
qed

lemma send_data_ch_dropped: "send_data_ch c se = Some (r, se') \<Longrightarrow> se_dropped se' = se_dropped se"
  by (auto simp: send_data_ch_def split: if_splits)

lemma data_handshake_inv:
  assumes "server_inv sv"
  shows "do_data_channel_handshake nonce conn sv \<noteq> Undefined"
    "do_data_channel_handshake nonce conn sv = Done (r, c', sv') \<Longrightarrow>
       server_inv sv' \<and> sv_channels sv' = sv_channels sv \<and> sv_services sv' = sv_services sv"
proof -
  obtain x where x: "get2 nonce (sv_channels sv) = Some x"
    using mm.look2_hit [OF server_inv_withD(1) [OF assms]] mm.look2_miss [OF server_inv_withD(1) [OF assms]] by metis
  then have "\<exists>k1. (k1, nonce, h) \<in> items (sv_channels sv)" if "x = Some h" for h
    using that mm.look2_iff [OF server_inv_withD(1) [OF assms]] by auto
  then have se: "\<exists>se. sv_sessions sv (h_session h) = Some se" if "x = Some h" for h
    using that handle_has_session [OF assms] by blast
  then show "do_data_channel_handshake nonce conn sv \<noteq> Undefined"
    using x by (auto simp: do_data_channel_handshake_def Let_def split: option.splits)
  show "server_inv sv' \<and> sv_channels sv' = sv_channels sv \<and> sv_services sv' = sv_services sv"
    if "do_data_channel_handshake nonce conn sv = Done (r, c', sv')"
    using that assms
    by (auto simp: do_data_channel_handshake_def Let_def split: option.splits prod.splits if_splits
        intro: inv_update_session dest: send_data_ch_dropped)
qed

lemma control_handshake_inv:
  assumes "server_inv sv" and "env_ok en"
  shows "\<exists>r c' sv'. do_control_channel_handshake en nonce services d conn sv = Some (r, c', sv') \<and>
    server_inv sv' \<and> sv_services sv' = sv_services sv"
proof (cases "control_channel_auth en nonce services d conn")
  case (Pair r c)
  show ?thesis
  proof (cases r)
    case (Inl e)
    with Pair assms(1) show ?thesis by (simp add: do_control_channel_handshake_def)
  next
    case (Inr a)
    with Pair control_channel_install [OF assms, of nonce services d conn "fst a" "snd a" c] show ?thesis by auto
  qed
qed

lemma visitor_handshake_inv:
  assumes "server_inv sv" and "env_ok en"
  shows "\<exists>r c' sv'. do_visitor_channel_handshake en challenge sn conn sv = Some (r, c', sv') \<and>
    server_inv sv' \<and> sv_services sv' = sv_services sv"
proof (cases "visitor_channel_auth en challenge sn (sv_config sv) conn")
  case (Pair r c)
  show ?thesis
  proof (cases r)
    case (Inl e)
    with Pair assms(1) show ?thesis by (simp add: do_visitor_channel_handshake_def)
  next
    case (Inr a)
    with Pair visitor_channel_install [OF assms, of challenge sn conn "fst a" "fst (snd a)" "snd (snd a)" c]
    show ?thesis by auto
  qed
qed

lemma handle_connection_inv:
  assumes "server_inv sv" and "env_ok en"
  shows "handle_connection en rnd services conn sv \<noteq> Undefined"
    "handle_connection en rnd services conn sv = Done (r, c', sv') \<Longrightarrow> server_inv sv' \<and> sv_services sv' = sv_services sv"
proof -
  obtain x c where x: "read_hello (en_bc en) conn = (x, c)" by (cases "read_hello (en_bc en) conn")
  have "handle_connection en rnd services conn sv \<noteq> Undefined \<and>
    (handle_connection en rnd services conn sv = Done (r, c', sv') \<longrightarrow> server_inv sv' \<and> sv_services sv' = sv_services sv)"
  proof (cases x)
    case (Inl e)
    with x assms show ?thesis by (auto simp: handle_connection_def)
  next
    case (Inr hl)
    show ?thesis
    proof (cases hl)
      case (ControlChannelHello v d)
      with x Inr control_handshake_inv [OF assms, of "rnd_nonce rnd" services d c] show ?thesis
        by (auto simp: handle_connection_def)
    next
      case (DataChannelHello v d)
      with x Inr data_handshake_inv [OF assms(1), of d c] show ?thesis by (auto simp: handle_connection_def)
    next
      case (VisitorHello v d)
      with x Inr visitor_handshake_inv [OF assms, of "rnd_challenge rnd" "rnd_session rnd" c] show ?thesis
        by (auto simp: handle_connection_def)
    qed
  qed
  then show "handle_connection en rnd services conn sv \<noteq> Undefined"
    "handle_connection en rnd services conn sv = Done (r, c', sv') \<Longrightarrow> server_inv sv' \<and> sv_services sv' = sv_services sv"
    by simp_all
qed

lemma hot_reload_inv:
  assumes "server_inv sv"
  shows "\<exists>sv'. handle_hot_reload en e sv = Some sv' \<and> server_inv sv'"
proof -
  have hm: "hm_inv (hm_insert k v (sv_services sv))" "hm_inv (hm_remove k (sv_services sv))" for k v
    using server_inv_withD(2) [OF assms] by (simp_all add: hmm.invar_ins hmm.invar_rem)
  have "\<exists>sv'. remove_channel d (sv\<lparr>sv_services := m\<rparr>) = Some sv' \<and> server_inv sv'" if "hm_inv m" for d m
    using remove_channel_total [OF inv_services [OF assms that], of d] by blast
  with hm assms show ?thesis
    by (auto simp: handle_hot_reload_def Let_def split: config_change.splits server_service_change.splits option.splits)
qed

lemma session_turn_dropped:
  assumes "session_turn bc ev se = Some se'" and "ev \<noteq> HandleDropped"
  shows "se_dropped se' = se_dropped se"
proof (cases ev)
  case (Ctl b)
  with assms show ?thesis
    by (auto simp: session_turn_def control_channel_turn_def control_send_fields end_control_def
        split: if_splits control_branch.splits nat.splits)
next
  case (Listen b)
  with assms show ?thesis
    by (auto simp: session_turn_def listener_turn_def send_req_def
        split: if_splits pool.splits listener.splits listen_branch.splits)
next
  case TcpPoolTurn
  with assms show ?thesis using tcp_pool_turn_work by (auto simp: session_turn_def split: pool.splits)
next
  case (UdpPoolTurn b)
  with assms show ?thesis
    by (auto simp: session_turn_def udp_pool_turn_def end_udp_pool_def
        split: if_splits pool.splits udp_pool_task.splits udp_branch.splits list.splits prod.splits sum.splits option.splits)
next
  case (DataChannel c)
  with assms show ?thesis
    by (auto simp: session_turn_def split: if_splits dest: send_data_ch_dropped)
qed (use assms in simp)

lemma server_turn_inv:
  assumes "server_inv sv" and "env_ok en"
  shows "server_turn en ev sv \<noteq> Undefined" "server_turn en ev sv = Done sv' \<Longrightarrow> server_inv sv'"
proof -
  have "server_turn en ev sv \<noteq> Undefined \<and> (server_turn en ev sv = Done sv' \<longrightarrow> server_inv sv')"
  proof (cases ev)
    case (Connection rnd services conn)
    with handle_connection_inv [OF assms, of rnd services conn] show ?thesis
      by (auto simp: server_turn_def split: outcome.splits)
  next
    case (Update e)
    with hot_reload_inv [OF assms(1), of en e] show ?thesis by (auto simp: server_turn_def)
  next
    case (SessionTurn i sev)
    with assms(1) show ?thesis
      by (auto simp: server_turn_def split: option.splits session_event.splits
          intro: inv_update_session dest: session_turn_dropped)
  qed (use assms in \<open>auto simp: server_turn_def\<close>)
  then show "server_turn en ev sv \<noteq> Undefined" "server_turn en ev sv = Done sv' \<Longrightarrow> server_inv sv'" by simp_all
qed

lemma hm_inv_fold: "hm_inv m \<Longrightarrow> hm_inv (fold (\<lambda>(name, s) m. hm_insert (f name s) (g name s) m) xs m)"
  by (induction xs arbitrary: m) (auto simp: hmm.invar_ins)

lemma server_from_config_inv: "server_inv (server_from_config sha cfg)"
  using mm.empty_inv mm.empty_items
  by (auto simp: server_inv_with_def server_from_config_def live_def generate_service_hashmap_def
      hmm.invar_empty intro!: hm_inv_fold)

lemma server_reach_inv: "server_reach en cfg sv \<Longrightarrow> env_ok en \<Longrightarrow> server_inv sv"
  by (induction rule: server_reach.induct) (auto intro: server_from_config_inv server_turn_inv)

section \<open>Services under hot reload\<close>

fun hot_reloads :: "env \<Rightarrow> config_change list \<Rightarrow> server \<Rightarrow> server option" where
  "hot_reloads en [] sv = Some sv"
| "hot_reloads en (e # es) sv = Option.bind (handle_hot_reload en e sv) (hot_reloads en es)"

text \<open>The table of services holds exactly the configured ones, each under its digest.\<close>

definition tracks :: "(bytes \<Rightarrow> digest) \<Rightarrow> server \<Rightarrow> server_config \<Rightarrow> bool" where
  "tracks sha sv cfg \<longleftrightarrow>
     (\<forall>d s. map_of (sv_services sv) d = Some s \<longleftrightarrow>
        (\<exists>k. map_of (sc_services cfg) k = Some s \<and> d = service_digest sha (ss_user s) k))"

text \<open>
  A set of named services in which digests and names determine each other: no two names collide, and
  two versions of a service have the same owner.
\<close>

definition digests_ok :: "(bytes \<Rightarrow> digest) \<Rightarrow> (string \<times> server_service_config) set \<Rightarrow> bool" where
  "digests_ok sha W \<longleftrightarrow>
     (\<forall>(k, s) \<in> W. ss_name s = k) \<and>
     (\<forall>(k, s) \<in> W. \<forall>(k', s') \<in> W. service_digest sha (ss_user s) k = service_digest sha (ss_user s') k' \<longleftrightarrow> k = k')"

lemma digests_okD:
  assumes "digests_ok sha W" and "(k, s) \<in> W"
  shows "ss_name s = k" "(k', s') \<in> W \<Longrightarrow>
    service_digest sha (ss_user s) k = service_digest sha (ss_user s') k' \<longleftrightarrow> k = k'"
  using assms unfolding digests_ok_def by blast+

lemma fold_hm_insert:
  "map_of (fold (\<lambda>(k, s) m. hm_insert (f k s) s m) xs m) =
   map_of m ++ map_of (rev (map (\<lambda>(k, s). (f k s, s)) xs))"
  by (induction xs arbitrary: m) (auto simp: update_conv' map_add_def fun_eq_iff split: option.splits)

lemma generate_service_hashmap_iff:
  assumes "digests_ok sha (set (sc_services cfg))" and "hm_inv (sc_services cfg)"
  shows "map_of (generate_service_hashmap sha cfg) d = Some s \<longleftrightarrow>
    (\<exists>k. map_of (sc_services cfg) k = Some s \<and> d = service_digest sha (ss_user s) k)"
proof -
  let ?xs = "sc_services cfg"
  let ?f = "\<lambda>(k, s). (service_digest sha (ss_user s) k, s)"
  have "inj_on (\<lambda>(k, s). service_digest sha (ss_user s) k) (set ?xs)"
  proof (rule inj_onI, clarify)
    fix k s k' s'
    assume m: "(k, s) \<in> set ?xs" "(k', s') \<in> set ?xs" "service_digest sha (ss_user s) k = service_digest sha (ss_user s') k'"
    then have "k = k'" using digests_okD(2) [OF assms(1) m(1,2)] by simp
    with m(1,2) assms(2) show "k = k' \<and> s = s'" by (metis hm_get_iff option.inject)
  qed
  moreover have "distinct ?xs" using assms(2) by (simp add: hm_inv_def distinct_map)
  ultimately have "distinct (map fst (rev (map ?f ?xs)))"
    by (simp add: rev_map distinct_map comp_def case_prod_unfold)
  then have "map_of (rev (map ?f ?xs)) d = Some s \<longleftrightarrow> (d, s) \<in> set (map ?f ?xs)" by simp
  then show ?thesis
    using assms(2) by (auto simp: generate_service_hashmap_def fold_hm_insert hm_get_iff)
qed

lemma reload_add:
  assumes inv: "server_inv sv" and tr: "tracks (en_sha en) sv cfg" and ok: "digests_ok (en_sha en) W"
    and sub: "set (sc_services cfg) \<subseteq> W" "hm_inv (sc_services cfg)" and c: "(ss_name c, c) \<in> W"
  shows "\<exists>sv'. handle_hot_reload en (ServerChange (ServerAdd c)) sv = Some sv' \<and> server_inv sv' \<and>
    tracks (en_sha en) sv' (apply_server_change (ServerChange (ServerAdd c)) cfg)"
proof -
  let ?d = "service_digest (en_sha en) (ss_user c) (ss_name c)"
  obtain sv' where sv': "handle_hot_reload en (ServerChange (ServerAdd c)) sv = Some sv'" "server_inv sv'"
    using hot_reload_inv [OF inv] by blast
  have eq: "sv_services sv' = hm_insert ?d c (sv_services sv)"
    using sv'(1) remove_channel_total [OF inv_services [OF inv], of "hm_insert ?d c (sv_services sv)" ?d]
      server_inv_withD(2) [OF inv] by (auto simp: handle_hot_reload_def Let_def hmm.invar_ins)
  have names: "service_digest (en_sha en) (ss_user s) k = ?d \<longleftrightarrow> k = ss_name c" if "map_of (sc_services cfg) k = Some s" for k s
    using digests_okD(2) [OF ok _ c, of k s] that sub by (auto dest: map_of_SomeD)
  have "map_of (sv_services sv') d = Some s \<longleftrightarrow>
      (\<exists>k. map_of (hm_insert (ss_name c) c (sc_services cfg)) k = Some s \<and> d = service_digest (en_sha en) (ss_user s) k)" for d s
    using tr names unfolding eq tracks_def by (auto simp: update_conv' split: if_splits) metis+
  then show ?thesis using sv' by (auto simp: tracks_def)
qed

lemma reload_delete:
  assumes inv: "server_inv sv" and tr: "tracks (en_sha en) sv cfg" and ok: "digests_ok (en_sha en) W"
    and sub: "set (sc_services cfg) \<subseteq> W" "hm_inv (sc_services cfg)"
  shows "\<exists>sv'. handle_hot_reload en (ServerChange (ServerDelete n)) sv = Some sv' \<and> server_inv sv' \<and>
    tracks (en_sha en) sv' (apply_server_change (ServerChange (ServerDelete n)) cfg)"
proof -
  obtain sv' where sv': "handle_hot_reload en (ServerChange (ServerDelete n)) sv = Some sv'" "server_inv sv'"
    using hot_reload_inv [OF inv] by blast
  have hm: "hm_inv (sv_services sv)" using server_inv_withD(2) [OF inv] .
  have named: "ss_name s = k" if "map_of (sc_services cfg) k = Some s" for k s
    using digests_okD(1) [OF ok] that sub by (auto dest: map_of_SomeD)
  have names: "service_digest (en_sha en) (ss_user s) k = service_digest (en_sha en) (ss_user s') k' \<longleftrightarrow> k = k'"
    if "map_of (sc_services cfg) k = Some s" "map_of (sc_services cfg) k' = Some s'" for k s k' s'
    using digests_okD(2) [OF ok, of k s k' s'] that sub by (auto dest: map_of_SomeD)
  have "map_of (sv_services sv') d = Some s \<longleftrightarrow>
      (\<exists>k. map_of (hm_remove n (sc_services cfg)) k = Some s \<and> d = service_digest (en_sha en) (ss_user s) k)" for d s
  proof (cases "find (\<lambda>(_, cfg). ss_name cfg = n) (sv_services sv)")
    case None
    then have "sv' = sv" using sv'(1) by (simp add: handle_hot_reload_def)
    moreover have "map_of (sc_services cfg) n = None"
    proof (rule ccontr)
      assume "map_of (sc_services cfg) n \<noteq> None"
      then obtain s where "map_of (sc_services cfg) n = Some s" by blast
      with tr named have "map_of (sv_services sv) (service_digest (en_sha en) (ss_user s) n) = Some s" "ss_name s = n"
        by (auto simp: tracks_def)
      with None show False by (auto simp: find_None_iff dest: map_of_SomeD)
    qed
    then have "map_of (hm_remove n (sc_services cfg)) = map_of (sc_services cfg)"
      by (simp add: delete_conv' fun_upd_idem)
    ultimately show ?thesis using tr unfolding tracks_def by simp
  next
    case (Some p)
    then obtain hash s0 where p: "p = (hash, s0)" "(hash, s0) \<in> set (sv_services sv)" "ss_name s0 = n"
      by (cases p) (auto simp: find_Some_iff, metis nth_mem)
    then have "map_of (sv_services sv) hash = Some s0" using hm by (simp add: hm_get_iff)
    with tr named p(3) have s0: "map_of (sc_services cfg) n = Some s0" "hash = service_digest (en_sha en) (ss_user s0) n"
      by (auto simp: tracks_def)
    have eq: "sv_services sv' = hm_remove hash (sv_services sv)"
      using sv'(1) Some p(1) remove_channel_total [OF inv_services [OF inv], of "hm_remove hash (sv_services sv)" hash]
        hm by (auto simp: handle_hot_reload_def hmm.invar_rem)
    have other: "service_digest (en_sha en) (ss_user s) k = hash \<longleftrightarrow> k = n" if "map_of (sc_services cfg) k = Some s" for k
      using names [OF that s0(1)] s0(2) by simp
    have "map_of (sv_services sv') d = Some s \<longleftrightarrow> d \<noteq> hash \<and> map_of (sv_services sv) d = Some s"
      unfolding eq by (simp add: delete_conv')
    also have "\<dots> \<longleftrightarrow> (\<exists>k. k \<noteq> n \<and> map_of (sc_services cfg) k = Some s \<and> d = service_digest (en_sha en) (ss_user s) k)"
      using tr other unfolding tracks_def by metis
    finally show ?thesis by (auto simp: delete_conv')
  qed
  then show ?thesis using sv' by (auto simp: tracks_def)
qed

lemma set_hm_insert: "set (hm_insert k v m) \<subseteq> insert (k, v) (set m)"
  by (induction m) auto

lemma hot_reloads_tracks:
  assumes "server_inv sv" and "tracks (en_sha en) sv cfg" and ok: "digests_ok (en_sha en) W"
    and "set (sc_services cfg) \<subseteq> W" and "hm_inv (sc_services cfg)"
    and "\<forall>ev \<in> set evs. (\<exists>n. ev = ServerChange (ServerDelete n)) \<or>
      (\<exists>c. ev = ServerChange (ServerAdd c) \<and> (ss_name c, c) \<in> W) \<or> (\<exists>x. ev = ClientChange x)"
  shows "\<exists>sv'. hot_reloads en evs sv = Some sv' \<and> server_inv sv' \<and>
    tracks (en_sha en) sv' (fold apply_server_change evs cfg)"
  using assms
proof (induction evs arbitrary: sv cfg)
  case (Cons ev evs)
  let ?cfg = "apply_server_change ev cfg"
  consider n where "ev = ServerChange (ServerDelete n)"
    | c where "ev = ServerChange (ServerAdd c)" "(ss_name c, c) \<in> W"
    | x where "ev = ClientChange x" using Cons.prems(6) by auto
  then have "(\<exists>sv1. handle_hot_reload en ev sv = Some sv1 \<and> server_inv sv1 \<and> tracks (en_sha en) sv1 ?cfg) \<and>
      set (sc_services ?cfg) \<subseteq> W \<and> hm_inv (sc_services ?cfg)"
  proof cases
    case 1
    have "set (hm_remove n (sc_services cfg)) \<subseteq> set (sc_services cfg)" by (simp add: AList.delete_eq)
    with 1 reload_delete [OF Cons.prems(1-5)] Cons.prems(4,5) show ?thesis by (auto simp: hmm.invar_rem)
  next
    case 3
    with Cons.prems show ?thesis by (auto simp: handle_hot_reload_def)
  next
    case 2
    with set_hm_insert [of "ss_name c" c "sc_services cfg"] reload_add [OF Cons.prems(1-5)] Cons.prems(4,5) show ?thesis by (auto simp: hmm.invar_ins)
  qed
  with Cons.IH [OF _ _ ok] Cons.prems(6) show ?case by fastforce
qed simp

section \<open>Properties\<close>


text \<open>The rest of a control handshake, as bytes written to the connection.\<close>

lemma control_channel_auth_run:
  assumes "bincode_ok (en_bc en)" and "fits (en_bc en) (MAuth x)" and "inp c = wire (en_bc en) (MAuth x) @ rest"
    and "length (wire (en_bc en) (MHello (ControlChannelHello CURRENT_PROTO_VERSION nonce))) +
      length (wire (en_bc en) (MAck AckServiceNotExist)) + length (wire (en_bc en) (MAck AckAuthFailed)) \<le> room c"
  shows "\<exists>c'. control_channel_auth en nonce services d c =
      (case map_of services d of
         None \<Rightarrow> (Inl NoSuchService, c')
       | Some service \<Rightarrow>
           if en_sha en (token_bytes (ss_token service) @ nonce) \<noteq> x then (Inl AuthFailure, c')
           else (Inr (service, x), c')) \<and>
    out c' = out c @ wire (en_bc en) (MHello (ControlChannelHello CURRENT_PROTO_VERSION nonce)) @
      (case map_of services d of
         None \<Rightarrow> wire (en_bc en) (MAck AckServiceNotExist)
       | Some service \<Rightarrow>
           if en_sha en (token_bytes (ss_token service) @ nonce) \<noteq> x then wire (en_bc en) (MAck AckAuthFailed) else []) \<and>
    room c \<le> room c' + length (wire (en_bc en) (MHello (ControlChannelHello CURRENT_PROTO_VERSION nonce))) +
      length (wire (en_bc en) (MAck AckServiceNotExist)) + length (wire (en_bc en) (MAck AckAuthFailed))"
proof -
  have "read_auth (en_bc en) c1 = (Inr x, c1\<lparr>inp := rest\<rparr>)" if "inp c1 = inp c" for c1
    using read_wire [OF assms(1,2), of c1 rest] that assms(3) by (simp add: read_auth_def io_bind_def)
  with assms(4) show ?thesis
    by (auto simp: control_channel_auth_def io_bind_def write_wire hint_def Let_def split: option.splits)
qed

text \<open>
  C14: the control handshake, on every branch. The server greets with the nonce, answers an unknown
  digest with \<open>ServiceNotExist\<close> and a wrong proof with \<open>AuthFailed\<close>, both without touching its tables,
  and answers the hash of token and nonce with \<open>Ok\<close>; then the table has the new channel under the
  service's digest and the session key, in place of any earlier channel of that service, next to all
  channels of other services, and its tasks start with the service's pool of requests.
\<close>

theorem control_handshake_exact:
  assumes "server_inv sv" and "env_ok en" and "bincode_ok (en_bc en)" and "fits (en_bc en) (MAuth x)"
    and "inp c = wire (en_bc en) (MAuth x) @ rest"
    and "length (wire (en_bc en) (MHello (ControlChannelHello CURRENT_PROTO_VERSION nonce))) +
      length (wire (en_bc en) (MAck AckServiceNotExist)) + length (wire (en_bc en) (MAck AckAuthFailed)) +
      length (wire (en_bc en) (MAck AckOk)) \<le> room c"
    and "\<not> key_taken d x sv"
  shows "\<exists>r c' sv'. do_control_channel_handshake en nonce services d c sv = Some (r, c', sv') \<and>
    (\<exists>a. out c' = out c @ wire (en_bc en) (MHello (ControlChannelHello CURRENT_PROTO_VERSION nonce)) @
        wire (en_bc en) (MAck a) \<and>
     (case map_of services d of
        None \<Rightarrow> r = Inl NoSuchService \<and> a = AckServiceNotExist \<and> sv' = sv
      | Some service \<Rightarrow>
          if en_sha en (token_bytes (ss_token service) @ nonce) \<noteq> x
          then r = Inl AuthFailure \<and> a = AckAuthFailed \<and> sv' = sv
          else r = Inr () \<and> a = AckOk \<and> sv_services sv' = sv_services sv \<and>
            (\<exists>h. h_service h = service \<and>
               items (sv_channels sv') = insert (d, x, h) {t \<in> items (sv_channels sv). fst t \<noteq> d} \<and>
               sv_sessions sv' (h_session h) =
                 Some (control_channel_handle_new c' service (sc_heartbeat_interval (sv_config sv))))))"
proof -
  let ?hello = "wire (en_bc en) (MHello (ControlChannelHello CURRENT_PROTO_VERSION nonce))"
  obtain c1 where c1: "control_channel_auth en nonce services d c =
      (case map_of services d of
         None \<Rightarrow> (Inl NoSuchService, c1)
       | Some service \<Rightarrow>
           if en_sha en (token_bytes (ss_token service) @ nonce) \<noteq> x then (Inl AuthFailure, c1)
           else (Inr (service, x), c1))"
    "out c1 = out c @ ?hello @ (case map_of services d of
         None \<Rightarrow> wire (en_bc en) (MAck AckServiceNotExist)
       | Some service \<Rightarrow>
           if en_sha en (token_bytes (ss_token service) @ nonce) \<noteq> x then wire (en_bc en) (MAck AckAuthFailed) else [])"
    "length (wire (en_bc en) (MAck AckOk)) \<le> room c1"
    using control_channel_auth_run [OF assms(3-5), of nonce services d] assms(6) by fastforce
  show ?thesis
  proof (cases "map_of services d")
    case None
    with c1 show ?thesis by (auto simp: do_control_channel_handshake_def)
  next
    case (Some service)
    show ?thesis
    proof (cases "en_sha en (token_bytes (ss_token service) @ nonce) = x")
      case False
      with Some c1 show ?thesis by (auto simp: do_control_channel_handshake_def)
    next
      case True
      then have auth: "control_channel_auth en nonce services d c = (Inr (service, x), c1)" using c1(1) Some by simp
      note w = write_wire [OF c1(3)]
      have o1: "out c1 = out c @ ?hello" using c1(2) Some True by simp
      from control_channel_install [OF assms(1,2) auth] w assms(7) Some True o1 show ?thesis
        by (auto intro!: exI [of _ "\<lparr>h_session = sv_next sv, h_service = service\<rparr>"])
    qed
  qed
qed


text \<open>
  C21: a data channel goes to the session that issued its nonce, and to no other. With the nonce of a
  registered channel the connection is put at the end of that session's queue, with the service's
  socket options and, for UDP services, in NACK mode; it is refused when the pool has ended, and waits
  while the queue is full. With any other nonce nothing changes.
\<close>

theorem data_channel_routed:
  assumes "server_inv sv"
  shows "((\<forall>k h. (k, nonce, h) \<notin> items (sv_channels sv)) \<longrightarrow>
      do_data_channel_handshake nonce c sv = Done (Inr (), c, sv)) \<and>
    (\<forall>k h. (k, nonce, h) \<in> items (sv_channels sv) \<longrightarrow>
      (\<exists>se c1. sv_sessions sv (h_session h) = Some se \<and> \<not> se_dropped se \<and>
        hints c1 = hints c @ [from_server_cfg (h_service h)] \<and> inp c1 = inp c \<and> out c1 = out c \<and>
        (nack_mode c1 \<longleftrightarrow> nack_mode c \<or> ss_type (h_service h) = ServiceUdp) \<and>
        do_data_channel_handshake nonce c sv =
          (if pool_ended se then Done (Inl StaleControlChannel, c1, sv)
           else if length (se_data se) < CHAN_SIZE * 2
           then Done (Inr (), c1, sv\<lparr>sv_sessions := (sv_sessions sv)(h_session h \<mapsto> se\<lparr>se_data := se_data se @ [c1]\<rparr>)\<rparr>)
           else Waits)))"
proof (intro conjI allI impI)
  assume "\<forall>k h. (k, nonce, h) \<notin> items (sv_channels sv)"
  then show "do_data_channel_handshake nonce c sv = Done (Inr (), c, sv)"
    using mm.look2_miss [OF server_inv_withD(1) [OF assms], of nonce] by (simp add: do_data_channel_handshake_def)
next
  fix k h assume kh: "(k, nonce, h) \<in> items (sv_channels sv)"
  obtain se where se: "sv_sessions sv (h_session h) = Some se" "\<not> se_dropped se"
    using handle_has_session [OF assms kh] by blast
  let ?c1 = "(if ss_type (h_service h) = ServiceUdp then set_nack_mode (hint (from_server_cfg (h_service h)) c)
    else hint (from_server_cfg (h_service h)) c)"
  have same: "sv\<lparr>sv_sessions := (sv_sessions sv)(h_session h \<mapsto> se)\<rparr> = sv" using se(1) by (simp add: fun_upd_idem)
  have "do_data_channel_handshake nonce c sv =
      (if pool_ended se then Done (Inl StaleControlChannel, ?c1, sv)
       else if length (se_data se) < CHAN_SIZE * 2
       then Done (Inr (), ?c1, sv\<lparr>sv_sessions := (sv_sessions sv)(h_session h \<mapsto> se\<lparr>se_data := se_data se @ [?c1]\<rparr>)\<rparr>)
       else Waits)"
    using mm.look2_hit [OF server_inv_withD(1) [OF assms] kh] se(1) same
    by (simp add: do_data_channel_handshake_def Let_def send_data_ch_def)
  moreover have "hints ?c1 = hints c @ [from_server_cfg (h_service h)]" "inp ?c1 = inp c" "out ?c1 = out c"
    "nack_mode ?c1 \<longleftrightarrow> nack_mode c \<or> ss_type (h_service h) = ServiceUdp"
    by (simp_all add: hint_def set_nack_mode_def)
  ultimately show "\<exists>se c1. sv_sessions sv (h_session h) = Some se \<and> \<not> se_dropped se \<and>
        hints c1 = hints c @ [from_server_cfg (h_service h)] \<and> inp c1 = inp c \<and> out c1 = out c \<and>
        (nack_mode c1 \<longleftrightarrow> nack_mode c \<or> ss_type (h_service h) = ServiceUdp) \<and>
        do_data_channel_handshake nonce c sv =
          (if pool_ended se then Done (Inl StaleControlChannel, c1, sv)
           else if length (se_data se) < CHAN_SIZE * 2
           then Done (Inr (), c1, sv\<lparr>sv_sessions := (sv_sessions sv)(h_session h \<mapsto> se\<lparr>se_data := se_data se @ [c1]\<rparr>)\<rparr>)
           else Waits)"
    using se by blast
qed


section \<open>Shutdown\<close>

lemma fold_drop:
  fixes B :: "addr \<rightharpoonup> digest \<times> digest \<times> control_channel_handle"
  defines "f \<equiv> \<lambda>(_ :: addr, i) sv'. case B i of Some (_, _, h) \<Rightarrow> drop_session h sv' | None \<Rightarrow> sv'"
  shows "live (fold f L sv) j \<longleftrightarrow> live sv j \<and> (\<forall>(p, i) \<in> set L. \<forall>k1 k2 h. B i = Some (k1, k2, h) \<longrightarrow> j \<noteq> h_session h)"
    and "sv_channels (fold f L sv) = sv_channels sv"
proof (induction L arbitrary: sv)
  case (Cons x L)
  obtain p i where x: "x = (p, i)" by (cases x)
  {
    case 1
    show ?case using Cons.IH(1) [of "f x sv"] by (auto simp: x f_def live_drop split: option.splits)
  next
    case 2
    show ?case using Cons.IH(2) [of "f x sv"] by (auto simp: x f_def split: option.splits)
  }
qed simp_all

lemma server_shutdown_total:
  assumes "server_inv sv"
  shows "\<exists>sv'. server_shutdown sv = Some sv' \<and> items (sv_channels sv') = {} \<and> (\<forall>i. \<not> live sv' i)"
proof -
  note inv = server_inv_withD [OF assms]
  let ?m = "sv_channels sv"
  have clear: "clear_mm ?m = Some multi_map_new" by (rule clear_mm_frees_all [OF inv(1)])
  have all: "\<exists>p. (p, i) \<in> set (map2 ?m)" if "boxes ?m i = Some t" for i t
  proof -
    have "i \<in> fst ` set (map2 ?m)" using mm_invD(2) [OF inv(1)] that by (auto simp: index_ok_def)
    then show ?thesis using mm_invD(2) [OF inv(1)] by (fastforce simp: index_ok_def)
  qed
  have "\<not> (live sv i \<and> (\<forall>(p, j) \<in> set (map2 ?m). \<forall>k1 k2 h. boxes ?m j = Some (k1, k2, h) \<longrightarrow> i \<noteq> h_session h))" for i
    using inv(4) [of i] all by (fastforce simp: owner_def items_def ran_def)
  then show ?thesis
    using mm.empty_items by (simp add: server_shutdown_def clear fold_drop)
qed

text \<open>
  Stopping the server stops everything it started. The table of control channels is emptied
  without following a dangling pointer, and every session is told to stop.
\<close>

theorem server_shutdown_drops_all:
  assumes "server_reach en cfg sv" and "env_ok en"
  shows "\<exists>sv'. server_shutdown sv = Some sv' \<and> items (sv_channels sv') = {} \<and> (\<forall>i. \<not> live sv' i)"
  using server_shutdown_total [OF server_reach_inv [OF assms]] by blast

lemma server_loop_reach:
  assumes "env_ok en" and "server_reach en cfg sv"
  shows "\<exists>sv'. server_loop en evs sv = Done sv' \<and> server_reach en cfg sv'"
  using assms(2)
proof (induction evs arbitrary: sv)
  case (Cons ev evs)
  have "server_turn en ev sv \<noteq> Undefined"
    using server_turn_inv(1) [OF server_reach_inv [OF Cons.prems assms(1)] assms(1)] .
  then show ?case
    using Cons.IH Cons.prems reach_turn [OF Cons.prems, of ev] by (cases "server_turn en ev sv") auto
qed simp


section \<open>A concrete server\<close>

definition demo_env :: env where
  "demo_env = \<lparr>en_sha = \<lambda>bs. bs, en_bc = demo_bincode, en_alloc = first_free\<rparr>"

lemma demo_env_ok: "env_ok demo_env"
  using first_free_fresh by (auto simp: env_ok_def demo_env_def)

lemma demo_env_simps [simp]: "en_sha demo_env = (\<lambda>bs. bs)" "en_bc demo_env = demo_bincode"
  by (simp_all add: demo_env_def)

definition demo_config :: server_config where
  "demo_config = demo_server\<lparr>sc_users := [(''default'', \<lparr>uc_token = Some ''t'', uc_allowed_ports = ''8000-9000''\<rparr>)],
     sc_services := [(''web'', demo_service ServiceTcp)]\<rparr>"

abbreviation demo_sv :: server where
  "demo_sv \<equiv> server_from_config (\<lambda>bs. bs) demo_config"

definition demo_digest :: digest where
  "demo_digest = as_bytes ''default:web''"

definition demo_nonce :: digest where
  "demo_nonce = [1, 2, 3]"

definition demo_key :: digest where
  "demo_key = as_bytes ''t'' @ demo_nonce"

lemma demo_sv_fields:
  "sv_services demo_sv = [(demo_digest, demo_service ServiceTcp)]" "sv_config demo_sv = demo_config"
  "items (sv_channels demo_sv) = {}"
  using mm.empty_items
  by (simp_all add: server_from_config_def generate_service_hashmap_def demo_config_def demo_service_def
      service_digest_def service_id_def demo_digest_def)

lemma demo_token: "token_bytes (ss_token (demo_service ServiceTcp)) @ demo_nonce = demo_key"
  by (simp add: token_bytes_def demo_service_def demo_key_def)

lemma demo_small:
  "length (wire demo_bincode (MAck a)) \<le> 100" "length (wire demo_bincode (MHello (ControlChannelHello v demo_nonce))) \<le> 100"
  "fits demo_bincode (MAuth demo_key)" "fits demo_bincode (MHello (ControlChannelHello v demo_digest))"
  by (simp_all add: wire_def frame_def demo_bincode_def fits_def length_demo_bytes demo_nonce_def demo_key_def
      demo_digest_def utf8_def)

definition demo_client_conn :: conn where
  "demo_client_conn = demo_conn (wire demo_bincode (MHello (ControlChannelHello 1 demo_digest)) @
     wire demo_bincode (MAuth demo_key))"

definition demo_chance :: chance where
  "demo_chance = \<lparr>rnd_nonce = demo_nonce, rnd_challenge = [4], rnd_session = [5]\<rparr>"

abbreviation demo_auth_conn :: conn where
  "demo_auth_conn \<equiv> demo_client_conn\<lparr>inp := wire demo_bincode (MAuth demo_key)\<rparr>"

lemma demo_sv_inv: "server_inv demo_sv"
  by (rule server_from_config_inv)

lemma demo_not_taken: "\<not> key_taken d key demo_sv"
  by (simp add: key_taken_def demo_sv_fields)

lemma demo_handshake:
  "\<exists>c' sv' h. handle_connection demo_env demo_chance (sv_services demo_sv) demo_client_conn demo_sv = Done (Inr (), c', sv') \<and>
     items (sv_channels sv') = {(demo_digest, demo_key, h)} \<and> h_service h = demo_service ServiceTcp \<and> server_inv sv' \<and>
     sv_sessions sv' (h_session h) = Some (control_channel_handle_new c' (demo_service ServiceTcp) (sc_heartbeat_interval demo_config)) \<and>
     500 \<le> room c'"
proof -
  have hello: "read_hello demo_bincode demo_client_conn = (Inr (ControlChannelHello 1 demo_digest), demo_auth_conn)"
    using read_wire [OF demo_bincode_ok demo_small(4), of demo_client_conn 1]
    by (simp add: read_hello_def io_bind_def demo_client_conn_def demo_conn_def CURRENT_PROTO_VERSION_def)
  have room: "room demo_auth_conn = 1000000" by (simp add: demo_client_conn_def demo_conn_def)
  obtain c1 where auth: "control_channel_auth demo_env demo_nonce (sv_services demo_sv) demo_digest demo_auth_conn =
      (Inr (demo_service ServiceTcp, demo_key), c1)" and big: "1000 \<le> room c1"
    using control_channel_auth_run [of demo_env demo_key demo_auth_conn "[]" demo_nonce "sv_services demo_sv" demo_digest]
      demo_bincode_ok demo_small(3) demo_small(2) [of CURRENT_PROTO_VERSION] demo_small(1) [of AckServiceNotExist]
      demo_small(1) [of AckAuthFailed] room demo_token
    by (auto simp: demo_sv_fields)
  obtain c2 where w: "write_packet_message demo_bincode (MAck AckOk) c1 = (Inr (), c2)" "500 \<le> room c2"
    using demo_small(1) [of AckOk] big by (simp add: write_wire)
  from control_channel_install [OF demo_sv_inv demo_env_ok, of demo_nonce _ demo_digest demo_auth_conn
      "demo_service ServiceTcp" demo_key c1, OF auth] w demo_not_taken
  obtain c' sv' where "do_control_channel_handshake demo_env demo_nonce (sv_services demo_sv) demo_digest demo_auth_conn demo_sv =
      Some (Inr (), c', sv')" "items (sv_channels sv') =
        {(demo_digest, demo_key, \<lparr>h_session = sv_next demo_sv, h_service = demo_service ServiceTcp\<rparr>)}"
    "server_inv sv'" "500 \<le> room c'" "sv_sessions sv' (sv_next demo_sv) =
        Some (control_channel_handle_new c' (demo_service ServiceTcp) (sc_heartbeat_interval demo_config))"
    by (auto simp: demo_sv_fields)
  then show ?thesis using hello by (auto simp: handle_connection_def demo_chance_def)
qed

lemma demo_reach:
  "\<exists>sv h. server_reach demo_env demo_config sv \<and> items (sv_channels sv) = {(demo_digest, demo_key, h)} \<and>
     h_service h = demo_service ServiceTcp"
proof -
  obtain c' sv' h where hs: "handle_connection demo_env demo_chance (sv_services demo_sv) demo_client_conn demo_sv =
      Done (Inr (), c', sv')" "items (sv_channels sv') = {(demo_digest, demo_key, h)}" "h_service h = demo_service ServiceTcp"
    using demo_handshake by blast
  have "server_turn demo_env (Connection demo_chance (sv_services demo_sv) demo_client_conn) demo_sv = Done sv'"
    using hs(1) by (simp add: server_turn_def)
  moreover have "server_reach demo_env demo_config demo_sv" using reach_start [of demo_env demo_config] by simp
  ultimately show ?thesis using hs(2,3) reach_turn by blast
qed


theorem server_shutdown_drops_all_witness:
  "\<exists>sv sv' h. items (sv_channels sv) = {(demo_digest, demo_key, h)} \<and> server_shutdown sv = Some sv' \<and>
     items (sv_channels sv') = {} \<and> (\<forall>i. \<not> live sv' i)"
proof -
  obtain sv h where r: "server_reach demo_env demo_config sv" "items (sv_channels sv) = {(demo_digest, demo_key, h)}"
    using demo_reach by blast
  from server_shutdown_drops_all [OF r(1) demo_env_ok] r(2) show ?thesis by blast
qed



theorem data_channel_routed_witness:
  "\<exists>sv h r c1 sv'. items (sv_channels sv) = {(demo_digest, demo_key, h)} \<and>
     do_data_channel_handshake demo_key (demo_conn []) sv \<noteq> Undefined \<and>
     do_data_channel_handshake [9] (demo_conn []) sv = Done (Inr (), demo_conn [], sv)"
proof -
  obtain sv h where r: "server_reach demo_env demo_config sv" "items (sv_channels sv) = {(demo_digest, demo_key, h)}"
    using demo_reach by blast
  note inv = server_reach_inv [OF r(1) demo_env_ok]
  have "demo_key \<noteq> [9]" by (simp add: demo_key_def demo_nonce_def utf8_def)
  with data_channel_routed [OF inv, of demo_key "demo_conn []"] data_channel_routed [OF inv, of "[9]" "demo_conn []"] r(2)
  show ?thesis by (fastforce split: if_splits)
qed

theorem control_handshake_exact_witness:
  "\<exists>r c' sv' h. do_control_channel_handshake demo_env demo_nonce (sv_services demo_sv) demo_digest demo_auth_conn demo_sv =
       Some (r, c', sv') \<and> r = Inr () \<and> items (sv_channels sv') = {(demo_digest, demo_key, h)} \<and>
     out c' = wire demo_bincode (MHello (ControlChannelHello CURRENT_PROTO_VERSION demo_nonce)) @ wire demo_bincode (MAck AckOk)"
proof -
  have room: "room demo_auth_conn = 1000000" "out demo_auth_conn = []" by (simp_all add: demo_client_conn_def demo_conn_def)
  have small: "length (wire demo_bincode (MHello (ControlChannelHello CURRENT_PROTO_VERSION demo_nonce))) +
      length (wire demo_bincode (MAck AckServiceNotExist)) + length (wire demo_bincode (MAck AckAuthFailed)) +
      length (wire demo_bincode (MAck AckOk)) \<le> room demo_auth_conn"
    using demo_small(2) [of CURRENT_PROTO_VERSION] demo_small(1) [of AckServiceNotExist]
      demo_small(1) [of AckAuthFailed] demo_small(1) [of AckOk] unfolding room by linarith
  have "inp demo_auth_conn = wire (en_bc demo_env) (MAuth demo_key) @ []" by simp
  from control_handshake_exact [OF demo_sv_inv demo_env_ok _ _ this, where nonce = demo_nonce
      and services = "sv_services demo_sv" and d = demo_digest]
    demo_bincode_ok demo_small(3) small demo_not_taken demo_token room(2)
  show ?thesis by (auto simp: demo_sv_fields)
qed


section \<open>Observations\<close>

text \<open>
  A service that changes its owner is only added: its entry under the old owner's digest stays in the
  table, with the old token, until the server restarts.
\<close>

lemma owner_change_keeps_old_service:
  assumes "server_inv sv" and "map_of (sv_services sv) d = Some old"
    and "d \<noteq> service_digest (en_sha en) (ss_user new) (ss_name new)"
    and "handle_hot_reload en (ServerChange (ServerAdd new)) sv = Some sv'"
  shows "map_of (sv_services sv') d = Some old"
  using remove_channel_total [OF inv_services [OF assms(1)], of "hm_insert (service_digest (en_sha en) (ss_user new) (ss_name new)) new (sv_services sv)"
      "service_digest (en_sha en) (ss_user new) (ss_name new)"] server_inv_withD(2) [OF assms(1)] assms(2-4)
  by (auto simp: handle_hot_reload_def Let_def hmm.invar_ins update_conv')

text \<open>The identity of a service does not tell where the owner ends and the name begins.\<close>

lemma service_id_ambiguous: "service_id (Some ''a:b'') ''c'' = service_id (Some ''a'') ''b:c''"
  by (simp add: service_id_def)

text \<open>A user without a token is authenticated by the hash of the challenge alone.\<close>

lemma tokenless_user_open:
  assumes "uc_token u = None" and "find_visitor_user sha [(n, u)] ch d = Some (n', u')"
  shows "d = sha ch"
  using assms by (auto simp: find_visitor_user_def token_bytes_def split: if_splits)

text \<open>A visitor's channel can share the digest of a configured service and then replaces its channel.\<close>

lemma visitor_digest_is_service_digest:
  "visitor_digest sha user bind_addr = service_digest sha (Some user) (''visitor:'' @ bind_addr)"
  by (simp add: visitor_digest_def service_digest_def service_id_def)

end
