(* ===== verification/Client_Data.thy ===== *)
theory Client_Data
  imports Protocol "HOL-Library.Sublist"
begin

text \<open>
  Data channels on the client, src/src/client.rs: the handshake, the PROXY protocol header in front
  of a forwarded TCP connection, and the forwarding of UDP datagrams with one local socket per
  visitor. What dialling the local service returns, and how the sockets' system calls end, are
  arguments.
\<close>

section \<open>Data channel handshake\<close>

record run_data_channel_args =
  rd_session_key :: digest
  rd_remote_addr :: addr_maybe_cached
  rd_socket_opts :: socket_opts
  rd_service :: client_service_config

text \<open>
  \<open>retry_notify\<close>: the results of the attempts to connect that fit into the ten seconds of the retry
  policy; the first success is taken, the last error is returned.
\<close>

fun retry_connect :: "(net_error + conn) list \<Rightarrow> net_error + conn" where
  "retry_connect [] = Inl ConnectFailed"
| "retry_connect (Inr c # rest) = Inr c"
| "retry_connect [Inl e] = Inl e"
| "retry_connect (Inl e # a # rest) = retry_connect (a # rest)"

definition client_data_channel_handshake ::
  "bincode \<Rightarrow> run_data_channel_args \<Rightarrow> (net_error + conn) list \<Rightarrow> (net_error + unit) \<times> conn option" where
  "client_data_channel_handshake bc args attempts =
     (case retry_connect attempts of
        Inl e \<Rightarrow> (Inl e, None)
      | Inr c0 \<Rightarrow>
          (let (r, c) = write_packet_message bc (MHello (DataChannelHello CURRENT_PROTO_VERSION (rd_session_key args)))
                          (hint (rd_socket_opts args) c0)
           in (r, Some c)))"

section \<open>Forwarding TCP\<close>

definition proxy_v1_header :: "sock_addr \<Rightarrow> sock_addr \<Rightarrow> bytes" where
  "proxy_v1_header src dst = as_bytes
     (''PROXY '' @ (if \<not> is_ipv6 src then ''TCP4'' else ''TCP6'') @ '' '' @ show_ip src @ '' '' @ show_ip dst @
      '' '' @ show_nat (unat (sa_port src)) @ '' '' @ show_nat (unat (sa_port dst)) @ [CHR 0x0D, CHR 0x0A])"

definition proxy_v2_signature :: bytes where
  "proxy_v2_signature = [0x0D, 0x0A, 0x0D, 0x0A, 0x00, 0x0D, 0x0A, 0x51, 0x55, 0x49, 0x54, 0x0A]"

fun proxy_v2_header :: "sock_addr \<Rightarrow> sock_addr \<Rightarrow> bytes" where
  "proxy_v2_header (V4 sip sport) (V4 dip dport) =
     proxy_v2_signature @ [0x21, 0x11] @ u16_to_be_bytes 12 @ octets4 sip @ octets4 dip @
     u16_to_be_bytes sport @ u16_to_be_bytes dport"
| "proxy_v2_header (V6 sip sport _ _) (V6 dip dport _ _) =
     proxy_v2_signature @ [0x21, 0x21] @ u16_to_be_bytes 36 @ octets16 sip @ octets16 dip @
     u16_to_be_bytes sport @ u16_to_be_bytes dport"
| "proxy_v2_header _ _ = []"

text \<open>
  \<open>run_data_channel_for_tcp\<close>: \<open>dial\<close> gives the connection to the local service and the local address
  of its socket, when the system tells it. The result is the connection that is then copied to and
  from the data channel until either side ends.
\<close>

definition run_data_channel_for_tcp ::
  "(net_error + (conn \<times> sock_addr option)) \<Rightarrow> forward_addr \<Rightarrow> proxy_protocol option \<Rightarrow> net_error + conn" where
  "run_data_channel_for_tcp dial real_ip pp =
     res_bind dial (\<lambda>(local_conn, own).
       case pp of
         None \<Rightarrow> Inr local_conn
       | Some v \<Rightarrow>
           (let src = sock_addr_from real_ip;
                dst = (case own of Some a \<Rightarrow> a | None \<Rightarrow> src);
                header = (case v of ProxyV1 \<Rightarrow> proxy_v1_header src dst | ProxyV2 \<Rightarrow> proxy_v2_header src dst)
            in if header = [] then Inr local_conn
               else (case write_all header local_conn of (Inl e, _) \<Rightarrow> Inl e | (Inr _, c) \<Rightarrow> Inr c)))"

datatype data_channel_end =
    ChannelFailed net_error
  | ChannelClosed
  | ForwardingTcp conn conn
  | ForwardingUdp conn

definition run_data_channel ::
  "bincode \<Rightarrow> run_data_channel_args \<Rightarrow> (net_error + conn) list \<Rightarrow> (net_error + (conn \<times> sock_addr option)) \<Rightarrow>
   data_channel_end" where
  "run_data_channel bc args attempts dial =
     (case client_data_channel_handshake bc args attempts of
        (Inl e, _) \<Rightarrow> ChannelFailed e
      | (Inr _, None) \<Rightarrow> ChannelFailed ConnectFailed
      | (Inr _, Some c0) \<Rightarrow>
          (let c1 = (if cs_type (rd_service args) = ServiceUdp then set_nack_mode c0 else c0)
           in case read_data_cmd bc c1 of
                (Inl e, _) \<Rightarrow> if e = UnexpectedEof then ChannelClosed else ChannelFailed e
              | (Inr (StartForwardTcp real_ip), c) \<Rightarrow>
                  if cs_type (rd_service args) \<noteq> ServiceTcp then ChannelFailed WrongServiceKind
                  else (case run_data_channel_for_tcp dial real_ip (cs_proxy_protocol (rd_service args)) of
                          Inl e \<Rightarrow> ChannelFailed e | Inr l \<Rightarrow> ForwardingTcp c l)
              | (Inr (StartForwardUdp _), c) \<Rightarrow>
                  if cs_type (rd_service args) \<noteq> ServiceUdp then ChannelFailed WrongServiceKind
                  else ForwardingUdp c))"

section \<open>Forwarding UDP\<close>

definition UDP_SENDQ_SIZE :: nat where
  "UDP_SENDQ_SIZE = 1024"

definition UDP_BUFFER_SIZE_client :: nat where
  "UDP_BUFFER_SIZE_client = 2048"

text \<open>A forwarder: the visitor it serves, its queue, what its socket has sent, and whether it runs.\<close>

record forwarder =
  fw_from :: sock_addr
  fw_inbound :: "bytes list"
  fw_sent :: "bytes list"
  fw_runs :: bool

text \<open>
  The state of \<open>run_data_channel_for_udp\<close>: the port map, with the forwarder whose queue a visitor's
  packets go to, the forwarders, the queue towards the server and the task that writes it.
\<close>

record udp_forward =
  uf_rd :: conn
  uf_map :: "(sock_addr, nat) hash_map"
  uf_forwarders :: "nat \<rightharpoonup> forwarder"
  uf_next :: nat
  uf_outbound :: "udp_traffic list"
  uf_writer :: bool
  uf_wr :: conn

definition udp_forward_new :: "conn \<Rightarrow> conn \<Rightarrow> udp_forward" where
  "udp_forward_new rd wr =
     \<lparr>uf_rd = rd, uf_map = [], uf_forwarders = Map.empty, uf_next = 0, uf_outbound = [], uf_writer = True,
      uf_wr = wr\<rparr>"

text \<open>Set up a forwarder for an unknown visitor; \<open>ok\<close> tells whether \<open>udp_connect\<close> succeeded.\<close>

definition ensure_forwarder :: "bool \<Rightarrow> sock_addr \<Rightarrow> udp_forward \<Rightarrow> udp_forward" where
  "ensure_forwarder ok from u =
     (if map_of (uf_map u) from = None \<and> ok
      then u\<lparr>uf_map := hm_insert from (uf_next u) (uf_map u),
             uf_forwarders := (uf_forwarders u)(uf_next u \<mapsto>
                \<lparr>fw_from = from, fw_inbound = [], fw_sent = [], fw_runs = True\<rparr>),
             uf_next := Suc (uf_next u)\<rparr>
      else u)"

text \<open>
  Hand a packet to the forwarder of its visitor: an error of \<open>send\<close>, when the forwarder has ended, is
  ignored; a full queue is waited for (\<open>None\<close>).
\<close>

definition deliver_packet :: "udp_traffic \<Rightarrow> udp_forward \<Rightarrow> udp_forward option" where
  "deliver_packet t u =
     (case map_of (uf_map u) (ut_from t) of
        None \<Rightarrow> Some u
      | Some i \<Rightarrow>
          (case uf_forwarders u i of
             None \<Rightarrow> Some u
           | Some f \<Rightarrow>
               if \<not> fw_runs f then Some u
               else if length (fw_inbound f) < UDP_SENDQ_SIZE
               then Some (u\<lparr>uf_forwarders := (uf_forwarders u)(i \<mapsto> f\<lparr>fw_inbound := fw_inbound f @ [ut_data t]\<rparr>)\<rparr>)
               else None))"

text \<open>One iteration of the loop that reads from the server; an error ends it.\<close>

definition udp_read_turn :: "bincode \<Rightarrow> bool \<Rightarrow> udp_forward \<Rightarrow> (net_error + udp_traffic \<times> udp_forward) option" where
  "udp_read_turn bc ok u =
     (case io_bind read_u8 (udp_traffic_read bc) (uf_rd u) of
        (Inl e, c) \<Rightarrow> Some (Inl e)
      | (Inr t, c) \<Rightarrow>
          map_option (\<lambda>u'. Inr (t, u')) (deliver_packet t (ensure_forwarder ok (ut_from t) (u\<lparr>uf_rd := c\<rparr>))))"

text \<open>
  The branches of \<open>run_udp_forwarder\<close>: a packet from the queue, and whether \<open>send\<close> takes it; what
  \<open>recv\<close> returned; sixty idle seconds. Leaving the loop by \<open>break\<close> removes the visitor from the port
  map; the two uses of the question mark leave the function at once.
\<close>

datatype forwarder_branch = FwInbound bool | FwRecv "bytes option" | FwTimeout

definition stop_forwarder :: "nat \<Rightarrow> forwarder \<Rightarrow> udp_forward \<Rightarrow> udp_forward" where
  "stop_forwarder i f u =
     u\<lparr>uf_forwarders := (uf_forwarders u)(i \<mapsto> f\<lparr>fw_runs := False, fw_inbound := []\<rparr>)\<rparr>"

definition break_forwarder :: "nat \<Rightarrow> forwarder \<Rightarrow> udp_forward \<Rightarrow> udp_forward" where
  "break_forwarder i f u = (stop_forwarder i f u)\<lparr>uf_map := hm_remove (fw_from f) (uf_map u)\<rparr>"

definition forwarder_turn :: "forwarder_branch \<Rightarrow> nat \<Rightarrow> udp_forward \<Rightarrow> udp_forward option" where
  "forwarder_turn branch i u =
     (case uf_forwarders u i of
        None \<Rightarrow> None
      | Some f \<Rightarrow>
          if \<not> fw_runs f then None
          else (case branch of
                  FwInbound sent \<Rightarrow>
                    (case fw_inbound f of
                       d # ds \<Rightarrow>
                         Some (if sent
                               then u\<lparr>uf_forwarders := (uf_forwarders u)(i \<mapsto> f\<lparr>fw_inbound := ds, fw_sent := fw_sent f @ [d]\<rparr>)\<rparr>
                               else stop_forwarder i f u)
                     | [] \<Rightarrow> if map_of (uf_map u) (fw_from f) \<noteq> Some i then Some (break_forwarder i f u) else None)
                | FwRecv None \<Rightarrow> Some (break_forwarder i f u)
                | FwRecv (Some d) \<Rightarrow>
                    if \<not> uf_writer u then Some (stop_forwarder i f u)
                    else if length (uf_outbound u) < UDP_SENDQ_SIZE
                    then Some (u\<lparr>uf_outbound := uf_outbound u @ [\<lparr>ut_from = fw_from f, ut_data = take UDP_BUFFER_SIZE_client d\<rparr>]\<rparr>)
                    else None
                | FwTimeout \<Rightarrow> Some (break_forwarder i f u)))"

text \<open>The task that writes to the server; a failed write ends it and drops its queue.\<close>

definition udp_writer_turn :: "bincode \<Rightarrow> udp_forward \<Rightarrow> udp_forward option" where
  "udp_writer_turn bc u =
     (if \<not> uf_writer u then None
      else (case uf_outbound u of
              [] \<Rightarrow> None
            | t # ts \<Rightarrow>
                (case udp_traffic_write bc t (uf_wr u) of
                   (Inr _, c) \<Rightarrow> Some (u\<lparr>uf_outbound := ts, uf_wr := c\<rparr>)
                 | (Inl e, c) \<Rightarrow> Some (u\<lparr>uf_outbound := [], uf_wr := c, uf_writer := False\<rparr>))))"

section \<open>Runs of the UDP forwarding\<close>

text \<open>
  A run from a given state, with the packets that were read from the server so far. A read that
  fails ends the loop; the forwarders then only see their own events.
\<close>

inductive forward_run :: "bincode \<Rightarrow> udp_forward \<Rightarrow> udp_traffic list \<Rightarrow> udp_forward \<Rightarrow> bool"
  for bc :: bincode and u0 :: udp_forward where
  forward_start: "forward_run bc u0 [] u0"
| forward_read: "forward_run bc u0 ts u \<Longrightarrow> udp_read_turn bc ok u = Some (Inr (t, u')) \<Longrightarrow>
    forward_run bc u0 (ts @ [t]) u'"
| forward_forwarder: "forward_run bc u0 ts u \<Longrightarrow> forwarder_turn b i u = Some u' \<Longrightarrow> forward_run bc u0 ts u'"
| forward_writer: "forward_run bc u0 ts u \<Longrightarrow> udp_writer_turn bc u = Some u' \<Longrightarrow> forward_run bc u0 ts u'"

text \<open>The payloads that came from one visitor.\<close>

definition payloads :: "sock_addr \<Rightarrow> udp_traffic list \<Rightarrow> bytes list" where
  "payloads a ts = map ut_data (filter (\<lambda>t. ut_from t = a) ts)"

lemma payloads_snoc [simp]:
  "payloads a (ts @ [t]) = payloads a ts @ (if ut_from t = a then [ut_data t] else [])"
  by (simp add: payloads_def)

text \<open>
  The port map leads a visitor to a forwarder of its own; a forwarder has been given a subsequence of
  its visitor's packets; replies carry the address of a visitor that was seen.
\<close>

definition forward_inv :: "udp_traffic list \<Rightarrow> udp_forward \<Rightarrow> bool" where
  "forward_inv ts u \<longleftrightarrow>
     hm_inv (uf_map u) \<and>
     (\<forall>a i. map_of (uf_map u) a = Some i \<longrightarrow> (\<exists>f. uf_forwarders u i = Some f \<and> fw_from f = a)) \<and>
     (\<forall>i f. uf_forwarders u i = Some f \<longrightarrow>
        i < uf_next u \<and> fw_from f \<in> ut_from ` set ts \<and> subseq (fw_sent f @ fw_inbound f) (payloads (fw_from f) ts) \<and>
        (fw_runs f \<longrightarrow> map_of (uf_map u) (fw_from f) = Some i)) \<and>
     (\<forall>t \<in> set (uf_outbound u). ut_from t \<in> ut_from ` set ts)"

lemma forward_invD:
  assumes "forward_inv ts u"
  shows "hm_inv (uf_map u)"
    "map_of (uf_map u) a = Some i \<Longrightarrow> \<exists>f. uf_forwarders u i = Some f \<and> fw_from f = a"
    "uf_forwarders u i = Some f \<Longrightarrow> i < uf_next u" "uf_forwarders u i = Some f \<Longrightarrow> fw_from f \<in> ut_from ` set ts"
    "uf_forwarders u i = Some f \<Longrightarrow> subseq (fw_sent f @ fw_inbound f) (payloads (fw_from f) ts)"
    "uf_forwarders u i = Some f \<Longrightarrow> fw_runs f \<Longrightarrow> map_of (uf_map u) (fw_from f) = Some i"
    "t \<in> set (uf_outbound u) \<Longrightarrow> ut_from t \<in> ut_from ` set ts"
  using assms unfolding forward_inv_def by blast+

lemma forward_invI:
  assumes "hm_inv (uf_map u)"
    "\<And>a i. map_of (uf_map u) a = Some i \<Longrightarrow> \<exists>f. uf_forwarders u i = Some f \<and> fw_from f = a"
    "\<And>i f. uf_forwarders u i = Some f \<Longrightarrow> i < uf_next u \<and> fw_from f \<in> ut_from ` set ts \<and>
       subseq (fw_sent f @ fw_inbound f) (payloads (fw_from f) ts) \<and>
       (fw_runs f \<longrightarrow> map_of (uf_map u) (fw_from f) = Some i)"
    "\<And>t. t \<in> set (uf_outbound u) \<Longrightarrow> ut_from t \<in> ut_from ` set ts"
  shows "forward_inv ts u"
  using assms unfolding forward_inv_def by blast

lemma forward_inv_more:
  assumes "forward_inv ts u"
  shows "forward_inv (ts @ [t]) u"
proof (rule forward_invI)
  show "hm_inv (uf_map u)" by (rule forward_invD(1) [OF assms])
  show "\<exists>f. uf_forwarders u i = Some f \<and> fw_from f = a" if "map_of (uf_map u) a = Some i" for a i
    by (rule forward_invD(2) [OF assms that])
  show "ut_from t' \<in> ut_from ` set (ts @ [t])" if "t' \<in> set (uf_outbound u)" for t'
    using forward_invD(7) [OF assms that] by auto
  show "i < uf_next u \<and> fw_from f \<in> ut_from ` set (ts @ [t]) \<and>
      subseq (fw_sent f @ fw_inbound f) (payloads (fw_from f) (ts @ [t])) \<and>
      (fw_runs f \<longrightarrow> map_of (uf_map u) (fw_from f) = Some i)" if "uf_forwarders u i = Some f" for i f
    using forward_invD(3-6) [OF assms that] by (auto intro: subseq_order.trans [OF _ subseq_rev_drop_many])
qed

text \<open>Replacing one forwarder by one that has sent or queued less.\<close>

lemma forward_inv_update:
  assumes inv: "forward_inv ts u" and f: "uf_forwarders u i = Some f" and f': "fw_from f' = fw_from f"
    and sub: "subseq (fw_sent f' @ fw_inbound f') (payloads (fw_from f) ts)" and runs: "fw_runs f' \<longrightarrow> fw_runs f"
  shows "forward_inv ts (u\<lparr>uf_forwarders := (uf_forwarders u)(i \<mapsto> f')\<rparr>)"
proof (rule forward_invI)
  show "\<exists>g. uf_forwarders (u\<lparr>uf_forwarders := (uf_forwarders u)(i \<mapsto> f')\<rparr>) j = Some g \<and> fw_from g = a"
    if "map_of (uf_map (u\<lparr>uf_forwarders := (uf_forwarders u)(i \<mapsto> f')\<rparr>)) a = Some j" for a j
    using forward_invD(2) [OF inv, of a j] that f f' by (cases "j = i") auto
qed (use forward_invD [OF inv] f f' sub runs in \<open>auto split: if_splits\<close>)

lemma forward_inv_ensure:
  assumes inv: "forward_inv ts u" and "from \<in> ut_from ` set ts"
  shows "forward_inv ts (ensure_forwarder ok from u)"
proof (cases "map_of (uf_map u) from = None \<and> ok")
  case True
  have fresh: "uf_forwarders u (uf_next u) = None" using forward_invD(3) [OF inv] by (metis less_irrefl option.exhaust)
  let ?u = "ensure_forwarder ok from u"
  show ?thesis
  proof (rule forward_invI)
    show "hm_inv (uf_map ?u)" using forward_invD(1) [OF inv] True by (simp add: ensure_forwarder_def hmm.invar_ins)
    show "\<exists>f. uf_forwarders ?u i = Some f \<and> fw_from f = a" if "map_of (uf_map ?u) a = Some i" for a i
      using that True forward_invD(2) [OF inv, of a i] fresh
      by (auto simp: ensure_forwarder_def update_conv' split: if_splits)
    show "i < uf_next ?u \<and> fw_from f \<in> ut_from ` set ts \<and> subseq (fw_sent f @ fw_inbound f) (payloads (fw_from f) ts) \<and>
        (fw_runs f \<longrightarrow> map_of (uf_map ?u) (fw_from f) = Some i)" if "uf_forwarders ?u i = Some f" for i f
    proof (cases "i = uf_next u")
      case True
      with that \<open>map_of (uf_map u) from = None \<and> ok\<close> assms(2) show ?thesis
        by (auto simp: ensure_forwarder_def update_conv')
    next
      case False
      with that True have f: "uf_forwarders u i = Some f" by (simp add: ensure_forwarder_def)
      then have "fw_runs f \<Longrightarrow> fw_from f \<noteq> from" using forward_invD(6) [OF inv f] True by auto
      with forward_invD(3-6) [OF inv f] True show ?thesis by (auto simp: ensure_forwarder_def update_conv')
    qed
    show "ut_from t \<in> ut_from ` set ts" if "t \<in> set (uf_outbound ?u)" for t
      using that forward_invD(7) [OF inv] True by (simp add: ensure_forwarder_def)
  qed
qed (use inv in \<open>auto simp: ensure_forwarder_def\<close>)

lemma forward_inv_deliver:
  assumes inv: "forward_inv (ts @ [t]) u" and "deliver_packet t u = Some u'"
    and old: "\<And>i f. uf_forwarders u i = Some f \<Longrightarrow> subseq (fw_sent f @ fw_inbound f) (payloads (fw_from f) ts)"
  shows "forward_inv (ts @ [t]) u'"
proof -
  show ?thesis
  proof (cases "map_of (uf_map u) (ut_from t)")
    case None
    with assms(2) inv show ?thesis by (simp add: deliver_packet_def)
  next
    case (Some i)
    then obtain f where f: "uf_forwarders u i = Some f" "fw_from f = ut_from t" using forward_invD(2) [OF inv] by blast
    let ?u = "u\<lparr>uf_forwarders := (uf_forwarders u)(i \<mapsto> f\<lparr>fw_inbound := fw_inbound f @ [ut_data t]\<rparr>)\<rparr>"
    have "subseq ((fw_sent f @ fw_inbound f) @ [ut_data t]) (payloads (fw_from f) (ts @ [t]))"
      using old [OF f(1)] f(2) by (simp del: append_assoc)
    then have "forward_inv (ts @ [t]) ?u" by (intro forward_inv_update [OF inv f(1)]) simp_all
    moreover have "u' = u \<or> u' = ?u"
      using assms(2) Some f(1) by (simp add: deliver_packet_def split: if_splits)
    ultimately show ?thesis using inv by blast
  qed
qed

lemma forward_inv_read:
  assumes inv: "forward_inv ts u" and "udp_read_turn bc ok u = Some (Inr (t, u'))"
  shows "forward_inv (ts @ [t]) u'"
proof -
  obtain c where d: "deliver_packet t (ensure_forwarder ok (ut_from t) (u\<lparr>uf_rd := c\<rparr>)) = Some u'"
    using assms(2) by (auto simp: udp_read_turn_def split: prod.splits sum.splits)
  have "forward_inv ts (u\<lparr>uf_rd := c\<rparr>)" using inv by (simp add: forward_inv_def)
  then have "forward_inv (ts @ [t]) (ensure_forwarder ok (ut_from t) (u\<lparr>uf_rd := c\<rparr>))"
    by (intro forward_inv_ensure forward_inv_more) simp_all
  moreover have "subseq (fw_sent f @ fw_inbound f) (payloads (fw_from f) ts)"
    if "uf_forwarders (ensure_forwarder ok (ut_from t) (u\<lparr>uf_rd := c\<rparr>)) i = Some f" for i f
    using that forward_invD(5) [OF inv, of i f] by (auto simp: ensure_forwarder_def split: if_splits)
  ultimately show ?thesis by (rule forward_inv_deliver [OF _ d])
qed

lemma forward_inv_stop:
  assumes "forward_inv ts u" and "uf_forwarders u i = Some f"
  shows "forward_inv ts (stop_forwarder i f u)"
  unfolding stop_forwarder_def
  by (rule forward_inv_update [OF assms])
    (use forward_invD(5) [OF assms] in \<open>auto intro: subseq_order.trans [OF subseq_rev_drop_many]\<close>)

lemma forward_inv_break:
  assumes inv: "forward_inv ts u" and f: "uf_forwarders u i = Some f" and runs: "fw_runs f"
  shows "forward_inv ts (break_forwarder i f u)"
proof (rule forward_invI)
  let ?s = "stop_forwarder i f u" and ?b = "break_forwarder i f u"
  note st = forward_invD [OF forward_inv_stop [OF inv f]]
  have here: "map_of (uf_map u) (fw_from f) = Some i" by (rule forward_invD(6) [OF inv f runs])
  have eqs: "uf_forwarders ?b = uf_forwarders ?s" "uf_next ?b = uf_next ?s" "uf_outbound ?b = uf_outbound ?s"
    "uf_map ?s = uf_map u" "map_of (uf_map ?b) = (map_of (uf_map u))(fw_from f := None)"
    by (simp_all add: break_forwarder_def stop_forwarder_def delete_conv')
  show "hm_inv (uf_map ?b)" using forward_invD(1) [OF inv] by (simp add: break_forwarder_def hmm.invar_rem)
  show "\<exists>g. uf_forwarders ?b j = Some g \<and> fw_from g = a" if "map_of (uf_map ?b) a = Some j" for a j
    using that st(2) [of a j] unfolding eqs by (auto split: if_splits)
  show "ut_from t \<in> ut_from ` set ts" if "t \<in> set (uf_outbound ?b)" for t
    using that st(7) unfolding eqs by blast
  show "j < uf_next ?b \<and> fw_from g \<in> ut_from ` set ts \<and> subseq (fw_sent g @ fw_inbound g) (payloads (fw_from g) ts) \<and>
      (fw_runs g \<longrightarrow> map_of (uf_map ?b) (fw_from g) = Some j)" if g: "uf_forwarders ?b j = Some g" for j g
  proof -
    have s: "uf_forwarders ?s j = Some g" using g by (simp add: eqs)
    have "fw_runs g \<Longrightarrow> j \<noteq> i" using s by (auto simp: stop_forwarder_def)
    moreover have "fw_runs g \<Longrightarrow> map_of (uf_map u) (fw_from g) = Some j" using st(6) [OF s] by (simp add: eqs)
    ultimately have "fw_runs g \<longrightarrow> map_of (uf_map ?b) (fw_from g) = Some j" using here unfolding eqs by auto
    with st(3-5) [OF s] show ?thesis by (simp add: eqs)
  qed
qed

lemma forward_inv_forwarder:
  assumes inv: "forward_inv ts u" and t: "forwarder_turn b i u = Some u'"
  shows "forward_inv ts u'"
proof -
  obtain f where f: "uf_forwarders u i = Some f" "fw_runs f"
    using t by (auto simp: forwarder_turn_def split: option.splits if_splits)
  show ?thesis
  proof (cases b)
    case (FwInbound sent)
    show ?thesis
    proof (cases "fw_inbound f")
      case Nil
      with FwInbound f t inv show ?thesis
        by (auto simp: forwarder_turn_def split: if_splits intro: forward_inv_break)
    next
      case (Cons d ds)
      have "subseq ((fw_sent f @ [d]) @ ds) (payloads (fw_from f) ts)" using forward_invD(5) [OF inv f(1)] Cons by simp
      then have "forward_inv ts (u\<lparr>uf_forwarders := (uf_forwarders u)(i \<mapsto> f\<lparr>fw_inbound := ds, fw_sent := fw_sent f @ [d]\<rparr>)\<rparr>)"
        using f(2) by (intro forward_inv_update [OF inv f(1)]) simp_all
      with Cons FwInbound f t inv show ?thesis
        by (auto simp: forwarder_turn_def split: if_splits intro: forward_inv_stop)
    qed
  next
    case (FwRecv r)
    show ?thesis
    proof (cases r)
      case None
      with FwRecv f t inv show ?thesis by (auto simp: forwarder_turn_def intro: forward_inv_break)
    next
      case (Some d)
      have "forward_inv ts (u\<lparr>uf_outbound := uf_outbound u @ [\<lparr>ut_from = fw_from f, ut_data = take UDP_BUFFER_SIZE_client d\<rparr>]\<rparr>)"
        using forward_invD(4) [OF inv f(1)] inv by (auto simp: forward_inv_def)
      with Some FwRecv f t inv show ?thesis
        by (auto simp: forwarder_turn_def split: if_splits intro: forward_inv_stop)
    qed
  next
    case FwTimeout
    with f t inv show ?thesis by (auto simp: forwarder_turn_def intro: forward_inv_break)
  qed
qed

lemma forward_inv_writer: "forward_inv ts u \<Longrightarrow> udp_writer_turn bc u = Some u' \<Longrightarrow> forward_inv ts u'"
  by (auto simp: udp_writer_turn_def forward_inv_def split: if_splits list.splits prod.splits sum.splits)

lemma forward_run_inv: "forward_run bc (udp_forward_new rd wr) ts u \<Longrightarrow> forward_inv ts u"
proof (induction rule: forward_run.induct)
  case forward_start
  then show ?case by (simp add: forward_inv_def udp_forward_new_def hm_inv_def)
qed (auto intro: forward_inv_read forward_inv_forwarder forward_inv_writer)

section \<open>A forwarder that ended on an error\<close>

text \<open>The port map still leads the visitor to a forwarder that has ended, and no other one serves it.\<close>

definition stale :: "sock_addr \<Rightarrow> udp_forward \<Rightarrow> bool" where
  "stale a u \<longleftrightarrow>
     (\<exists>i f. map_of (uf_map u) a = Some i \<and> uf_forwarders u i = Some f \<and> \<not> fw_runs f \<and> i < uf_next u) \<and>
     (\<forall>j g. uf_forwarders u j = Some g \<and> fw_runs g \<longrightarrow> fw_from g \<noteq> a)"

text \<open>What the forwarders of a visitor have sent, per forwarder.\<close>

definition sent_for :: "sock_addr \<Rightarrow> udp_forward \<Rightarrow> (nat \<times> bytes list) set" where
  "sent_for a u = {(j, fw_sent g) |j g. uf_forwarders u j = Some g \<and> fw_from g = a}"

lemma stale_ensure:
  assumes "stale a u" and "\<forall>j \<ge> uf_next u. uf_forwarders u j = None"
  shows "stale a (ensure_forwarder ok from u)" "sent_for a (ensure_forwarder ok from u) = sent_for a u"
    "\<forall>j \<ge> uf_next (ensure_forwarder ok from u). uf_forwarders (ensure_forwarder ok from u) j = None"
proof -
  show "stale a (ensure_forwarder ok from u)"
  proof (cases "map_of (uf_map u) from = None \<and> ok")
    case True
    with assms(1) have ne: "from \<noteq> a" by (auto simp: stale_def)
    from assms(1) obtain i f where i: "map_of (uf_map u) a = Some i" "uf_forwarders u i = Some f" "\<not> fw_runs f" "i < uf_next u"
      by (auto simp: stale_def)
    with True ne assms(1) show ?thesis
      by (auto simp: stale_def ensure_forwarder_def update_conv')
  qed (use assms(1) in \<open>auto simp: ensure_forwarder_def\<close>)
  show "sent_for a (ensure_forwarder ok from u) = sent_for a u"
  proof (cases "map_of (uf_map u) from = None \<and> ok")
    case True
    with assms(1) have "from \<noteq> a" by (auto simp: stale_def)
    with True assms(2) show ?thesis by (fastforce simp: sent_for_def ensure_forwarder_def split: if_splits)
  qed (auto simp: ensure_forwarder_def)
  show "\<forall>j \<ge> uf_next (ensure_forwarder ok from u). uf_forwarders (ensure_forwarder ok from u) j = None"
    using assms(2) by (auto simp: ensure_forwarder_def)
qed

definition blocked :: "sock_addr \<Rightarrow> udp_forward \<Rightarrow> bool" where
  "blocked a u \<longleftrightarrow> stale a u \<and> (\<forall>j \<ge> uf_next u. uf_forwarders u j = None)"

lemma blocked_cong:
  assumes "uf_map u' = uf_map u" and "uf_forwarders u' = uf_forwarders u" and "uf_next u' = uf_next u"
  shows "blocked a u' = blocked a u" "sent_for a u' = sent_for a u"
  using assms by (simp_all only: blocked_def stale_def sent_for_def)

text \<open>Touching a running forwarder does not concern a blocked visitor.\<close>

lemma blocked_update:
  assumes "blocked a u" and f: "uf_forwarders u i = Some f" "fw_runs f" and f': "fw_from f' = fw_from f"
    and m: "map_of (uf_map u') a = map_of (uf_map u) a"
    and u': "uf_forwarders u' = (uf_forwarders u)(i \<mapsto> f')" "uf_next u' = uf_next u"
  shows "blocked a u' \<and> sent_for a u' = sent_for a u"
proof -
  have st: "stale a u" "\<forall>j \<ge> uf_next u. uf_forwarders u j = None" using assms(1) by (simp_all add: blocked_def)
  have ne: "fw_from f \<noteq> a" using st(1) f by (auto simp: stale_def)
  obtain k g where k: "map_of (uf_map u) a = Some k" "uf_forwarders u k = Some g" "\<not> fw_runs g" "k < uf_next u"
    using st(1) by (auto simp: stale_def)
  have "k \<noteq> i" using k(2,3) f by auto
  moreover have "\<forall>j g. uf_forwarders u' j = Some g \<and> fw_runs g \<longrightarrow> fw_from g \<noteq> a"
    using st(1) ne f' by (auto simp: stale_def u' split: if_splits)
  ultimately have "stale a u'" using k m unfolding stale_def u' by auto
  moreover have "\<forall>j \<ge> uf_next u'. uf_forwarders u' j = None" using st(2) f(1) by (auto simp: u')
  moreover have "uf_forwarders u' j = Some g \<and> fw_from g = a \<longleftrightarrow> uf_forwarders u j = Some g \<and> fw_from g = a" for j g
    using ne f(1) f' by (cases "j = i") (auto simp: u')
  then have "sent_for a u' = sent_for a u" by (simp add: sent_for_def)
  ultimately show ?thesis by (simp add: blocked_def)
qed

lemma blocked_deliver:
  assumes "blocked a u" and "deliver_packet t u = Some u'"
  shows "blocked a u' \<and> sent_for a u' = sent_for a u"
proof (cases "map_of (uf_map u) (ut_from t)")
  case (Some i)
  show ?thesis
  proof (cases "uf_forwarders u i")
    case None
    with Some assms show ?thesis by (simp add: deliver_packet_def)
  next
    case (Some f)
    let ?f = "f\<lparr>fw_inbound := fw_inbound f @ [ut_data t]\<rparr>"
    have "u' = u \<or> fw_runs f \<and> u' = u\<lparr>uf_forwarders := (uf_forwarders u)(i \<mapsto> ?f)\<rparr>"
      using assms(2) \<open>map_of (uf_map u) (ut_from t) = Some i\<close> Some by (simp add: deliver_packet_def split: if_splits)
    with assms(1) blocked_update [OF assms(1) Some, of ?f u'] show ?thesis by auto
  qed
qed (use assms in \<open>simp add: deliver_packet_def\<close>)

lemma blocked_read:
  assumes "blocked a u" and "udp_read_turn bc ok u = Some (Inr (t, u'))"
  shows "blocked a u' \<and> sent_for a u' = sent_for a u"
proof -
  obtain c where d: "deliver_packet t (ensure_forwarder ok (ut_from t) (u\<lparr>uf_rd := c\<rparr>)) = Some u'"
    using assms(2) by (auto simp: udp_read_turn_def split: prod.splits sum.splits)
  have b: "blocked a (u\<lparr>uf_rd := c\<rparr>)" "sent_for a (u\<lparr>uf_rd := c\<rparr>) = sent_for a u"
    using assms(1) blocked_cong [of "u\<lparr>uf_rd := c\<rparr>" u a] by simp_all
  note e = stale_ensure [OF b(1) [unfolded blocked_def, THEN conjunct1] b(1) [unfolded blocked_def, THEN conjunct2], of ok "ut_from t"]
  then have "blocked a (ensure_forwarder ok (ut_from t) (u\<lparr>uf_rd := c\<rparr>))" by (simp add: blocked_def)
  from blocked_deliver [OF this d] e(2) b(2) show ?thesis by simp
qed

lemma blocked_forwarder:
  assumes "blocked a u" and "forwarder_turn b i u = Some u'"
  shows "blocked a u' \<and> sent_for a u' = sent_for a u"
proof -
  obtain f where f: "uf_forwarders u i = Some f" "fw_runs f"
    using assms(2) by (auto simp: forwarder_turn_def split: option.splits if_splits)
  have ne: "fw_from f \<noteq> a" using assms(1) f by (auto simp: blocked_def stale_def)
  have same: "blocked a (u\<lparr>uf_outbound := x\<rparr>) = blocked a u" "sent_for a (u\<lparr>uf_outbound := x\<rparr>) = sent_for a u" for x
    by (rule blocked_cong; simp)+
  have stop: "blocked a (stop_forwarder i f u) \<and> sent_for a (stop_forwarder i f u) = sent_for a u"
    by (rule blocked_update [OF assms(1) f, of "f\<lparr>fw_runs := False, fw_inbound := []\<rparr>"]) (simp_all add: stop_forwarder_def)
  have brk: "blocked a (break_forwarder i f u) \<and> sent_for a (break_forwarder i f u) = sent_for a u"
    by (rule blocked_update [OF assms(1) f, of "f\<lparr>fw_runs := False, fw_inbound := []\<rparr>"])
      (use ne in \<open>simp_all add: break_forwarder_def stop_forwarder_def delete_conv'\<close>)
  have upd: "blocked a (u\<lparr>uf_forwarders := (uf_forwarders u)(i \<mapsto> f\<lparr>fw_inbound := ds, fw_sent := ss\<rparr>)\<rparr>) \<and>
      sent_for a (u\<lparr>uf_forwarders := (uf_forwarders u)(i \<mapsto> f\<lparr>fw_inbound := ds, fw_sent := ss\<rparr>)\<rparr>) = sent_for a u" for ds ss
    by (rule blocked_update [OF assms(1) f, of "f\<lparr>fw_inbound := ds, fw_sent := ss\<rparr>"]) simp_all
  show ?thesis
    using assms f stop brk upd same
    by (auto simp: forwarder_turn_def split: forwarder_branch.splits list.splits option.splits if_splits)
qed

lemma blocked_writer:
  "blocked a u \<Longrightarrow> udp_writer_turn bc u = Some u' \<Longrightarrow> blocked a u' \<and> sent_for a u' = sent_for a u"
  using blocked_cong [of u' u a]
  by (auto simp: udp_writer_turn_def split: if_splits list.splits prod.splits sum.splits)

lemma blocked_run: "forward_run bc u0 ts u \<Longrightarrow> blocked a u0 \<Longrightarrow> blocked a u \<and> sent_for a u = sent_for a u0"
  by (induction rule: forward_run.induct) (use blocked_read blocked_forwarder blocked_writer in metis)+

section \<open>Reading back the PROXY header\<close>

text \<open>
  The receiver's side of version 2 of the PROXY protocol, for the two families the client writes: the
  signature, version and command, family, length, and then the addresses.
\<close>

definition proxy_v2_parse :: "bytes \<Rightarrow> (sock_addr \<times> sock_addr \<times> bytes) option" where
  "proxy_v2_parse bs =
     (if length bs < 16 \<or> take 12 bs \<noteq> proxy_v2_signature \<or> bs ! 12 \<noteq> 0x21 then None
      else (let fam = bs ! 13; len = unat (u16_from_be_bytes (take 2 (drop 14 bs))); r = drop 16 bs
            in if length r < len then None
               else if fam = 0x11 \<and> len = 12 then
                 Some (V4 (ipv4_from (take 4 r)) (u16_from_be_bytes (take 2 (drop 8 r))),
                       V4 (ipv4_from (take 4 (drop 4 r))) (u16_from_be_bytes (take 2 (drop 10 r))), drop 12 r)
               else if fam = 0x21 \<and> len = 36 then
                 Some (V6 (ipv6_from (take 16 r)) (u16_from_be_bytes (take 2 (drop 32 r))) 0 0,
                       V6 (ipv6_from (take 16 (drop 16 r))) (u16_from_be_bytes (take 2 (drop 34 r))) 0 0, drop 36 r)
               else None))"

definition same_family :: "sock_addr \<Rightarrow> sock_addr \<Rightarrow> bool" where
  "same_family a b \<longleftrightarrow> is_ipv6 a = is_ipv6 b"

fun plain_addr :: "sock_addr \<Rightarrow> sock_addr" where
  "plain_addr (V4 ip p) = V4 ip p"
| "plain_addr (V6 ip p _ _) = V6 ip p 0 0"

section \<open>Properties\<close>

text \<open>
  C28: visitors of a UDP service do not see each other's traffic. In every run of the forwarding, the
  socket of a visitor has sent only datagrams of that visitor, in the order they came from the server
  and none twice, and everything that waits to go back to the server is addressed to a visitor that
  has sent something. The port map has at most one running forwarder per visitor.
\<close>

theorem udp_forward_isolation:
  assumes "forward_run bc (udp_forward_new rd wr) ts u"
  shows "(\<forall>i f. uf_forwarders u i = Some f \<longrightarrow>
      subseq (fw_sent f @ fw_inbound f) (payloads (fw_from f) ts) \<and>
      (fw_runs f \<longrightarrow> map_of (uf_map u) (fw_from f) = Some i)) \<and>
    (\<forall>t \<in> set (uf_outbound u). \<exists>t' \<in> set ts. ut_from t' = ut_from t)"
proof -
  note inv = forward_run_inv [OF assms]
  have "\<exists>t' \<in> set ts. ut_from t' = ut_from t" if "t \<in> set (uf_outbound u)" for t
    using forward_invD(7) [OF inv that] by auto
  with forward_invD(5,6) [OF inv] show ?thesis by blast
qed

text \<open>
  A visitor whose forwarder fails to send is cut off. When a forwarder's \<open>send\<close> returns an error,
  it ends without leaving the port map; from then on, whatever happens, nothing more is sent to the
  service for that visitor, and no new forwarder is set up for it.
\<close>

theorem failed_forwarder_blocks_visitor:
  assumes "forward_inv ts u" and "uf_forwarders u i = Some f" and "fw_runs f" and "fw_inbound f \<noteq> []"
    and "forwarder_turn (FwInbound False) i u = Some u1" and "forward_run bc u1 ts' u2"
  shows "sent_for (fw_from f) u2 = sent_for (fw_from f) u \<and> map_of (uf_map u2) (fw_from f) \<noteq> None \<and>
    (\<forall>j g. uf_forwarders u2 j = Some g \<and> fw_from g = fw_from f \<longrightarrow> \<not> fw_runs g)"
proof -
  have u1: "u1 = stop_forwarder i f u"
    using assms(2-5) by (cases "fw_inbound f") (simp_all add: forwarder_turn_def)
  note inv = forward_invD [OF assms(1)]
  have here: "map_of (uf_map u) (fw_from f) = Some i" by (rule inv(6) [OF assms(2,3)])
  have other: "fw_from g \<noteq> fw_from f" if "uf_forwarders u j = Some g" "fw_runs g" "j \<noteq> i" for j g
    using inv(6) [OF that(1,2)] here that(3) by auto
  have sent: "sent_for (fw_from f) u1 = sent_for (fw_from f) u"
    using assms(2) unfolding u1 stop_forwarder_def sent_for_def by auto
  have "stale (fw_from f) u1"
    using here inv(3) [OF assms(2)] other unfolding u1 stop_forwarder_def stale_def by auto
  moreover have "uf_forwarders u j = None" if "uf_next u \<le> j" for j
    using inv(3) [of j] that by (cases "uf_forwarders u j") auto
  then have "\<forall>j \<ge> uf_next u1. uf_forwarders u1 j = None"
    using inv(3) [OF assms(2)] unfolding u1 stop_forwarder_def by auto
  ultimately have "blocked (fw_from f) u1" by (simp add: blocked_def)
  from blocked_run [OF assms(6) this] sent show ?thesis by (auto simp: blocked_def stale_def)
qed

lemma octets_lengths [simp]: "length (octets4 a) = 4" "length (octets16 b) = 16"
  by (simp_all add: octets4_def octets16_def)

lemma octets_roundtrip [simp]: "ipv4_from (octets4 a) = a" "ipv6_from (octets16 b) = b"
  using of_nat_unat_mod [of b]
  by (simp_all add: ipv4_from_def octets4_def ipv6_from_def octets16_def from_be_to_be)

text \<open>
  C34: the PROXY header tells the truth. When the visitor's and the local address are of one family,
  reading the version 2 header back gives the visitor's address, the local address and the rest of
  the stream; when they are not, no header is written.
\<close>

theorem proxy_v2_roundtrip:
  "proxy_v2_parse (proxy_v2_header src dst @ rest) =
     (if same_family src dst then Some (plain_addr src, plain_addr dst, rest) else proxy_v2_parse rest)"
proof (cases src; cases dst)
  fix sip sp dip dp
  assume "src = V4 sip sp" "dst = V4 dip dp"
  moreover have "unat (u16_from_be_bytes (u16_to_be_bytes 12)) = 12" by simp
  ultimately show ?thesis
    by (simp add: proxy_v2_parse_def proxy_v2_signature_def same_family_def Let_def nth_append)
next
  fix sip sp sf sc dip dp df dc
  assume "src = V6 sip sp sf sc" "dst = V6 dip dp df dc"
  moreover have "unat (u16_from_be_bytes (u16_to_be_bytes 36)) = 36" by simp
  ultimately show ?thesis
    by (simp add: proxy_v2_parse_def proxy_v2_signature_def same_family_def Let_def nth_append)
qed (simp_all add: same_family_def)

text \<open>
  What a data channel does on its first command. Once connected and greeted with the session key,
  a TCP channel told to forward for a visitor connects to the local service, writes the configured
  PROXY header for that visitor first, and forwards the rest of the stream; a command of the other kind
  is refused; and a server that closes the unused channel is not an error.
\<close>

lemma data_channel_start:
  assumes "bincode_ok bc" and "retry_connect attempts = Inr c0"
    and "length (wire bc (MHello (DataChannelHello CURRENT_PROTO_VERSION (rd_session_key args)))) \<le> room c0"
    and "fits bc (MDataCommand cmd)"
    and "inp c0 = wire bc (MDataCommand cmd) @ rest \<or> inp c0 = []"
  shows "if inp c0 = [] then run_data_channel bc args attempts dial = ChannelClosed
    else (case cmd of
      StartForwardTcp a \<Rightarrow>
        if cs_type (rd_service args) \<noteq> ServiceTcp then run_data_channel bc args attempts dial = ChannelFailed WrongServiceKind
        else (case run_data_channel_for_tcp dial a (cs_proxy_protocol (rd_service args)) of
          Inl e \<Rightarrow> run_data_channel bc args attempts dial = ChannelFailed e
        | Inr l \<Rightarrow> (\<exists>c. run_data_channel bc args attempts dial = ForwardingTcp c l \<and> inp c = rest \<and>
            out c = out c0 @ wire bc (MHello (DataChannelHello CURRENT_PROTO_VERSION (rd_session_key args)))))
    | StartForwardUdp a \<Rightarrow>
        if cs_type (rd_service args) \<noteq> ServiceUdp then run_data_channel bc args attempts dial = ChannelFailed WrongServiceKind
        else (\<exists>c. run_data_channel bc args attempts dial = ForwardingUdp c \<and> inp c = rest \<and> nack_mode c))"
proof -
  let ?hello = "wire bc (MHello (DataChannelHello CURRENT_PROTO_VERSION (rd_session_key args)))"
  let ?h = "hint (rd_socket_opts args) c0"
  let ?c1 = "?h\<lparr>out := out c0 @ ?hello, room := room c0 - length ?hello\<rparr>"
  let ?c2 = "if cs_type (rd_service args) = ServiceUdp then set_nack_mode ?c1 else ?c1"
  have hs: "client_data_channel_handshake bc args attempts = (Inr (), Some ?c1)"
    using assms(2,3) by (simp add: client_data_channel_handshake_def write_wire hint_def)
  have inp2: "inp ?c2 = inp c0" "out ?c2 = out c0 @ ?hello" "cs_type (rd_service args) = ServiceUdp \<longrightarrow> nack_mode ?c2"
    by (simp_all add: hint_def set_nack_mode_def)
  show ?thesis
  proof (cases "inp c0 = []")
    case True
    then have "read_framed_packet ?c2 = (Inl UnexpectedEof, ?c2\<lparr>inp := []\<rparr>)"
      using inp2(1) by (simp add: read_framed_packet_unframe unframe_def del: if_split)
    then have "fst (read_data_cmd bc ?c2) = Inl UnexpectedEof"
      by (simp add: read_data_cmd_def read_packet_message_def io_bind_def del: if_split)
    with hs True show ?thesis
      by (auto simp: run_data_channel_def Let_def simp del: if_split split: prod.splits)
  next
    case False
    then have "read_packet_message bc ?c2 = (Inr (MDataCommand cmd), ?c2\<lparr>inp := rest\<rparr>)"
      using read_wire [OF assms(1,4), of ?c2 rest] assms(5) inp2(1) by simp
    then have "read_data_cmd bc ?c2 = (Inr cmd, ?c2\<lparr>inp := rest\<rparr>)"
      by (simp add: read_data_cmd_def io_bind_def io_return_def del: if_split)
    with hs inp2(2,3) False show ?thesis
      by (auto simp: run_data_channel_def Let_def simp del: if_split split: data_channel_cmd.splits sum.splits)
  qed
qed

section \<open>Concrete runs\<close>

definition demo_datagram :: udp_traffic where
  "demo_datagram = \<lparr>ut_from = V4 1 2, ut_data = [5, 6]\<rparr>"

definition demo_uf :: udp_forward where
  "demo_uf = udp_forward_new (demo_conn (udp_wire demo_bincode demo_datagram)) (demo_conn [])"

definition demo_uf1 :: udp_forward where
  "demo_uf1 = \<lparr>uf_rd = demo_conn [], uf_map = [(V4 1 2, 0)],
     uf_forwarders = [0 \<mapsto> \<lparr>fw_from = V4 1 2, fw_inbound = [[5, 6]], fw_sent = [], fw_runs = True\<rparr>],
     uf_next = 1, uf_outbound = [], uf_writer = True, uf_wr = demo_conn []\<rparr>"

lemma demo_forward_run: "forward_run demo_bincode demo_uf [demo_datagram] demo_uf1"
proof -
  have "inp (demo_conn (udp_wire demo_bincode demo_datagram)) = udp_wire demo_bincode demo_datagram @ []"
    by (simp add: demo_conn_def)
  from read_udp_wire [OF demo_bincode_ok _ this]
  have "io_bind read_u8 (udp_traffic_read demo_bincode) (demo_conn (udp_wire demo_bincode demo_datagram)) =
      (Inr demo_datagram, demo_conn [])"
    by (simp add: demo_conn_def demo_datagram_def)
  then have "udp_read_turn demo_bincode True demo_uf = Some (Inr (demo_datagram, demo_uf1))"
    by (simp add: udp_read_turn_def demo_uf_def demo_uf1_def udp_forward_new_def ensure_forwarder_def
        deliver_packet_def demo_datagram_def UDP_SENDQ_SIZE_def)
  from forward_read [OF forward_start this] show ?thesis by simp
qed

theorem udp_forward_isolation_witness:
  "\<exists>f. uf_forwarders demo_uf1 0 = Some f \<and> fw_inbound f = [[5, 6]] \<and>
     subseq (fw_sent f @ fw_inbound f) (payloads (V4 1 2) [demo_datagram]) \<and> map_of (uf_map demo_uf1) (V4 1 2) = Some 0"
proof -
  let ?f = "\<lparr>fw_from = V4 1 2, fw_inbound = [[5, 6]], fw_sent = [], fw_runs = True\<rparr>"
  have f: "uf_forwarders demo_uf1 0 = Some ?f" by (simp add: demo_uf1_def)
  with udp_forward_isolation [OF demo_forward_run [unfolded demo_uf_def]] show ?thesis
    by (intro exI [of _ ?f]) fastforce
qed

theorem failed_forwarder_blocks_visitor_witness:
  "\<exists>u1. forwarder_turn (FwInbound False) 0 demo_uf1 = Some u1 \<and> sent_for (V4 1 2) u1 = sent_for (V4 1 2) demo_uf1 \<and>
     map_of (uf_map u1) (V4 1 2) \<noteq> None"
proof -
  let ?f = "\<lparr>fw_from = V4 1 2, fw_inbound = [[5, 6]], fw_sent = [], fw_runs = True\<rparr>"
  have f: "uf_forwarders demo_uf1 0 = Some ?f" by (simp add: demo_uf1_def)
  obtain u1 where t: "forwarder_turn (FwInbound False) 0 demo_uf1 = Some u1" using f by (simp add: forwarder_turn_def)
  have "forward_inv [demo_datagram] demo_uf1" using demo_forward_run forward_run_inv unfolding demo_uf_def by blast
  from failed_forwarder_blocks_visitor [OF this f _ _ t forward_start] t show ?thesis by auto
qed

definition demo_args :: run_data_channel_args where
  "demo_args = \<lparr>rd_session_key = [1, 2], rd_remote_addr = addr_maybe_cached_new ''s:1'',
     rd_socket_opts = socket_opts_none,
     rd_service = (client_service_with_name ''web'')\<lparr>cs_proxy_protocol := Some ProxyV2\<rparr>\<rparr>"

theorem data_channel_start_witness:
  "\<exists>c l. run_data_channel demo_bincode demo_args
       [Inl ConnectFailed, Inr (demo_conn (wire demo_bincode (MDataCommand (StartForwardTcp (forward_addr_from (V4 1 2)))) @ [9]))]
       (Inr (demo_conn [], Some (V4 3 4))) = ForwardingTcp c l \<and> inp c = [9] \<and> out l = proxy_v2_header (V4 1 2) (V4 3 4)"
proof -
  let ?cmd = "StartForwardTcp (forward_addr_from (V4 1 2))"
  let ?c0 = "demo_conn (wire demo_bincode (MDataCommand ?cmd) @ [9])"
  have hello: "length (wire demo_bincode (MHello (DataChannelHello CURRENT_PROTO_VERSION (rd_session_key demo_args)))) \<le> room ?c0"
    by (simp add: wire_def frame_def demo_bincode_def demo_args_def demo_conn_def)
  have fit: "fits demo_bincode (MDataCommand ?cmd)"
    by (simp add: fits_def demo_bincode_def demo_forward_def length_demo_bytes)
  have local_conn: "run_data_channel_for_tcp (Inr (demo_conn [], Some (V4 3 4))) (forward_addr_from (V4 1 2))
      (cs_proxy_protocol (rd_service demo_args)) =
      Inr ((demo_conn [])\<lparr>out := proxy_v2_header (V4 1 2) (V4 3 4), room := 1000000 - 28\<rparr>)"
    by (simp add: run_data_channel_for_tcp_def demo_args_def sock_addr_from_def proxy_v2_signature_def write_all_def
        demo_conn_def Let_def)
  have kind: "cs_type (rd_service demo_args) = ServiceTcp" by (simp add: demo_args_def client_service_with_name_def)
  have inp0: "inp ?c0 = wire demo_bincode (MDataCommand ?cmd) @ [9]" by (simp add: demo_conn_def)
  have out1: "out ((demo_conn [])\<lparr>out := h, room := r\<rparr>) = h" for h r by simp
  from data_channel_start [OF demo_bincode_ok _ hello fit, of "[Inl ConnectFailed, Inr ?c0]" "[9]"
      "Inr (demo_conn [], Some (V4 3 4))"] inp0
  have "\<exists>c. run_data_channel demo_bincode demo_args [Inl ConnectFailed, Inr ?c0] (Inr (demo_conn [], Some (V4 3 4))) =
      ForwardingTcp c ((demo_conn [])\<lparr>out := proxy_v2_header (V4 1 2) (V4 3 4), room := 1000000 - 28\<rparr>) \<and> inp c = [9]"
    unfolding data_channel_cmd.case kind local_conn by auto
  then show ?thesis using out1 by blast
qed

end
