(* ===== verification/Client.thy ===== *)
theory Client
  imports Client_Data Config_Watcher
begin

text \<open>
  The client, src/src/client.rs: the control channel of a service and its visitor variant, the task
  that keeps a control channel running, and the client with its table of handles and its hot reload.
  Hash, serialisation, name resolution and dialling are parameters.
\<close>

section \<open>Handshakes\<close>

definition client_service_digest :: "(bytes \<Rightarrow> digest) \<Rightarrow> client_service_config \<Rightarrow> digest" where
  "client_service_digest sha service =
     sha (as_bytes ((case cs_user service of Some u \<Rightarrow> u | None \<Rightarrow> ''default'') @ '':'' @ cs_name service))"

text \<open>The part of \<open>ControlChannel::run\<close> up to the acknowledgement; the result is the session key.\<close>

definition client_control_handshake ::
  "(bytes \<Rightarrow> digest) \<Rightarrow> bincode \<Rightarrow> client_service_config \<Rightarrow> digest io" where
  "client_control_handshake sha bc service conn =
     io_bind (write_packet_message bc (MHello (ControlChannelHello CURRENT_PROTO_VERSION (client_service_digest sha service)))) (\<lambda>_.
     io_bind (read_hello bc) (\<lambda>h. case h of
       ControlChannelHello _ nonce \<Rightarrow>
         (let session_key = sha (token_bytes (cs_token service) @ nonce)
          in io_bind (write_packet_message bc (MAuth session_key)) (\<lambda>_.
             io_bind (read_ack bc) (\<lambda>a. case a of
               AckOk \<Rightarrow> io_return session_key
             | _ \<Rightarrow> io_fail AckRejected)))
     | _ \<Rightarrow> io_fail WrongHello))
     (hint for_control_channel conn)"

text \<open>The same part of \<open>VisitorControlChannel::run\<close>; \<open>pad\<close> is the random filling of the hello.\<close>

definition client_visitor_handshake ::
  "(bytes \<Rightarrow> digest) \<Rightarrow> bincode \<Rightarrow> digest \<Rightarrow> client_service_config \<Rightarrow> string \<Rightarrow> digest io" where
  "client_visitor_handshake sha bc pad service bind_addr conn =
     io_bind (write_packet_message bc (MHello (VisitorHello CURRENT_PROTO_VERSION pad))) (\<lambda>_.
     io_bind (read_exact HASH_WIDTH_IN_BYTES) (\<lambda>challenge_nonce.
     io_bind (write_visitor_auth bc
        \<lparr>va_token_digest = sha (token_bytes (cs_token service) @ challenge_nonce),
         va_bind_addr = bind_addr, va_service_type = cs_type service\<rparr>) (\<lambda>_.
     io_bind (read_visitor_ack bc) (\<lambda>a. case a of
       VisitorOk \<Rightarrow> read_auth bc
     | VisitorAuthFailed \<Rightarrow> io_fail AuthFailure
     | VisitorPortDenied \<Rightarrow> io_fail PortNotAllowed
     | VisitorBindError \<Rightarrow> io_fail BadBindAddr))))
     (hint for_control_channel conn)"

section \<open>A control channel\<close>

text \<open>
  The loop after the handshake: the commands of the server, the heartbeat timer that restarts with
  every command, and the shutdown signal. Leaving the loop cancels the data channels it has started.
\<close>

record client_channel =
  ch_conn :: conn
  ch_args :: run_data_channel_args
  ch_spawned :: nat
  ch_cancelled :: bool

datatype loop_branch = CmdArrives | HeartbeatExpires | ShutdownRx

datatype loop_result = Continue client_channel | Break "net_error + unit" client_channel

definition client_loop_turn :: "bincode \<Rightarrow> u64 \<Rightarrow> loop_branch \<Rightarrow> client_channel \<Rightarrow> loop_result option" where
  "client_loop_turn bc heartbeat_timeout branch ch =
     (case branch of
        CmdArrives \<Rightarrow>
          (case read_control_cmd bc (ch_conn ch) of
             (Inl e, c) \<Rightarrow> Some (Break (Inl e) (ch\<lparr>ch_conn := c, ch_cancelled := True\<rparr>))
           | (Inr CreateDataChannel, c) \<Rightarrow> Some (Continue (ch\<lparr>ch_conn := c, ch_spawned := Suc (ch_spawned ch)\<rparr>))
           | (Inr HeartBeat, c) \<Rightarrow> Some (Continue (ch\<lparr>ch_conn := c\<rparr>)))
      | HeartbeatExpires \<Rightarrow>
          if heartbeat_timeout \<noteq> 0 then Some (Break (Inl HeartbeatTimeout) (ch\<lparr>ch_cancelled := True\<rparr>)) else None
      | ShutdownRx \<Rightarrow> Some (Break (Inr ()) (ch\<lparr>ch_cancelled := True\<rparr>)))"

text \<open>The loop along a sequence of branches, until it breaks or the sequence ends.\<close>

fun client_loop :: "bincode \<Rightarrow> u64 \<Rightarrow> loop_branch list \<Rightarrow> client_channel \<Rightarrow> loop_result" where
  "client_loop bc timeout [] ch = Continue ch"
| "client_loop bc timeout (b # bs) ch =
     (case client_loop_turn bc timeout b ch of
        None \<Rightarrow> client_loop bc timeout bs ch
      | Some (Continue ch') \<Rightarrow> client_loop bc timeout bs ch'
      | Some (Break r ch') \<Rightarrow> Break r ch')"

text \<open>What \<open>run\<close> does in both kinds of channel: resolve, connect, shake hands, loop.\<close>

definition channel_run ::
  "(conn \<Rightarrow> (net_error + digest) \<times> conn) \<Rightarrow> bincode \<Rightarrow> resolver \<Rightarrow> (addr_maybe_cached \<Rightarrow> net_error + conn) \<Rightarrow>
   client_service_config \<Rightarrow> string \<Rightarrow> u64 \<Rightarrow> loop_branch list \<Rightarrow> net_error + loop_result" where
  "channel_run handshake bc lookup dial service remote heartbeat_timeout branches =
     (case resolve lookup (addr_maybe_cached_new remote) of
        (Inl e, _) \<Rightarrow> Inl e
      | (Inr _, remote_addr) \<Rightarrow>
          res_bind (dial remote_addr) (\<lambda>conn.
            case handshake conn of
              (Inl e, _) \<Rightarrow> Inl e
            | (Inr session_key, c) \<Rightarrow>
                Inr (client_loop bc heartbeat_timeout branches
                  \<lparr>ch_conn = c,
                   ch_args = \<lparr>rd_session_key = session_key, rd_remote_addr = remote_addr,
                              rd_socket_opts = from_client_cfg service, rd_service = service\<rparr>,
                   ch_spawned = 0, ch_cancelled = False\<rparr>)))"

definition control_channel_run ::
  "(bytes \<Rightarrow> digest) \<Rightarrow> bincode \<Rightarrow> resolver \<Rightarrow> (addr_maybe_cached \<Rightarrow> net_error + conn) \<Rightarrow>
   client_service_config \<Rightarrow> string \<Rightarrow> u64 \<Rightarrow> loop_branch list \<Rightarrow> net_error + loop_result" where
  "control_channel_run sha bc lookup dial service =
     channel_run (client_control_handshake sha bc service) bc lookup dial service"

text \<open>A visitor channel without an address to bind is a panic, \<open>None\<close>.\<close>

definition visitor_channel_run ::
  "(bytes \<Rightarrow> digest) \<Rightarrow> bincode \<Rightarrow> digest \<Rightarrow> resolver \<Rightarrow> (addr_maybe_cached \<Rightarrow> net_error + conn) \<Rightarrow>
   client_service_config \<Rightarrow> string \<Rightarrow> u64 \<Rightarrow> loop_branch list \<Rightarrow> (net_error + loop_result) option" where
  "visitor_channel_run sha bc pad lookup dial service remote heartbeat_timeout branches =
     map_option (\<lambda>bind_addr. channel_run (client_visitor_handshake sha bc pad service bind_addr) bc lookup dial service
         remote heartbeat_timeout branches)
       (cs_remote_bind_addr service)"

text \<open>Which of the two runs is decided by \<open>ControlChannelHandle::new\<close>; the visitor's panic is never reached.\<close>

definition client_channel_run ::
  "(bytes \<Rightarrow> digest) \<Rightarrow> bincode \<Rightarrow> digest \<Rightarrow> resolver \<Rightarrow> (addr_maybe_cached \<Rightarrow> net_error + conn) \<Rightarrow>
   client_service_config \<Rightarrow> string \<Rightarrow> u64 \<Rightarrow> loop_branch list \<Rightarrow> (net_error + loop_result) option" where
  "client_channel_run sha bc pad lookup dial service remote heartbeat_timeout branches =
     (if is_visitor_mode service
      then visitor_channel_run sha bc pad lookup dial service remote heartbeat_timeout branches
      else Some (control_channel_run sha bc lookup dial service remote heartbeat_timeout branches))"

section \<open>Keeping a control channel running\<close>

text \<open>The retry policy of control channels; how the crate keeps its state, \<open>next_backoff\<close> and \<open>reset\<close>, is a parameter.\<close>

definition run_control_chan_backoff :: "u64 \<Rightarrow> backoff_config" where
  "run_control_chan_backoff interval =
     \<lparr>bo_randomization_factor = Some 2, bo_multiplier = Some 30, bo_max_interval = unat interval, bo_max_elapsed_time = None\<rparr>"

text \<open>
  The task's \<open>while\<close> loop along a sequence of runs: what \<open>run\<close> returned, whether the shutdown signal was there by
  then, and how many seconds the run took. A run of more than three seconds starts the policy afresh.
\<close>

record attempt =
  at_result :: "net_error + unit"
  at_signalled :: bool
  at_elapsed :: nat

datatype task_state = TaskRunning | TaskEnded | TaskPanicked

fun control_task :: "('b \<Rightarrow> nat option \<times> 'b) \<Rightarrow> ('b \<Rightarrow> 'b) \<Rightarrow> 'b \<Rightarrow> attempt list \<Rightarrow> task_state \<times> nat list" where
  "control_task next_backoff reset b [] = (TaskRunning, [])"
| "control_task next_backoff reset b (a # rest) =
     (case at_result a of
        Inr _ \<Rightarrow> (TaskEnded, [])
      | Inl e \<Rightarrow>
          if at_signalled a then (TaskEnded, [])
          else (case next_backoff (if 3 < at_elapsed a then reset b else b) of
                  (None, _) \<Rightarrow> (TaskPanicked, [])
                | (Some d, b') \<Rightarrow> (let (t, ds) = control_task next_backoff reset b' rest in (t, d # ds))))"

section \<open>The client\<close>

text \<open>
  The sending end of a task's shutdown channel: held by a handle, dropped with it, or used. Either of
  the latter two ends the task.
\<close>

datatype signal_tx = TxHeld | TxDropped | TxSent

record client_task =
  tk_service :: client_service_config
  tk_backoff :: backoff_config
  tk_tx :: signal_tx

record client =
  clt_config :: client_config
  clt_handles :: "(string, nat) hash_map"
  clt_tasks :: "nat \<rightharpoonup> client_task"
  clt_next :: nat

definition client_from_config :: "client_config \<Rightarrow> client" where
  "client_from_config cfg = \<lparr>clt_config = cfg, clt_handles = [], clt_tasks = Map.empty, clt_next = 0\<rparr>"

text \<open>\<open>ControlChannelHandle::new\<close> spawns the task; a service without a retry interval is a panic, \<open>None\<close>.\<close>

definition client_handle_new :: "client_service_config \<Rightarrow> client \<Rightarrow> (nat \<times> client) option" where
  "client_handle_new service c =
     (case cs_retry_interval service of
        None \<Rightarrow> None
      | Some interval \<Rightarrow>
          Some (clt_next c, c\<lparr>clt_tasks := (clt_tasks c)(clt_next c \<mapsto>
                                \<lparr>tk_service = service, tk_backoff = run_control_chan_backoff interval, tk_tx = TxHeld\<rparr>),
                              clt_next := Suc (clt_next c)\<rparr>))"

definition set_tx :: "signal_tx \<Rightarrow> nat \<Rightarrow> client \<Rightarrow> client" where
  "set_tx tx i c = c\<lparr>clt_tasks := (clt_tasks c)(i := map_option (tk_tx_update (\<lambda>_. tx)) (clt_tasks c i))\<rparr>"

text \<open>Inserting under a name drops the handle that was there.\<close>

definition insert_handle :: "string \<Rightarrow> nat \<Rightarrow> client \<Rightarrow> client" where
  "insert_handle name i c =
     (let c1 = (case map_of (clt_handles c) name of None \<Rightarrow> c | Some j \<Rightarrow> set_tx TxDropped j c)
      in c1\<lparr>clt_handles := hm_insert name i (clt_handles c)\<rparr>)"

definition add_service :: "string \<Rightarrow> client_service_config \<Rightarrow> client \<Rightarrow> client option" where
  "add_service name service c =
     map_option (\<lambda>(i, c1). insert_handle name i c1) (client_handle_new service c)"

text \<open>The first part of \<open>Client::run\<close>.\<close>

fun client_start :: "(string \<times> client_service_config) list \<Rightarrow> client \<Rightarrow> client option" where
  "client_start [] c = Some c"
| "client_start ((name, service) # rest) c = Option.bind (add_service name service c) (client_start rest)"

definition client_hot_reload :: "config_change \<Rightarrow> client \<Rightarrow> client option" where
  "client_hot_reload e c =
     (case e of
        ClientChange (ClientAdd cfg) \<Rightarrow> add_service (cs_name cfg) cfg c
      | ClientChange (ClientDelete s) \<Rightarrow>
          Some (case map_of (clt_handles c) s of
                  None \<Rightarrow> c
                | Some i \<Rightarrow> (set_tx TxDropped i c)\<lparr>clt_handles := hm_remove s (clt_handles c)\<rparr>)
      | _ \<Rightarrow> Some c)"

fun client_hot_reloads :: "config_change list \<Rightarrow> client \<Rightarrow> client option" where
  "client_hot_reloads [] c = Some c"
| "client_hot_reloads (e # es) c = Option.bind (client_hot_reload e c) (client_hot_reloads es)"

text \<open>The end of \<open>Client::run\<close>: every handle is drained and used.\<close>

definition client_shutdown :: "client \<Rightarrow> client" where
  "client_shutdown c = (fold (\<lambda>(_, i). set_tx TxSent i) (clt_handles c) c)\<lparr>clt_handles := []\<rparr>"

section \<open>Handles and tasks\<close>

definition client_inv :: "client \<Rightarrow> bool" where
  "client_inv c \<longleftrightarrow>
     hm_inv (clt_handles c) \<and> (\<forall>i \<in> dom (clt_tasks c). i < clt_next c) \<and>
     inj_on (map_of (clt_handles c)) (dom (map_of (clt_handles c))) \<and>
     (\<forall>i. (\<exists>t. clt_tasks c i = Some t \<and> tk_tx t = TxHeld) \<longleftrightarrow> i \<in> ran (map_of (clt_handles c)))"

definition serving :: "client \<Rightarrow> string \<rightharpoonup> client_service_config" where
  "serving c n = (case map_of (clt_handles c) n of None \<Rightarrow> None | Some i \<Rightarrow> map_option tk_service (clt_tasks c i))"

definition running_services :: "client \<Rightarrow> client_service_config set" where
  "running_services c = {tk_service t |i t. clt_tasks c i = Some t \<and> tk_tx t = TxHeld}"

lemma running_is_serving: "client_inv c \<Longrightarrow> running_services c = ran (serving c)"
proof -
  assume inv: "client_inv c"
  have held: "(\<exists>t. clt_tasks c i = Some t \<and> tk_tx t = TxHeld) \<longleftrightarrow> (\<exists>n. map_of (clt_handles c) n = Some i)" for i
    using inv by (simp add: client_inv_def ran_def)
  show ?thesis
  proof (intro set_eqI iffI)
    fix s assume "s \<in> running_services c"
    then obtain i t where t: "clt_tasks c i = Some t" "tk_tx t = TxHeld" "s = tk_service t"
      by (auto simp: running_services_def)
    then obtain n where "map_of (clt_handles c) n = Some i" using held by blast
    with t have "serving c n = Some s" by (simp add: serving_def)
    then show "s \<in> ran (serving c)" by (auto simp: ran_def)
  next
    fix s assume "s \<in> ran (serving c)"
    then obtain n i t where n: "map_of (clt_handles c) n = Some i" "clt_tasks c i = Some t" "s = tk_service t"
      by (auto simp: ran_def serving_def split: option.splits)
    with held [of i] have "tk_tx t = TxHeld" by auto
    with n show "s \<in> running_services c" by (auto simp: running_services_def)
  qed
qed

lemma add_service_ok:
  assumes inv: "client_inv c" and r: "cs_retry_interval s \<noteq> None"
  shows "\<exists>c'. add_service n s c = Some c' \<and> client_inv c' \<and> serving c' = (serving c)(n \<mapsto> s)"
proof -
  let ?new = "\<lparr>tk_service = s, tk_backoff = run_control_chan_backoff (the (cs_retry_interval s)), tk_tx = TxHeld\<rparr>"
  let ?i = "clt_next c"
  let ?tasks = "(case map_of (clt_handles c) n of
      None \<Rightarrow> (clt_tasks c)(?i \<mapsto> ?new)
    | Some j \<Rightarrow> ((clt_tasks c)(?i \<mapsto> ?new))(j := map_option (tk_tx_update (\<lambda>_. TxDropped)) (((clt_tasks c)(?i \<mapsto> ?new)) j)))"
  let ?c = "c\<lparr>clt_tasks := ?tasks, clt_next := Suc ?i, clt_handles := hm_insert n ?i (clt_handles c)\<rparr>"
  let ?m = "map_of (clt_handles c)"
  have run: "add_service n s c = Some ?c"
    using r by (auto simp: add_service_def client_handle_new_def insert_handle_def set_tx_def Let_def split: option.splits)
  have held: "(\<exists>t. clt_tasks c i = Some t \<and> tk_tx t = TxHeld) \<longleftrightarrow> i \<in> ran ?m"
    and dom: "i \<in> dom (clt_tasks c) \<Longrightarrow> i < ?i" and inj: "inj_on ?m (dom ?m)" and hm: "hm_inv (clt_handles c)" for i
    using inv by (auto simp: client_inv_def)
  have fresh: "?i \<notin> ran ?m" "j \<in> ran ?m \<Longrightarrow> j < ?i" for j using held dom by fastforce+
  have uniq: "?m k = Some j \<Longrightarrow> ?m n = Some j \<Longrightarrow> k = n" for k j using inj by (auto simp: inj_on_def dom_def)
  have ran: "i \<in> ran (?m(n \<mapsto> ?i)) \<longleftrightarrow> i = ?i \<or> i \<in> ran ?m \<and> ?m n \<noteq> Some i" for i
    using uniq by (auto simp: ran_def) (metis fun_upd_apply option.inject)
  have held': "(\<exists>t. ?tasks i = Some t \<and> tk_tx t = TxHeld) \<longleftrightarrow> i = ?i \<or> i \<in> ran ?m \<and> ?m n \<noteq> Some i" for i
  proof (cases "?m n")
    case None
    then show ?thesis using held [of i] by auto
  next
    case (Some j)
    then have "j \<noteq> ?i" using fresh by (auto simp: ran_def)
    then show ?thesis using Some held [of i] by (auto split: if_splits)
  qed
  have "inj_on (?m(n \<mapsto> ?i)) (dom (?m(n \<mapsto> ?i)))"
    using inj fresh(1) by (auto simp: inj_on_def ran_def)
  moreover have "i < Suc ?i" if "?tasks i = Some t" for i t
    using that dom [of i] fresh by (auto simp: less_Suc_eq ran_def split: option.splits if_splits)
  ultimately have "client_inv ?c"
    using hm held' ran by (auto simp: client_inv_def update_conv' hmm.invar_ins)
  moreover have "serving ?c k = ((serving c)(n \<mapsto> s)) k" for k
  proof (cases "k = n")
    case True
    have "?m n = Some j \<Longrightarrow> j \<noteq> ?i" for j using fresh by (auto simp: ran_def)
    with True show ?thesis by (auto simp: serving_def update_conv' split: option.splits)
  next
    case False
    have "?m k = Some j \<Longrightarrow> j \<noteq> ?i \<and> ?m n \<noteq> Some j" for j using fresh uniq False by (auto simp: ran_def)
    with False show ?thesis by (auto simp: serving_def update_conv' split: option.splits)
  qed
  ultimately show ?thesis using run by blast
qed

lemma delete_service_ok:
  assumes inv: "client_inv c"
  shows "\<exists>c'. client_hot_reload (ClientChange (ClientDelete n)) c = Some c' \<and> client_inv c' \<and> serving c' = (serving c)(n := None)"
proof (cases "map_of (clt_handles c) n")
  case None
  then show ?thesis using inv by (auto simp: client_hot_reload_def serving_def fun_eq_iff)
next
  case (Some i)
  let ?m = "map_of (clt_handles c)"
  let ?c = "(set_tx TxDropped i c)\<lparr>clt_handles := hm_remove n (clt_handles c)\<rparr>"
  have held: "(\<exists>t. clt_tasks c j = Some t \<and> tk_tx t = TxHeld) \<longleftrightarrow> j \<in> ran ?m"
    and dom: "j \<in> dom (clt_tasks c) \<Longrightarrow> j < clt_next c" and inj: "inj_on ?m (dom ?m)" and hm: "hm_inv (clt_handles c)" for j
    using inv by (auto simp: client_inv_def)
  have uniq: "?m k = Some i \<longleftrightarrow> k = n" for k using inj Some by (auto simp: inj_on_def dom_def)
  have ran: "j \<in> ran (?m(n := None)) \<longleftrightarrow> j \<in> ran ?m \<and> j \<noteq> i" for j
    using uniq Some by (auto simp: ran_def split: if_splits) (metis option.inject)
  have "(\<exists>t. clt_tasks ?c j = Some t \<and> tk_tx t = TxHeld) \<longleftrightarrow> j \<in> ran ?m \<and> j \<noteq> i" for j
    using held [of j] by (auto simp: set_tx_def)
  moreover have "inj_on (?m(n := None)) (dom (?m(n := None)))" using inj by (auto simp: inj_on_def)
  ultimately have "client_inv ?c"
    using hm dom ran by (auto simp: client_inv_def set_tx_def delete_conv' hmm.invar_rem split: if_splits)
  moreover have "serving ?c = (serving c)(n := None)"
    using uniq by (auto simp: serving_def set_tx_def delete_conv' fun_eq_iff split: option.splits)
  ultimately show ?thesis using Some by (auto simp: client_hot_reload_def)
qed

lemma client_start_ok:
  assumes "client_inv c" and "\<forall>(n, s) \<in> set xs. cs_retry_interval s \<noteq> None"
  shows "\<exists>c'. client_start xs c = Some c' \<and> client_inv c' \<and> serving c' = serving c ++ map_of (rev xs)"
  using assms
proof (induction xs arbitrary: c)
  case (Cons x xs)
  obtain n s where x: "x = (n, s)" by (cases x)
  obtain c1 where c1: "add_service n s c = Some c1" "client_inv c1" "serving c1 = (serving c)(n \<mapsto> s)"
    using add_service_ok [OF Cons.prems(1), of s n] Cons.prems(2) x by auto
  moreover obtain c2 where "client_start xs c1 = Some c2" "client_inv c2" "serving c2 = serving c1 ++ map_of (rev xs)"
    using Cons.IH [OF c1(2)] Cons.prems(2) by auto
  ultimately show ?case by (simp add: x map_add_assoc flip: map_add_upd_left)
qed simp

lemma client_from_config_inv: "client_inv (client_from_config cfg)" "serving (client_from_config cfg) = Map.empty"
  by (auto simp: client_inv_def client_from_config_def serving_def hm_inv_def)

lemma client_hot_reloads_ok:
  assumes "client_inv c" and "serving c = map_of (cc_services r)"
    and "\<forall>ev \<in> set evs. (\<exists>n. ev = ClientChange (ClientDelete n)) \<or>
      (\<exists>s. ev = ClientChange (ClientAdd s) \<and> cs_retry_interval s \<noteq> None)"
  shows "\<exists>c'. client_hot_reloads evs c = Some c' \<and> client_inv c' \<and>
    serving c' = map_of (cc_services (fold apply_client_change evs r))"
  using assms
proof (induction evs arbitrary: c r)
  case (Cons ev evs)
  consider n where "ev = ClientChange (ClientDelete n)"
    | s where "ev = ClientChange (ClientAdd s)" "cs_retry_interval s \<noteq> None" using Cons.prems(3) by auto
  then have "\<exists>c1. client_hot_reload ev c = Some c1 \<and> client_inv c1 \<and> serving c1 = map_of (cc_services (apply_client_change ev r))"
  proof cases
    case 1
    with delete_service_ok [OF Cons.prems(1), of n] Cons.prems(2) show ?thesis by (auto simp: delete_conv')
  next
    case 2
    with add_service_ok [OF Cons.prems(1) 2(2), of "cs_name s"] Cons.prems(2) show ?thesis
      by (auto simp: client_hot_reload_def update_conv')
  qed
  then show ?case using Cons.IH Cons.prems(3) by fastforce
qed simp

lemma set_tx_fields [simp]:
  "clt_handles (set_tx tx i c) = clt_handles c" "clt_config (set_tx tx i c) = clt_config c"
  by (simp_all add: set_tx_def)

lemma fold_set_tx:
  "clt_tasks (fold (\<lambda>(_ :: string, i). set_tx tx i) xs c) j =
     (if j \<in> snd ` set xs then map_option (tk_tx_update (\<lambda>_. tx)) (clt_tasks c j) else clt_tasks c j)"
proof (induction xs arbitrary: c)
  case (Cons x xs)
  then show ?case by (cases x) (auto simp: set_tx_def option.map_comp comp_def)
qed simp

section \<open>Properties\<close>

text \<open>
  C23: after a hot reload the client runs the services of the new configuration. Starting from a client
  that runs those of the old one, the events computed from the two configurations are handled without a
  panic, and afterwards the tasks that have not been told to stop are those of the new services.
\<close>

theorem client_reload_tracks_config:
  assumes "client_inv c" and "client_config_events old new = Some evs" and "serving c = map_of (cc_services old)"
    and "hm_inv (cc_services old)" and "hm_inv (cc_services new)"
    and "\<forall>(k, s) \<in> set (cc_services new). cs_name s = k \<and> cs_retry_interval s \<noteq> None"
  shows "\<exists>c'. client_hot_reloads evs c = Some c' \<and> client_inv c' \<and> serving c' = map_of (cc_services new) \<and>
    running_services c' = ran (map_of (cc_services new))"
proof -
  have named: "client_instance.well_named new" using assms(5,6) by (auto simp: client_instance.well_named_def)
  have "\<forall>ev \<in> set evs. (\<exists>n. ev = ClientChange (ClientDelete n)) \<or>
      (\<exists>s. ev = ClientChange (ClientAdd s) \<and> cs_retry_interval s \<noteq> None)"
    using client_instance.events_minimal [OF assms(2) named] assms(6)
    by (fastforce simp: client_service_delete_change_def client_service_add_change_def dest: map_of_SomeD)
  from client_hot_reloads_ok [OF assms(1,3) this] obtain c' where c': "client_hot_reloads evs c = Some c'" "client_inv c'"
    "serving c' = map_of (cc_services (fold apply_client_change evs old))" by blast
  have "client_config_eq old old" using assms(4) by (simp add: client_config_eq_def hm_eq_refl)
  note reach = client_instance.events_reach_new [OF assms(2) this assms(4,4) named]
  then have "map_of (cc_services (fold apply_client_change evs old)) = map_of (cc_services new)"
    using assms(5) by (simp add: client_config_eq_def hm_eq_iff)
  with c' running_is_serving show ?thesis by auto
qed

text \<open>
  A client starts one task per configured service and stops them all. With the retry intervals
  filled in, as validation does, starting does not panic and runs exactly the configured services;
  after the shutdown every task has been told to stop.
\<close>

theorem client_start_and_shutdown:
  assumes "hm_inv (cc_services cfg)" and "\<forall>(n, s) \<in> set (cc_services cfg). cs_retry_interval s \<noteq> None"
  shows "\<exists>c. client_start (cc_services cfg) (client_from_config cfg) = Some c \<and>
    running_services c = ran (map_of (cc_services cfg)) \<and> running_services (client_shutdown c) = {}"
proof -
  obtain c where c: "client_start (cc_services cfg) (client_from_config cfg) = Some c" "client_inv c"
    "serving c = map_of (rev (cc_services cfg))"
    using client_start_ok [OF client_from_config_inv(1) assms(2), of cfg] client_from_config_inv(2) by auto
  have "map_of (rev (cc_services cfg)) = map_of (cc_services cfg)"
    using assms(1) by (simp add: hm_inv_def map_of_inject_set flip: rev_map)
  then have "running_services c = ran (map_of (cc_services cfg))" using running_is_serving [OF c(2)] c(3) by simp
  moreover have "running_services (client_shutdown c) = {}"
  proof -
    have "tk_tx t \<noteq> TxHeld" if "clt_tasks (client_shutdown c) i = Some t" for i t
    proof (cases "i \<in> snd ` set (clt_handles c)")
      case True
      with that show ?thesis by (auto simp: client_shutdown_def fold_set_tx)
    next
      case False
      then have "i \<notin> ran (map_of (clt_handles c))" by (force simp: ran_def dest: map_of_SomeD)
      moreover have "clt_tasks c i = Some t" using that False by (simp add: client_shutdown_def fold_set_tx)
      ultimately show ?thesis using c(2) by (auto simp: client_inv_def)
    qed
    then show ?thesis by (auto simp: running_services_def)
  qed
  ultimately show ?thesis using c(1) by blast
qed

text \<open>
  A control channel is retried until it is told to stop. As long as the retry policy has no deadline,
  the task does not panic; it has ended exactly when some run returned without an error or found the
  shutdown signal after one.
\<close>

theorem control_task_retries:
  assumes "\<And>b. fst (next_backoff b) \<noteq> None"
  shows "fst (control_task next_backoff reset b as) =
    (if \<exists>a \<in> set as. (\<exists>u. at_result a = Inr u) \<or> at_signalled a then TaskEnded else TaskRunning)"
proof (induction as arbitrary: b)
  case (Cons a as)
  obtain d b' where "next_backoff (if 3 < at_elapsed a then reset b else b) = (Some d, b')"
    using assms [of "if 3 < at_elapsed a then reset b else b"] by (cases "next_backoff (if 3 < at_elapsed a then reset b else b)") auto
  with Cons.IH [of b'] show ?case by (cases "at_result a") (simp_all add: case_prod_unfold)
qed simp

text \<open>A run longer than three seconds is followed by the first delay of the policy, whatever came before.\<close>

lemma control_task_resets:
  assumes "at_result a = Inl e" and "\<not> at_signalled a" and "3 < at_elapsed a" and "next_backoff (reset b) = (Some d, b')"
  shows "\<exists>ds. snd (control_task next_backoff reset b (a # rest)) = d # ds"
  using assms by (auto split: prod.splits)

text \<open>
  The client's side of the control handshake. On a greeting with a nonce and an answer, the client
  has sent the digest of its service and the hash of token and nonce; it takes that hash as the session
  key when the answer is \<open>Ok\<close> and gives up otherwise.
\<close>

lemma client_handshake_exact:
  assumes "bincode_ok bc" and "fits bc (MHello (ControlChannelHello CURRENT_PROTO_VERSION nonce))" and "fits bc (MAck a)"
    and "inp c = wire bc (MHello (ControlChannelHello CURRENT_PROTO_VERSION nonce)) @ wire bc (MAck a) @ rest"
    and "length (wire bc (MHello (ControlChannelHello CURRENT_PROTO_VERSION (client_service_digest sha service)))) +
      length (wire bc (MAuth (sha (token_bytes (cs_token service) @ nonce)))) \<le> room c"
  shows "\<exists>c'. client_control_handshake sha bc service c =
      (if a = AckOk then Inr (sha (token_bytes (cs_token service) @ nonce)) else Inl AckRejected, c') \<and>
    inp c' = rest \<and>
    out c' = out c @ wire bc (MHello (ControlChannelHello CURRENT_PROTO_VERSION (client_service_digest sha service))) @
      wire bc (MAuth (sha (token_bytes (cs_token service) @ nonce)))"
proof -
  let ?h = "MHello (ControlChannelHello CURRENT_PROTO_VERSION (client_service_digest sha service))"
  let ?k = "sha (token_bytes (cs_token service) @ nonce)"
  have hello: "read_hello bc c1 = (Inr (ControlChannelHello CURRENT_PROTO_VERSION nonce), c1\<lparr>inp := wire bc (MAck a) @ rest\<rparr>)"
    if "inp c1 = inp c" for c1
    using read_wire [OF assms(1,2), of c1 "wire bc (MAck a) @ rest"] that assms(4)
    by (simp add: read_hello_def io_bind_def io_return_def)
  have ack: "read_ack bc c1 = (Inr a, c1\<lparr>inp := rest\<rparr>)" if "inp c1 = wire bc (MAck a) @ rest" for c1
    using read_wire [OF assms(1,3), of c1 rest] that by (simp add: read_ack_def io_bind_def io_return_def)
  show ?thesis
    using assms(5)
    by (cases a) (simp_all add: client_control_handshake_def io_bind_def write_wire hint_def hello ack Let_def
        io_return_def io_fail_def)
qed

section \<open>A concrete client\<close>

definition demo_client_service :: client_service_config where
  "demo_client_service = (client_service_with_name ''web'')\<lparr>cs_local_addr := ''127.0.0.1:80'', cs_user := Some ''default'',
     cs_token := Some ''t'', cs_retry_interval := Some 1\<rparr>"

definition demo_client_config :: client_config where
  "demo_client_config = \<lparr>cc_remote_addr = ''s:2333'', cc_user = None, cc_token = Some ''t'', cc_prefer_ipv6 = None,
     cc_services = [(''web'', demo_client_service)], cc_transport = transport_config_default,
     cc_heartbeat_timeout = 40, cc_retry_interval = 1\<rparr>"

lemma demo_client_fields:
  "cs_name demo_client_service = ''web''" "cs_retry_interval demo_client_service = Some 1"
  "cs_token demo_client_service = Some ''t''" "cs_user demo_client_service = Some ''default''"
  "cs_remote_bind_addr demo_client_service = None" "cs_type demo_client_service = ServiceTcp"
  "cc_services demo_client_config = [(''web'', demo_client_service)]"
  by (simp_all add: demo_client_service_def client_service_with_name_def demo_client_config_def)

theorem client_start_and_shutdown_witness:
  "\<exists>c. client_start (cc_services demo_client_config) (client_from_config demo_client_config) = Some c \<and>
     running_services c = {demo_client_service} \<and> running_services (client_shutdown c) = {}"
  using client_start_and_shutdown [of demo_client_config] by (simp add: demo_client_fields hm_inv_def)

theorem client_reload_tracks_config_witness:
  "\<exists>c evs c'. client_start (cc_services demo_client_config) (client_from_config demo_client_config) = Some c \<and>
     client_config_events demo_client_config (demo_client_config\<lparr>cc_services := []\<rparr>) = Some evs \<and>
     client_hot_reloads evs c = Some c' \<and> running_services c' = {}"
proof -
  let ?new = "demo_client_config\<lparr>cc_services := []\<rparr>"
  obtain c where c: "client_start (cc_services demo_client_config) (client_from_config demo_client_config) = Some c"
    "client_inv c" "serving c = map_of (cc_services demo_client_config)"
    using client_start_ok [OF client_from_config_inv(1), of "cc_services demo_client_config" demo_client_config]
      client_from_config_inv(2) by (auto simp: demo_client_fields)
  have ev: "client_config_events demo_client_config ?new = Some [ClientChange (ClientDelete ''web'')]"
    by (simp add: calculate_instance_config_events_def demo_client_fields client_equal_without_service_def
        client_config_eq_def client_service_delete_change_def)
  from client_reload_tracks_config [OF c(2) ev c(3)] c(1) ev show ?thesis
    by (auto simp: demo_client_fields hm_inv_def)
qed

theorem control_task_retries_witness:
  "fst (control_task (\<lambda>b. (Some b, Suc b)) (\<lambda>_. 1) 1 [\<lparr>at_result = Inl ConnectFailed, at_signalled = False, at_elapsed = 0\<rparr>,
     \<lparr>at_result = Inr (), at_signalled = False, at_elapsed = 9\<rparr>]) = TaskEnded"
  by (subst control_task_retries) auto

end
