(* ===== verification/Instance.thy ===== *)
theory Instance
  imports Server Client
begin

text \<open>
  Starting and restarting instances: the choice of role and the main loop of src/src/lib.rs, the choice
  of transport in \<open>run_server\<close> and \<open>run_client\<close> (src/src/server.rs, src/src/client.rs), and the
  configuration side of the Noise transport (src/src/transport/noise.rs). Base 64 decoding, the parser of
  Noise patterns and the key generator belong to other crates and are parameters.
\<close>

section \<open>Role\<close>

datatype keypair_type = X25519 | X448

record cli =
  cli_config_path :: "string option"
  cli_server :: bool
  cli_client :: bool
  cli_genkey :: "keypair_type option option"

datatype run_mode = ServerMode | ClientMode | Undetermine

definition determine_run_mode :: "config \<Rightarrow> cli \<Rightarrow> run_mode" where
  "determine_run_mode config args =
     (if cli_client args \<and> cli_server args then Undetermine
      else if cli_client args then ClientMode
      else if cli_server args then ServerMode
      else if cfg_client config \<noteq> None \<and> cfg_server config = None then ClientMode
      else if cfg_server config \<noteq> None \<and> cfg_client config = None then ServerMode
      else Undetermine)"

section \<open>Transports\<close>

datatype instance_error = MissingRole | MissingUdp | MissingNoise | BadRemoteKey | BadPattern | BadPrivateKey

record noise_transport =
  nt_config :: noise_config
  nt_remote_public_key :: "bytes option"
  nt_psk :: "bytes option"

text \<open>The transport below: \<open>TcpTransport::new\<close> always succeeds, \<open>UdpTransport::new\<close> needs its section.\<close>

definition underlying_new :: "transport_config \<Rightarrow> instance_error + unit" where
  "underlying_new c =
     (case tr_type c of
        TransportTcp \<Rightarrow> Inr ()
      | TransportUdp \<Rightarrow> (case tr_udp c of None \<Rightarrow> Inl MissingUdp | Some _ \<Rightarrow> Inr ()))"

definition noise_transport_new ::
  "(bytes \<Rightarrow> bytes option) \<Rightarrow> (string \<Rightarrow> bool) \<Rightarrow> transport_config \<Rightarrow> instance_error + noise_transport" where
  "noise_transport_new b64 pattern_ok c =
     res_bind (underlying_new c) (\<lambda>_.
       case tr_noise c of
         None \<Rightarrow> Inl MissingNoise
       | Some v \<Rightarrow>
           res_bind
             (case nz_remote_public_key v of
                None \<Rightarrow> Inr None
              | Some x \<Rightarrow> (case b64 (as_bytes x) of None \<Rightarrow> Inl BadRemoteKey | Some k \<Rightarrow> Inr (Some k)))
             (\<lambda>k. if \<not> pattern_ok (nz_pattern v) then Inl BadPattern
                  else Inr \<lparr>nt_config = v, nt_remote_public_key = k, nt_psk = None\<rparr>))"

definition noise_set_psk :: "bytes \<Rightarrow> noise_transport \<Rightarrow> noise_transport" where
  "noise_set_psk psk t = t\<lparr>nt_psk := Some psk\<rparr>"

text \<open>What \<open>do_handshake\<close> gives to the Noise library: private key, remote key, pre-shared key.\<close>

definition noise_handshake_keys ::
  "(bytes \<Rightarrow> bytes option) \<Rightarrow> bytes \<Rightarrow> noise_transport \<Rightarrow> instance_error + (bytes \<times> bytes option \<times> bytes option)" where
  "noise_handshake_keys b64 generated t =
     res_bind
       (case nz_local_private_key (nt_config t) of
          None \<Rightarrow> Inr generated
        | Some key \<Rightarrow> (case b64 (as_bytes key) of None \<Rightarrow> Inl BadPrivateKey | Some k \<Rightarrow> Inr k))
       (\<lambda>k. Inr (k, nt_remote_public_key t, nt_psk t))"

text \<open>
  \<open>do_handshake\<close>, \<open>connect\<close> and \<open>handshake\<close> of the Noise transport. The handshake of the library gets the side it
  plays, the keys and the connection; \<open>connect\<close> runs it on a connection of the transport below as the
  initiator, \<open>handshake\<close> on an accepted one as the responder.
\<close>

type_synonym noise_library = "bool \<Rightarrow> bytes \<times> bytes option \<times> bytes option \<Rightarrow> conn \<Rightarrow> instance_error + conn"

definition noise_do_handshake ::
  "(bytes \<Rightarrow> bytes option) \<Rightarrow> bytes \<Rightarrow> noise_library \<Rightarrow> noise_transport \<Rightarrow> conn \<Rightarrow> bool \<Rightarrow> instance_error + conn" where
  "noise_do_handshake b64 generated lib t stream initiator =
     res_bind (noise_handshake_keys b64 generated t) (\<lambda>keys. lib initiator keys stream)"

definition noise_handshake ::
  "(bytes \<Rightarrow> bytes option) \<Rightarrow> bytes \<Rightarrow> noise_library \<Rightarrow> (conn \<Rightarrow> instance_error + conn) \<Rightarrow> noise_transport \<Rightarrow> conn \<Rightarrow>
   instance_error + conn" where
  "noise_handshake b64 generated lib underlying t raw =
     res_bind (underlying raw) (\<lambda>c. noise_do_handshake b64 generated lib t c False)"

definition noise_connect ::
  "(bytes \<Rightarrow> bytes option) \<Rightarrow> bytes \<Rightarrow> noise_library \<Rightarrow> (addr_maybe_cached \<Rightarrow> instance_error + conn) \<Rightarrow> noise_transport \<Rightarrow>
   addr_maybe_cached \<Rightarrow> instance_error + conn" where
  "noise_connect b64 generated lib underlying t addr =
     res_bind (underlying addr) (\<lambda>c. noise_do_handshake b64 generated lib t c True)"

datatype transport = PlainTransport transport_type | NoiseOver transport_type noise_transport

text \<open>
  The transport of an instance. A pre-shared key that is not base 64 of 32 bytes is passed over.
\<close>

definition use_psk :: "(bytes \<Rightarrow> bytes option) \<Rightarrow> noise_config \<Rightarrow> noise_transport \<Rightarrow> noise_transport" where
  "use_psk b64 v t =
     (case nz_psk v of
        None \<Rightarrow> t
      | Some psk \<Rightarrow>
          (case b64 (as_bytes psk) of
             None \<Rightarrow> t
           | Some bs \<Rightarrow> if length bs = 32 then noise_set_psk bs t else t))"

definition start_transport ::
  "(bytes \<Rightarrow> bytes option) \<Rightarrow> (string \<Rightarrow> bool) \<Rightarrow> transport_config \<Rightarrow> instance_error + transport" where
  "start_transport b64 pattern_ok c =
     (case tr_noise c of
        Some v \<Rightarrow>
          res_bind (noise_transport_new b64 pattern_ok c) (\<lambda>t. Inr (NoiseOver (tr_type c) (use_psk b64 v t)))
      | None \<Rightarrow> res_bind (underlying_new c) (\<lambda>_. Inr (PlainTransport (tr_type c))))"

definition start_server ::
  "(bytes \<Rightarrow> bytes option) \<Rightarrow> (string \<Rightarrow> bool) \<Rightarrow> (bytes \<Rightarrow> digest) \<Rightarrow> config \<Rightarrow>
   instance_error + (transport \<times> server)" where
  "start_server b64 pattern_ok sha config =
     (case cfg_server config of
        None \<Rightarrow> Inl MissingRole
      | Some c \<Rightarrow>
          res_bind (start_transport b64 pattern_ok (sc_transport c))
            (\<lambda>t. Inr (t, server_from_config sha c)))"

text \<open>The client starts its services at once; a panic there is \<open>None\<close>.\<close>

definition start_client ::
  "(bytes \<Rightarrow> bytes option) \<Rightarrow> (string \<Rightarrow> bool) \<Rightarrow> config \<Rightarrow> (instance_error + (transport \<times> client)) option" where
  "start_client b64 pattern_ok config =
     (case cfg_client config of
        None \<Rightarrow> Some (Inl MissingRole)
      | Some c \<Rightarrow>
          (case start_transport b64 pattern_ok (cc_transport c) of
             Inl e \<Rightarrow> Some (Inl e)
           | Inr t \<Rightarrow> map_option (\<lambda>cl. Inr (t, cl)) (client_start (cc_services c) (client_from_config c))))"

datatype started = StartedServer transport server | StartedClient transport client

text \<open>\<open>run_instance\<close>: an undetermined role is a panic.\<close>

definition run_instance ::
  "(bytes \<Rightarrow> bytes option) \<Rightarrow> (string \<Rightarrow> bool) \<Rightarrow> (bytes \<Rightarrow> digest) \<Rightarrow> config \<Rightarrow> cli \<Rightarrow>
   (instance_error + started) option" where
  "run_instance b64 pattern_ok sha config args =
     (case determine_run_mode config args of
        Undetermine \<Rightarrow> None
      | ClientMode \<Rightarrow>
          map_option (\<lambda>r. res_bind r (\<lambda>(t, c). Inr (StartedClient t c))) (start_client b64 pattern_ok config)
      | ServerMode \<Rightarrow>
          Some (res_bind (start_server b64 pattern_ok sha config) (\<lambda>(t, s). Inr (StartedServer t s))))"

section \<open>The main loop\<close>

text \<open>
  An instance, as the main loop knows it: the configuration it was started with and the changes that
  were sent to it since. With every event of the watcher comes what the instance does: whether it still
  listens, and how it ends when it is stopped.
\<close>

record inst =
  in_config :: config
  in_updates :: "config_change list"

datatype inst_end = EndedOk | EndedErr | EndedPanic

record run_event =
  re_change :: config_change
  re_listens :: bool
  re_end :: inst_end

datatype run_error = NoReceiver | InstanceFailed | InstancePanicked

definition run_turn :: "run_event \<Rightarrow> inst option \<Rightarrow> run_error + inst option" where
  "run_turn ev prev =
     (case re_change ev of
        General config \<Rightarrow>
          res_bind
            (case prev of
               None \<Rightarrow> Inr ()
             | Some _ \<Rightarrow>
                 if \<not> re_listens ev then Inl NoReceiver
                 else (case re_end ev of
                         EndedOk \<Rightarrow> Inr () | EndedErr \<Rightarrow> Inl InstanceFailed | EndedPanic \<Rightarrow> Inl InstancePanicked))
            (\<lambda>_. Inr (Some \<lparr>in_config = config, in_updates = []\<rparr>))
      | change \<Rightarrow>
          Inr (case prev of
                 None \<Rightarrow> None
               | Some i \<Rightarrow> Some (if re_listens ev then i\<lparr>in_updates := in_updates i @ [change]\<rparr> else i)))"

fun run_loop :: "run_event list \<Rightarrow> inst option \<Rightarrow> run_error + inst option" where
  "run_loop [] prev = Inr prev"
| "run_loop (ev # evs) prev = res_bind (run_turn ev prev) (run_loop evs)"

text \<open>The events of a watcher, met by instances that listen and end without an error.\<close>

definition healthy :: "config_change list \<Rightarrow> run_event list" where
  "healthy changes = map (\<lambda>c. \<lparr>re_change = c, re_listens = True, re_end = EndedOk\<rparr>) changes"

section \<open>Lemmas\<close>

lemma run_loop_effective:
  "run_loop (healthy changes) (Some i) = Inr r \<Longrightarrow>
   \<exists>j. r = Some j \<and> fold apply_change (in_updates j) (in_config j) =
     fold apply_change changes (fold apply_change (in_updates i) (in_config i))"
proof (induction changes arbitrary: i)
  case (Cons c changes)
  have step: "run_loop (healthy changes) (Some i') = Inr r \<and>
      fold apply_change (in_updates i') (in_config i') = apply_change c (fold apply_change (in_updates i) (in_config i))"
    if "run_turn \<lparr>re_change = c, re_listens = True, re_end = EndedOk\<rparr> (Some i) = Inr (Some i')" for i'
    using that Cons.prems by (auto simp: healthy_def run_turn_def apply_change_def split: config_change.splits)
  obtain i' where "run_turn \<lparr>re_change = c, re_listens = True, re_end = EndedOk\<rparr> (Some i) = Inr (Some i')"
    by (cases c) (auto simp: run_turn_def)
  with step Cons.IH [of i'] show ?case by auto
qed (auto simp: healthy_def)

text \<open>What the current instance was sent, and the configuration it began with, come from the events.\<close>

lemma run_loop_sources:
  "run_loop (healthy changes) prev = Inr (Some j) \<Longrightarrow>
   (\<forall>i. prev = Some i \<longrightarrow> (\<forall>c. General c \<notin> set (in_updates i))) \<Longrightarrow>
   (General (in_config j) \<in> set changes \<or> (\<exists>i. prev = Some i \<and> in_config j = in_config i)) \<and>
   set (in_updates j) \<subseteq> set changes \<union> (case prev of None \<Rightarrow> {} | Some i \<Rightarrow> set (in_updates i)) \<and>
   (\<forall>c. General c \<notin> set (in_updates j))"
proof (induction changes arbitrary: prev)
  case (Cons c changes)
  obtain prev' where t: "run_turn \<lparr>re_change = c, re_listens = True, re_end = EndedOk\<rparr> prev = Inr prev'"
    by (cases c; cases prev) (auto simp: run_turn_def)
  have run: "run_loop (healthy changes) prev' = Inr (Some j)" using Cons.prems(1) t by (simp add: healthy_def)
  have "(\<forall>i. prev' = Some i \<longrightarrow> (\<forall>c. General c \<notin> set (in_updates i)))"
    using t Cons.prems(2) by (cases c; cases prev) (auto simp: run_turn_def)
  from Cons.IH [OF run this] t show ?case
    by (cases c; cases prev) (auto simp: run_turn_def split: option.splits)
qed (simp add: healthy_def)

lemma run_loop_healthy: "\<exists>r. run_loop (healthy changes) prev = Inr r"
proof (induction changes arbitrary: prev)
  case (Cons c changes)
  obtain prev' where "run_turn \<lparr>re_change = c, re_listens = True, re_end = EndedOk\<rparr> prev = Inr prev'"
    by (cases c; cases prev) (auto simp: run_turn_def)
  with Cons.IH [of prev'] show ?case by (simp add: healthy_def)
qed (simp add: healthy_def)

text \<open>
  An instance that has listened to all of \<open>General origin # sent\<close>: replaying its updates on the
  configuration it began with gives what the events describe.
\<close>

lemma healthy_instance:
  "\<exists>i. run_loop (healthy (General origin # sent)) None = Inr (Some i) \<and>
     General (in_config i) \<in> set (General origin # sent) \<and>
     (\<forall>e \<in> set (in_updates i). e \<in> set (General origin # sent) \<and> (is_server_change e \<or> is_client_change e)) \<and>
     fold apply_change (in_updates i) (in_config i) = fold apply_change sent origin"
proof -
  let ?i = "\<lparr>in_config = origin, in_updates = []\<rparr>"
  have start: "run_loop (healthy (General origin # sent)) None = run_loop (healthy sent) (Some ?i)"
    by (simp add: healthy_def run_turn_def)
  obtain r where r: "run_loop (healthy sent) (Some ?i) = Inr r" using run_loop_healthy by blast
  obtain i where i: "r = Some i" "fold apply_change (in_updates i) (in_config i) = fold apply_change sent origin"
    using run_loop_effective [OF r] by auto
  have src: "General (in_config i) \<in> set (General origin # sent)" "set (in_updates i) \<subseteq> set (General origin # sent)"
    "\<And>c. General c \<notin> set (in_updates i)"
    using run_loop_sources [of "General origin # sent" None i] start r i(1) by auto
  have "is_server_change e \<or> is_client_change e" if "e \<in> set (in_updates i)" for e
    using src(3) that by (cases e) (auto simp: is_server_change_def is_client_change_def)
  with start r i src show ?thesis by auto
qed

lemma underlying_new_ok: "transport_ok c \<Longrightarrow> underlying_new c = Inr ()"
  by (auto simp: transport_ok_def underlying_new_def split: transport_type.splits option.splits)

lemma map_values_mem:
  assumes "map_values f m = Inr m'" and "(k, w) \<in> set m'"
  shows "\<exists>v. f k v = Inr w"
  using assms unfolding map_values_Inr by (induction m m' rule: list_all2_induct) auto

lemma validated_retry:
  assumes "validate_client_config client = Inr cl"
  shows "\<forall>(n, s) \<in> set (cc_services cl). cs_retry_interval s \<noteq> None"
  using assms map_values_mem validate_client_service_Inr unfolding validate_client_config_Inr by fastforce

section \<open>Properties\<close>



section \<open>Witnesses and observations\<close>



text \<open>
  When an instance has ended by itself, its receiver of the shutdown signal is gone, and the next change of
  the general configuration ends the program with an error instead of starting a new instance.
\<close>

lemma restart_after_exit_fails:
  "\<not> re_listens ev \<Longrightarrow> re_change ev = General config \<Longrightarrow> run_turn ev (Some i) = Inl NoReceiver"
  by (simp add: run_turn_def)

end
