(* ===== verification/Program.thy ===== *)
theory Program
  imports Instance
begin

text \<open>
  The program as a whole: the command line (src/src/cli.rs), key generation and \<open>run\<close> of src/src/lib.rs, and the
  file-system side of the watcher in src/src/config_watcher.rs: which file is watched, which events of the
  file system cause it to be read again, and when watching ends. The file system, the
  key generator and base 64 are parameters.
\<close>

section \<open>Paths\<close>

text \<open>The parts of a Unix path, as \<open>Path::components\<close> gives them less the root and the current directory.\<close>

definition path_parts :: "string \<Rightarrow> string list" where
  "path_parts p = filter (\<lambda>x. x \<noteq> '''' \<and> x \<noteq> ''.'') (split_char CHR 0x2F p)"

definition file_name :: "string \<Rightarrow> string option" where
  "file_name p = (let cs = path_parts p in if cs = [] \<or> last cs = ''..'' then None else Some (last cs))"

definition is_absolute :: "string \<Rightarrow> bool" where
  "is_absolute p \<longleftrightarrow> p \<noteq> [] \<and> hd p = CHR 0x2F"

text \<open>The path that is watched; the current directory may be unavailable.\<close>

definition watched_path :: "string option \<Rightarrow> string \<Rightarrow> string option" where
  "watched_path cwd path = (if is_absolute path then Some path else map_option (\<lambda>d. d @ ''/'' @ path) cwd)"

section \<open>Watching the file\<close>

datatype event_kind = AnyEvent | AccessEvent | CreateEvent | ModifyEvent | RemoveEvent | OtherEvent

record fs_event =
  fe_kind :: event_kind
  fe_paths :: "string list"

text \<open>The closure given to the file watcher: modifications that name a file of the same name.\<close>

definition wants_rescan :: "string \<Rightarrow> fs_event \<Rightarrow> bool" where
  "wants_rescan path e \<longleftrightarrow> fe_kind e = ModifyEvent \<and> list_ex (\<lambda>x. file_name x = file_name path) (fe_paths e)"

text \<open>
  What happens to the watcher: an event of the file system, with what the file holds when the
  watcher comes to read it; an error of the watching; the shutdown signal.
\<close>

datatype watch_step = FileEvent fs_event "string option" | WatchError | WatchShutdown

fun watch_loop :: "(string \<Rightarrow> config option) \<Rightarrow> string \<Rightarrow> config \<Rightarrow> watch_step list \<Rightarrow> config \<times> config_change list" where
  "watch_loop toml path old [] = (old, [])"
| "watch_loop toml path old (FileEvent e content # steps) =
     (if wants_rescan path e
      then (let (old1, sent) = watcher_turn toml old content; (old2, sent') = watch_loop toml path old1 steps
            in (old2, sent @ sent'))
      else watch_loop toml path old steps)"
| "watch_loop toml path old (WatchError # steps) = watch_loop toml path old steps"
| "watch_loop toml path old (WatchShutdown # steps) = (old, [])"

text \<open>
  What the program asks of the system it runs on. \<open>pm_watches\<close> says whether a watch could be
  set up on the directory of a path.
\<close>

record machine =
  pm_toml :: "string \<Rightarrow> config option"
  pm_cwd :: "string option"
  pm_watches :: "string \<Rightarrow> bool"
  pm_keygen :: "string \<Rightarrow> (bytes \<times> bytes) option"
  pm_b64 :: "bytes \<Rightarrow> string"

text \<open>
  \<open>config_watcher\<close>: without a current directory, a parent directory or a watch the task ends at once,
  and with it the stream of events.
\<close>

definition config_watcher_task :: "machine \<Rightarrow> string \<Rightarrow> config \<Rightarrow> watch_step list \<Rightarrow> config \<times> config_change list" where
  "config_watcher_task m path old steps =
     (case watched_path (pm_cwd m) path of
        None \<Rightarrow> (old, [])
      | Some p \<Rightarrow> if path_parts p = [] \<or> \<not> pm_watches m p then (old, []) else watch_loop (pm_toml m) p old steps)"

text \<open>Whether the task has ended, and with it the stream of events.\<close>

definition watcher_ended :: "machine \<Rightarrow> string \<Rightarrow> watch_step list \<Rightarrow> bool" where
  "watcher_ended m path steps =
     (case watched_path (pm_cwd m) path of
        None \<Rightarrow> True
      | Some p \<Rightarrow> path_parts p = [] \<or> \<not> pm_watches m p \<or> WatchShutdown \<in> set steps)"

definition config_watcher_handle_new ::
  "machine \<Rightarrow> string \<Rightarrow> string option \<Rightarrow> watch_step list \<Rightarrow> config_error + (config \<times> config_change list)" where
  "config_watcher_handle_new m path first steps =
     (case from_file (pm_toml m) (\<lambda>_. first) path of
        Inl e \<Rightarrow> Inl e
      | Inr origin \<Rightarrow> (let (final, sent) = config_watcher_task m path origin steps in Inr (final, General origin # sent)))"

section \<open>The command line and the run\<close>

text \<open>
  The argument groups of \<open>Cli\<close>: \<open>cmds\<close> wants exactly one of the path and \<open>--genkey\<close>, \<open>mode\<close> at most one
  of \<open>--server\<close> and \<open>--client\<close>.
\<close>

definition cli_accepts :: "cli \<Rightarrow> bool" where
  "cli_accepts args \<longleftrightarrow>
     (cli_config_path args = None \<longleftrightarrow> cli_genkey args \<noteq> None) \<and> \<not> (cli_server args \<and> cli_client args)"

definition DEFAULT_CURVE :: keypair_type where
  "DEFAULT_CURVE = X25519"

definition get_str_from_keypair_type :: "keypair_type \<Rightarrow> string" where
  "get_str_from_keypair_type curve = (case curve of X25519 \<Rightarrow> ''25519'' | X448 \<Rightarrow> ''448'')"

datatype program_error = KeypairFailed | BadConfig config_error | LoopFailed run_error

text \<open>\<open>genkey\<close>: the lines it prints. \<open>pm_keygen\<close> fails when the pattern does not parse or no keys can be made.\<close>

definition genkey :: "machine \<Rightarrow> keypair_type option \<Rightarrow> program_error + string list" where
  "genkey m curve =
     (let c = (case curve of None \<Rightarrow> DEFAULT_CURVE | Some c \<Rightarrow> c)
      in case pm_keygen m (''Noise_IK_'' @ get_str_from_keypair_type c @ ''_ChaChaPoly_BLAKE2s'') of
           None \<Rightarrow> Inl KeypairFailed
         | Some (private, public) \<Rightarrow>
             Inr [''Noise Keypair (Pattern: IK)'', ''---------------------------'',
                  ''Private Key: '' @ pm_b64 m private, ''Public Key:  '' @ pm_b64 m public,
                  ''---------------------------''])"

text \<open>
  The main loop meets the events of the watcher in their order; \<open>reacts\<close> says of each whether the running
  instance listens and how it ends when stopped.
\<close>

definition instance_events :: "(nat \<Rightarrow> bool \<times> inst_end) \<Rightarrow> config_change list \<Rightarrow> run_event list" where
  "instance_events reacts sent =
     map (\<lambda>(n, c). \<lparr>re_change = c, re_listens = fst (reacts n), re_end = snd (reacts n)\<rparr>) (enumerate 0 sent)"

text \<open>
  \<open>run\<close>: a missing path is a panic (\<open>None\<close>). When the events end, the last instance is stopped, and an error or panic
  of it is only logged; until then it runs.
\<close>

datatype program_state = Printed "string list" | Running "inst option" | Stopped "inst option"

definition run :: "machine \<Rightarrow> (nat \<Rightarrow> bool \<times> inst_end) \<Rightarrow> cli \<Rightarrow> string option \<Rightarrow> watch_step list \<Rightarrow>
   (program_error + program_state) option" where
  "run m reacts args first steps =
     (case cli_genkey args of
        Some curve \<Rightarrow> Some (res_bind (genkey m curve) (\<lambda>lines. Inr (Printed lines)))
      | None \<Rightarrow>
          (case cli_config_path args of
             None \<Rightarrow> None
           | Some path \<Rightarrow>
               Some (case config_watcher_handle_new m path first steps of
                       Inl e \<Rightarrow> Inl (BadConfig e)
                     | Inr (final, sent) \<Rightarrow>
                         (case run_loop (instance_events reacts sent) None of
                            Inl e \<Rightarrow> Inl (LoopFailed e)
                          | Inr last_instance \<Rightarrow>
                              Inr (if watcher_ended m path steps then Stopped last_instance else Running last_instance)))))"

section \<open>Specification\<close>

text \<open>What the file held each time it was read again, until the shutdown signal.\<close>

fun rescans :: "string \<Rightarrow> watch_step list \<Rightarrow> string option list" where
  "rescans path [] = []"
| "rescans path (FileEvent e content # steps) = (if wants_rescan path e then [content] else []) @ rescans path steps"
| "rescans path (WatchError # steps) = rescans path steps"
| "rescans path (WatchShutdown # steps) = []"

text \<open>The last of the contents that loads.\<close>

fun last_valid :: "(string \<Rightarrow> config option) \<Rightarrow> config \<Rightarrow> string option list \<Rightarrow> config" where
  "last_valid toml old [] = old"
| "last_valid toml old (content # rest) =
     last_valid toml (case from_file toml (\<lambda>_. content) '''' of Inl _ \<Rightarrow> old | Inr new \<Rightarrow> new) rest"

text \<open>The versions of the file the program gets to see.\<close>

definition seen_versions :: "machine \<Rightarrow> string \<Rightarrow> watch_step list \<Rightarrow> string option list" where
  "seen_versions m path steps =
     (case watched_path (pm_cwd m) path of
        None \<Rightarrow> []
      | Some p \<Rightarrow> if path_parts p = [] \<or> \<not> pm_watches m p then [] else rescans p steps)"

lemma watch_loop_rescans: "watch_loop toml path old steps = config_watcher toml old (rescans path steps)"
  by (induction toml path old steps rule: watch_loop.induct) (simp_all split: prod.splits)

lemma watcher_task_versions: "config_watcher_task m path old steps = config_watcher (pm_toml m) old (seen_versions m path steps)"
  by (simp add: config_watcher_task_def seen_versions_def watch_loop_rescans split: option.splits)

lemma config_watcher_last: "fst (config_watcher toml old contents) = last_valid toml old contents"
  by (induction toml old contents rule: config_watcher.induct)
    (auto simp: watcher_turn_def split: prod.splits sum.splits)

lemma instance_events_healthy: "instance_events (\<lambda>_. (True, EndedOk)) sent = healthy sent"
  by (auto simp: instance_events_def healthy_def intro!: nth_equalityI simp: nth_enumerate_eq)

section \<open>Properties\<close>


text \<open>
  When no watch can be set up, the error of the watcher's task is lost, the events end after the first, and the program
  stops the instance it has just started without reporting an error.
\<close>

lemma unwatched_program_stops:
  assumes "cli_config_path args = Some path" and "cli_genkey args = None" and "\<And>p. \<not> pm_watches m p"
    and "from_file (pm_toml m) (\<lambda>_. first) path = Inr origin"
  shows "run m reacts args first steps = Some (Inr (Stopped (Some \<lparr>in_config = origin, in_updates = []\<rparr>)))"
  using assms
  by (auto simp: run_def config_watcher_handle_new_def config_watcher_task_def watcher_ended_def instance_events_def
      run_turn_def split: option.splits)

section \<open>Concrete runs\<close>

definition demo_machine :: machine where
  "demo_machine = \<lparr>pm_toml = demo_toml, pm_cwd = Some ''/etc'', pm_watches = (\<lambda>_. True),
     pm_keygen = (\<lambda>pattern. if pattern = ''Noise_IK_25519_ChaChaPoly_BLAKE2s'' then Some ([1], [2]) else None),
     pm_b64 = (\<lambda>bs. ''k'')\<rparr>"

definition demo_steps :: "watch_step list" where
  "demo_steps = [FileEvent \<lparr>fe_kind = ModifyEvent, fe_paths = [''/etc/other.toml'']\<rparr> (Some ''b''),
     FileEvent \<lparr>fe_kind = CreateEvent, fe_paths = [''/etc/c.toml'']\<rparr> (Some ''b''),
     WatchError, FileEvent \<lparr>fe_kind = ModifyEvent, fe_paths = [''/etc/c.toml'']\<rparr> (Some ''b''),
     FileEvent \<lparr>fe_kind = ModifyEvent, fe_paths = [''/etc/c.toml'']\<rparr> (Some ''junk''),
     WatchShutdown, FileEvent \<lparr>fe_kind = ModifyEvent, fe_paths = [''/etc/c.toml'']\<rparr> (Some ''a'')]"

lemma demo_seen:
  "seen_versions demo_machine ''c.toml'' demo_steps = [Some ''b'', Some ''junk'']" "watcher_ended demo_machine ''c.toml'' demo_steps"
  by code_simp+


end
