(* ===== verification/Forwarding.thy ===== *)
theory Forwarding
  imports Server Client
begin

text \<open>
  \<^bold>\<open>The path of a visitor.\<close> The two programs at work together: the server's tasks
  (\<open>server.rs\<close>) on one end of the connections and the client's (\<open>client.rs\<close>) on the other, each
  reading what the other writes. For a TCP service, from the request for a data channel to the two
  halves of the tunnel; for a UDP service, one datagram of a visitor to the local service and the
  answer back. Only turns of the component theories are composed here; the definitions of this theory
  name what is said on the way.
\<close>

section \<open>Connections and turns\<close>

lemma read_hello_wire:
  assumes "bincode_ok bc" and "fits bc (MHello h)" and "hello_version h = CURRENT_PROTO_VERSION"
    and "inp c = wire bc (MHello h) @ rest"
  shows "read_hello bc c = (Inr h, c\<lparr>inp := rest\<rparr>)"
  using read_wire [OF assms(1,2,4)] assms(3) by (simp add: read_hello_def io_bind_def io_return_def)

text \<open>A data connection that greets with the key of a registered session ends up in its queue.\<close>

lemma data_connection_queued:
  assumes "server_inv sv" and "bincode_ok (en_bc en)"
    and "fits (en_bc en) (MHello (DataChannelHello CURRENT_PROTO_VERSION k))"
    and "(d, k, h) \<in> items (sv_channels sv)" and "sv_sessions sv (h_session h) = Some se"
    and "\<not> pool_ended se" and "length (se_data se) < CHAN_SIZE * 2"
    and "inp c = wire (en_bc en) (MHello (DataChannelHello CURRENT_PROTO_VERSION k)) @ rest"
  shows "\<exists>c'. inp c' = rest \<and> out c' = out c \<and> room c' = room c \<and>
    handle_connection en rnd services c sv = Done (Inr (), c',
      sv\<lparr>sv_sessions := (sv_sessions sv)(h_session h \<mapsto> se\<lparr>se_data := se_data se @ [c']\<rparr>)\<rparr>)"
proof -
  have "read_hello (en_bc en) c = (Inr (DataChannelHello CURRENT_PROTO_VERSION k), c\<lparr>inp := rest\<rparr>)"
    using assms(8) by (intro read_hello_wire [OF assms(2,3)]) simp_all
  with mm.look2_hit [OF server_inv_withD(1) [OF assms(1)] assms(4)] assms(5-7) show ?thesis
    by (simp add: handle_connection_def do_data_channel_handshake_def Let_def send_data_ch_def hint_def set_nack_mode_def)
qed

text \<open>Turns of the tasks of one session, within the server.\<close>

definition own_turn :: "session_event \<Rightarrow> bool" where
  "own_turn ev \<longleftrightarrow> (\<forall>c. ev \<noteq> DataChannel c) \<and> ev \<noteq> HandleDropped"

lemma server_session_turn:
  assumes "sv_sessions sv i = Some se" and "session_turn (en_bc en) ev se = Some se'" and "own_turn ev"
  shows "server_turn en (SessionTurn i ev) sv = Done (sv\<lparr>sv_sessions := (sv_sessions sv)(i \<mapsto> se')\<rparr>)"
  using assms by (cases ev) (simp_all add: server_turn_def own_turn_def)

lemma server_session_turns:
  "sv_sessions sv i = Some se \<Longrightarrow> session_turns (en_bc en) evs se = Some se' \<Longrightarrow> list_all own_turn evs \<Longrightarrow>
   server_loop en (map (SessionTurn i) evs) sv = Done (sv\<lparr>sv_sessions := (sv_sessions sv)(i \<mapsto> se')\<rparr>)"
proof (induction evs arbitrary: sv se)
  case Nil
  then show ?case by (simp add: fun_upd_idem)
next
  case (Cons ev evs)
  then obtain se1 where se1: "session_turn (en_bc en) ev se = Some se1" "session_turns (en_bc en) evs se1 = Some se'"
    by (auto simp: bind_eq_Some_conv)
  have "own_turn ev" "list_all own_turn evs" using Cons.prems(3) by simp_all
  with server_session_turn [OF Cons.prems(1) se1(1)] Cons.IH [OF _ se1(2), of "sv\<lparr>sv_sessions := (sv_sessions sv)(i \<mapsto> se1)\<rparr>"]
  show ?case by (simp cong: if_cong)
qed

lemma server_loop_append:
  "server_loop en (es @ fs) sv =
     (case server_loop en es sv of Done sv' \<Rightarrow> server_loop en fs sv' | Waits \<Rightarrow> Waits | Undefined \<Rightarrow> Undefined)"
  by (induction es arbitrary: sv) (simp_all split: outcome.splits)

section \<open>A visitor of a TCP service\<close>

text \<open>The control task answers one request for a data channel.\<close>

lemma request_sent:
  assumes "se_ctl se" and "se_req se = Suc n" and "length (wire bc (MControl CreateDataChannel)) \<le> room (se_conn se)"
  shows "session_turn bc (Ctl DataRequest) se =
    Some (se\<lparr>se_req := n, se_conn := (se_conn se)\<lparr>out := out (se_conn se) @ wire bc (MControl CreateDataChannel),
      room := room (se_conn se) - length (wire bc (MControl CreateDataChannel))\<rparr>\<rparr>)"
  using assms
  by (simp add: session_turn_def control_channel_turn_def control_send_def write_control_cmd_def write_wire)

text \<open>Listener and pool hand a visitor the first data channel of the queue.\<close>

lemma visitor_handed_channel:
  assumes "se_pool se = TcpPool p" and "tp_listener p = LAccepting" and "tp_task p = PIdle" and "tp_visitors p = []"
    and "se_ctl se" and "se_data se = ch # chs" and "length (wire bc (start_forward_tcp v)) \<le> room ch"
  shows "session_turns bc [Listen (Accepted v), Listen QueueReady, TcpPoolTurn, TcpPoolTurn] se =
    Some (se\<lparr>se_req := Suc (se_req se), se_data := chs, se_pool := TcpPool (p\<lparr>tp_forwards := tp_forwards p @
      [(ch\<lparr>out := out ch @ wire bc (start_forward_tcp v), room := room ch - length (wire bc (start_forward_tcp v))\<rparr>, v)]\<rparr>)\<rparr>)"
  using assms
  by (cases p) (simp add: session_turn_def listener_turn_def send_req_def tcp_pool_turn_def write_wire CHAN_SIZE_def)

text \<open>
  The address a visitor has for the client, and what the local service is told about it before the
  visitor's first byte.
\<close>

definition visitor_addr :: "visitor \<Rightarrow> sock_addr" where
  "visitor_addr v = sock_addr_from (forward_addr_from (case vi_peer v of Some a \<Rightarrow> a | None \<Rightarrow> V4 0 0))"

definition service_header :: "proxy_protocol option \<Rightarrow> visitor \<Rightarrow> sock_addr option \<Rightarrow> bytes" where
  "service_header pp v own =
     (let src = visitor_addr v; dst = (case own of Some a \<Rightarrow> a | None \<Rightarrow> src)
      in case pp of
           None \<Rightarrow> []
         | Some ProxyV1 \<Rightarrow> proxy_v1_header src dst
         | Some ProxyV2 \<Rightarrow> proxy_v2_header src dst)"

lemma service_told:
  assumes "length (service_header pp v own) \<le> room lc"
  shows "\<exists>l. run_data_channel_for_tcp (Inr (lc, own)) (forward_addr_from (case vi_peer v of Some a \<Rightarrow> a | None \<Rightarrow> V4 0 0)) pp = Inr l \<and>
    inp l = inp lc \<and> out l = out lc @ service_header pp v own"
  using assms
  by (auto simp: run_data_channel_for_tcp_def service_header_def visitor_addr_def Let_def write_all_def
      split: option.splits proxy_protocol.splits)

text \<open>The client's half: a command on the control channel, then a data channel that is told to start.\<close>

lemma client_opens_channel:
  assumes "bincode_ok bc" and "fits bc (MControl CreateDataChannel)"
    and "inp (ch_conn ch) = wire bc (MControl CreateDataChannel) @ more_commands"
  shows "client_loop_turn bc hb CmdArrives ch =
    Some (Continue (ch\<lparr>ch_conn := (ch_conn ch)\<lparr>inp := more_commands\<rparr>, ch_spawned := Suc (ch_spawned ch)\<rparr>))"
  using read_wire [OF assms] by (simp add: client_loop_turn_def read_control_cmd_def io_bind_def io_return_def)

lemma client_forwards_visitor:
  assumes "bincode_ok bc" and "fits bc (start_forward_tcp v)" and "cs_type (rd_service args) = ServiceTcp"
    and "retry_connect attempts = Inr dc" and "inp dc = wire bc (start_forward_tcp v) @ from_visitor"
    and "length (wire bc (MHello (DataChannelHello CURRENT_PROTO_VERSION (rd_session_key args)))) \<le> room dc"
    and "length (service_header (cs_proxy_protocol (rd_service args)) v own) \<le> room lc"
  shows "\<exists>c l. run_data_channel bc args attempts (Inr (lc, own)) = ForwardingTcp c l \<and> inp c = from_visitor \<and>
    out c = out dc @ wire bc (MHello (DataChannelHello CURRENT_PROTO_VERSION (rd_session_key args))) \<and>
    inp l = inp lc \<and> out l = out lc @ service_header (cs_proxy_protocol (rd_service args)) v own"
proof -
  obtain l where l: "run_data_channel_for_tcp (Inr (lc, own))
      (forward_addr_from (case vi_peer v of Some a \<Rightarrow> a | None \<Rightarrow> V4 0 0)) (cs_proxy_protocol (rd_service args)) = Inr l"
    "inp l = inp lc" "out l = out lc @ service_header (cs_proxy_protocol (rd_service args)) v own"
    using service_told [OF assms(7)] by blast
  have "wire bc m \<noteq> []" for m by (auto simp: wire_def frame_def dest: arg_cong [where f = length])
  then have ne: "inp dc \<noteq> []" using assms(5) by simp
  obtain a where a: "start_forward_tcp v = MDataCommand (StartForwardTcp a)"
    "a = forward_addr_from (case vi_peer v of Some a \<Rightarrow> a | None \<Rightarrow> V4 0 0)"
    by (simp add: start_forward_tcp_def)
  have "inp dc = wire bc (MDataCommand (StartForwardTcp a)) @ from_visitor \<or> inp dc = []" using assms(5) a(1) by simp
  from data_channel_start [OF assms(1,4,6) assms(2) [unfolded a(1)] this, of "Inr (lc, own)"] ne assms(3) l a(2)
  show ?thesis by auto
qed

text \<open>
  C8: a visitor of a TCP service reaches the service. Take a server and a client with an established session whose
  pool is idle and has a request outstanding, and connections on which each end reads what the other writes. The
  server asks for a data channel; the client reads the command and opens one with the session key; the server
  queues it with that session; a visitor that is accepted then gets it, and the start command tells
  the client its address. At the end both halves of the tunnel stand: the server copies between the visitor and the
  data channel, the client between the data channel and the local service, which has been told the visitor's
  address in the configured PROXY format first, and the request that was used up has been replaced.
\<close>

theorem visitor_reaches_service:
  assumes inv: "server_inv sv" "env_ok en" "bincode_ok (en_bc en)"
    and session: "(d, key, h) \<in> items (sv_channels sv)" "sv_sessions sv (h_session h) = Some se" "se_ctl se"
      "se_pool se = TcpPool p" "tp_listener p = LAccepting" "tp_task p = PIdle" "tp_visitors p = []"
      "se_req se = Suc n" "se_data se = []"
    and client: "rd_session_key (ch_args ch) = key" "cs_type (rd_service (ch_args ch)) = ServiceTcp"
      "retry_connect attempts = Inr dc" "out dc = []" "out ds = []"
    and fit: "fits (en_bc en) (MControl CreateDataChannel)" "fits (en_bc en) (start_forward_tcp v)"
      "fits (en_bc en) (MHello (DataChannelHello CURRENT_PROTO_VERSION key))"
    and room: "length (wire (en_bc en) (MControl CreateDataChannel)) \<le> room (se_conn se)"
      "length (wire (en_bc en) (start_forward_tcp v)) \<le> room ds"
      "length (wire (en_bc en) (MHello (DataChannelHello CURRENT_PROTO_VERSION key))) \<le> room dc"
      "length (service_header (cs_proxy_protocol (rd_service (ch_args ch))) v own) \<le> room lc"
    and read: "inp (ch_conn ch) = wire (en_bc en) (MControl CreateDataChannel) @ more_commands"
      "inp ds = wire (en_bc en) (MHello (DataChannelHello CURRENT_PROTO_VERSION key)) @ from_service"
      "inp dc = wire (en_bc en) (start_forward_tcp v) @ from_visitor"
  shows "\<exists>ch' c l sv' se' p' ds'.
    client_loop_turn (en_bc en) hb CmdArrives ch = Some (Continue ch') \<and> ch_spawned ch' = Suc (ch_spawned ch) \<and>
    run_data_channel (en_bc en) (ch_args ch) attempts (Inr (lc, own)) = ForwardingTcp c l \<and>
    server_loop en ([SessionTurn (h_session h) (Ctl DataRequest), Connection rnd services ds] @
      map (SessionTurn (h_session h)) [Listen (Accepted v), Listen QueueReady, TcpPoolTurn, TcpPoolTurn]) sv = Done sv' \<and>
    sv_sessions sv' (h_session h) = Some se' \<and> se_pool se' = TcpPool p' \<and> tp_forwards p' = tp_forwards p @ [(ds', v)] \<and>
    se_req se' = se_req se \<and> inp (ch_conn ch) = drop (length (out (se_conn se))) (out (se_conn se')) @ more_commands \<and>
    inp ds = out c @ from_service \<and> inp dc = out ds' @ from_visitor \<and> inp ds' = from_service \<and> inp c = from_visitor \<and>
    out l = out lc @ service_header (cs_proxy_protocol (rd_service (ch_args ch))) v own"
proof -
  let ?bc = "en_bc en" and ?i = "h_session h" and ?cmd = "wire (en_bc en) (MControl CreateDataChannel)"
  obtain se1 where se1: "session_turn ?bc (Ctl DataRequest) se = Some se1" "se_dropped se1 = se_dropped se"
    "out (se_conn se1) = out (se_conn se) @ ?cmd" "se_req se1 = n" "se_ctl se1" "se_pool se1 = TcpPool p" "se_data se1 = []"
    using request_sent [OF session(3,8) room(1)] session(3,4,9) by auto
  let ?sv1 = "sv\<lparr>sv_sessions := (sv_sessions sv)(?i \<mapsto> se1)\<rparr>"
  have t1: "server_turn en (SessionTurn ?i (Ctl DataRequest)) sv = Done ?sv1"
    by (rule server_session_turn [OF session(2) se1(1)]) (simp add: own_turn_def)
  have inv1: "server_inv ?sv1" by (rule inv_update_session [OF inv(1) session(2) se1(2)])
  have "\<not> pool_ended se1" "length (se_data se1) < CHAN_SIZE * 2"
    using se1(6,7) session(6) by (simp_all add: pool_ended_def CHAN_SIZE_def)
  then obtain ds1 where ds1: "inp ds1 = from_service" "out ds1 = []" "room ds1 = room ds"
    "handle_connection en rnd services ds ?sv1 =
       Done (Inr (), ds1, ?sv1\<lparr>sv_sessions := (sv_sessions ?sv1)(?i \<mapsto> se1\<lparr>se_data := [ds1]\<rparr>)\<rparr>)"
    using data_connection_queued [OF inv1 inv(3) fit(3) _ _ _ _ read(2), of d h se1 rnd services] session(1) se1(7) client(5)
    by auto
  let ?sv2 = "?sv1\<lparr>sv_sessions := (sv_sessions ?sv1)(?i \<mapsto> se1\<lparr>se_data := [ds1]\<rparr>)\<rparr>"
  obtain se' ds' where se': "session_turns ?bc [Listen (Accepted v), Listen QueueReady, TcpPoolTurn, TcpPoolTurn]
      (se1\<lparr>se_data := [ds1]\<rparr>) = Some se'" "se_pool se' = TcpPool (p\<lparr>tp_forwards := tp_forwards p @ [(ds', v)]\<rparr>)"
    "se_req se' = Suc n" "se_conn se' = se_conn se1" "inp ds' = from_service" "out ds' = wire ?bc (start_forward_tcp v)"
    using visitor_handed_channel [of "se1\<lparr>se_data := [ds1]\<rparr>" p ds1 "[]" ?bc v] se1 ds1 session(5-7) room(2) by auto
  have t2: "server_loop en (map (SessionTurn ?i) [Listen (Accepted v), Listen QueueReady, TcpPoolTurn, TcpPoolTurn]) ?sv2 =
      Done (?sv2\<lparr>sv_sessions := (sv_sessions ?sv2)(?i \<mapsto> se')\<rparr>)"
    by (rule server_session_turns [OF _ se'(1)]) (simp_all add: own_turn_def)
  have "server_loop en [SessionTurn ?i (Ctl DataRequest), Connection rnd services ds] sv = Done ?sv2"
    using ds1(4) by (simp add: t1) (simp add: server_turn_def)
  with t2 have run: "server_loop en ([SessionTurn ?i (Ctl DataRequest), Connection rnd services ds] @
      map (SessionTurn ?i) [Listen (Accepted v), Listen QueueReady, TcpPoolTurn, TcpPoolTurn]) sv =
      Done (?sv2\<lparr>sv_sessions := (sv_sessions ?sv2)(?i \<mapsto> se')\<rparr>)"
    by (simp only: server_loop_append outcome.case)
  note cl = client_opens_channel [OF inv(3) fit(1) read(1), of hb]
  obtain c l where fw: "run_data_channel ?bc (ch_args ch) attempts (Inr (lc, own)) = ForwardingTcp c l" "inp c = from_visitor"
    "out c = wire ?bc (MHello (DataChannelHello CURRENT_PROTO_VERSION key))"
    "out l = out lc @ service_header (cs_proxy_protocol (rd_service (ch_args ch))) v own"
    using client_forwards_visitor [OF inv(3) fit(2) client(2,3) read(3) _ room(4)] room(3) client(1,4) by auto
  show ?thesis
    by (intro exI conjI, rule cl, simp, rule fw(1), rule run) (use se' se1 fw read session(8) in auto)
qed

section \<open>A datagram and its answer\<close>

lemma udp_write_wire:
  assumes "length (udp_wire bc t) \<le> room c"
  shows "udp_traffic_write bc t c =
    (Inr (), c\<lparr>out := out c @ udp_wire bc t, room := room c - length (udp_wire bc t)\<rparr>)"
  using assms by (auto simp: udp_traffic_write_def udp_wire_def Let_def io_bind_def write_all_def)

lemma udp_slice_write: "udp_traffic_write_slice bc a d = udp_traffic_write bc \<lparr>ut_from = a, ut_data = d\<rparr>"
  by (simp add: udp_traffic_write_slice_def udp_traffic_write_def)

text \<open>The server's half: a datagram of a visitor goes to the data channel, and one of the client to the visitor.\<close>

lemma server_takes_datagram:
  assumes "se_pool se = UdpPool p" and "up_task p = UForwarding c"
    and "length (udp_wire bc \<lparr>ut_from = a, ut_data = take UDP_BUFFER_SIZE d\<rparr>) \<le> room c"
  shows "\<exists>c'. session_turn bc (UdpPoolTurn (UdpRecvFrom (Some (a, d)))) se = Some (se\<lparr>se_pool := UdpPool (p\<lparr>up_task := UForwarding c'\<rparr>)\<rparr>) \<and>
    out c' = out c @ udp_wire bc \<lparr>ut_from = a, ut_data = take UDP_BUFFER_SIZE d\<rparr> \<and> inp c' = inp c"
  using assms by (auto simp: session_turn_def udp_pool_turn_def udp_slice_write udp_write_wire intro!: exI)

lemma server_returns_datagram:
  assumes "bincode_ok bc" and "se_pool se = UdpPool p" and "up_task p = UForwarding c"
    and "length (ut_data t) < 2 ^ 16" and "inp c = udp_wire bc t @ rest"
  shows "session_turn bc (UdpPoolTurn (UdpFromClient True)) se = Some (se\<lparr>se_pool :=
    UdpPool (p\<lparr>up_task := UForwarding (c\<lparr>inp := rest\<rparr>), up_sent := up_sent p @ [(ut_from t, ut_data t)]\<rparr>)\<rparr>)"
  using assms(2,3) read_udp_wire [OF assms(1,4,5)] by (simp add: session_turn_def udp_pool_turn_def)

text \<open>
  The client is ready for a visitor when it does not know it yet, or when the visitor's forwarder runs and has
  nothing in its queue.
\<close>

definition ready_for :: "sock_addr \<Rightarrow> udp_forward \<Rightarrow> bool" where
  "ready_for a u = (case map_of (uf_map u) a of None \<Rightarrow> True
     | Some i \<Rightarrow> (case uf_forwarders u i of None \<Rightarrow> False | Some f \<Rightarrow> fw_runs f \<and> fw_inbound f = []))"

lemma ready_forwarder:
  assumes "forward_inv ts u" and "ready_for a u"
  shows "\<exists>i f. map_of (uf_map (ensure_forwarder True a u)) a = Some i \<and> uf_forwarders (ensure_forwarder True a u) i = Some f \<and>
    fw_from f = a \<and> fw_runs f \<and> fw_inbound f = [] \<and>
    uf_outbound (ensure_forwarder True a u) = uf_outbound u \<and> uf_writer (ensure_forwarder True a u) = uf_writer u \<and>
    uf_wr (ensure_forwarder True a u) = uf_wr u"
  using assms(2) forward_invD(2) [OF assms(1), of a]
  by (cases "map_of (uf_map u) a") (auto simp: ensure_forwarder_def ready_for_def update_conv' split: option.splits)

lemma client_takes_datagram:
  assumes "bincode_ok bc" and "forward_inv ts u" and "ready_for a u" and "length d < 2 ^ 16"
    and "inp (uf_rd u) = udp_wire bc \<lparr>ut_from = a, ut_data = d\<rparr> @ later"
  shows "\<exists>u1 u2 i f. udp_read_turn bc True u = Some (Inr (\<lparr>ut_from = a, ut_data = d\<rparr>, u1)) \<and>
    forwarder_turn (FwInbound True) i u1 = Some u2 \<and> map_of (uf_map u2) a = Some i \<and> uf_forwarders u2 i = Some f \<and>
    fw_runs f \<and> fw_from f = a \<and> (\<exists>before. fw_sent f = before @ [d]) \<and>
    uf_outbound u2 = uf_outbound u \<and> uf_writer u2 = uf_writer u \<and> uf_wr u2 = uf_wr u"
proof -
  let ?t = "\<lparr>ut_from = a, ut_data = d\<rparr>"
  let ?u = "u\<lparr>uf_rd := (uf_rd u)\<lparr>inp := later\<rparr>\<rparr>"
  have rd: "io_bind read_u8 (udp_traffic_read bc) (uf_rd u) = (Inr ?t, (uf_rd u)\<lparr>inp := later\<rparr>)"
    using read_udp_wire [of bc ?t "uf_rd u" later] assms(1,4,5) by simp
  have "forward_inv ts ?u" using assms(2) by (simp add: forward_inv_def)
  moreover have "ready_for a ?u" using assms(3) by (auto simp: ready_for_def split: option.splits)
  ultimately obtain i f where f: "map_of (uf_map (ensure_forwarder True a ?u)) a = Some i"
    "uf_forwarders (ensure_forwarder True a ?u) i = Some f" "fw_from f = a" "fw_runs f" "fw_inbound f = []"
    "uf_outbound (ensure_forwarder True a ?u) = uf_outbound u" "uf_writer (ensure_forwarder True a ?u) = uf_writer u"
    "uf_wr (ensure_forwarder True a ?u) = uf_wr u"
    using ready_forwarder [of ts ?u a] by auto
  let ?u1 = "(ensure_forwarder True a ?u)\<lparr>uf_forwarders := (uf_forwarders (ensure_forwarder True a ?u))(i \<mapsto> f\<lparr>fw_inbound := [d]\<rparr>)\<rparr>"
  let ?f = "f\<lparr>fw_inbound := [], fw_sent := fw_sent f @ [d]\<rparr>"
  have "udp_read_turn bc True u = Some (Inr (?t, ?u1))"
    using rd f(1-5) by (simp add: udp_read_turn_def deliver_packet_def UDP_SENDQ_SIZE_def)
  moreover have "forwarder_turn (FwInbound True) i ?u1 = Some (?u1\<lparr>uf_forwarders := (uf_forwarders ?u1)(i \<mapsto> ?f)\<rparr>)"
    using f(4) by (simp add: forwarder_turn_def)
  ultimately show ?thesis using f
    by (intro exI [of _ ?u1] exI [of _ "?u1\<lparr>uf_forwarders := (uf_forwarders ?u1)(i \<mapsto> ?f)\<rparr>"] exI [of _ i] exI [of _ ?f]) simp
qed

lemma client_returns_datagram:
  assumes "uf_forwarders u i = Some f" and "fw_runs f" and "uf_writer u" and "uf_outbound u = []"
    and "length (udp_wire bc \<lparr>ut_from = fw_from f, ut_data = take UDP_BUFFER_SIZE_client r\<rparr>) \<le> room (uf_wr u)"
  shows "\<exists>u1 u2. forwarder_turn (FwRecv (Some r)) i u = Some u1 \<and> udp_writer_turn bc u1 = Some u2 \<and>
    uf_outbound u2 = [] \<and>
    out (uf_wr u2) = out (uf_wr u) @ udp_wire bc \<lparr>ut_from = fw_from f, ut_data = take UDP_BUFFER_SIZE_client r\<rparr>"
  using assms by (simp add: forwarder_turn_def udp_writer_turn_def UDP_SENDQ_SIZE_def udp_write_wire)


section \<open>Concrete runs\<close>

definition demo_data_args :: run_data_channel_args where
  "demo_data_args = \<lparr>rd_session_key = demo_key, rd_remote_addr = addr_maybe_cached_new ''s:2333'',
     rd_socket_opts = socket_opts_none, rd_service = demo_client_service\<lparr>cs_proxy_protocol := Some ProxyV2\<rparr>\<rparr>"

abbreviation demo_data_hello :: packet_message where
  "demo_data_hello \<equiv> MHello (DataChannelHello CURRENT_PROTO_VERSION demo_key)"

definition demo_channel :: client_channel where
  "demo_channel = \<lparr>ch_conn = demo_conn (wire demo_bincode (MControl CreateDataChannel)), ch_args = demo_data_args,
     ch_spawned = 0, ch_cancelled = False\<rparr>"

lemma demo_path_fits:
  "length (wire demo_bincode demo_data_hello) \<le> 100"
  "fits demo_bincode demo_data_hello" "fits demo_bincode (start_forward_tcp demo_visitor)" "fits demo_bincode (MControl cmd)"
  by (cases cmd; simp add: wire_def frame_def demo_bincode_def fits_def length_demo_bytes demo_nonce_def demo_key_def
      utf8_def start_forward_tcp_def demo_visitor_def octets4_def demo_forward_def)+

lemma demo_header: "length (service_header (Some ProxyV2) demo_visitor (Some (V4 3 4))) = 28"
  by (simp add: service_header_def visitor_addr_def demo_visitor_def proxy_v2_signature_def sock_addr_from_def)

text \<open>A server with the session of the demonstration client, whose listener is bound.\<close>

lemma demo_listening:
  "\<exists>sv h se p. server_inv sv \<and> items (sv_channels sv) = {(demo_digest, demo_key, h)} \<and> sv_sessions sv (h_session h) = Some se \<and>
     se_ctl se \<and> se_pool se = TcpPool p \<and> tp_listener p = LAccepting \<and> tp_task p = PIdle \<and> tp_visitors p = [] \<and>
     tp_forwards p = [] \<and> se_req se = Suc 7 \<and> se_data se = [] \<and> 500 \<le> room (se_conn se)"
proof -
  obtain c sv h where hs: "items (sv_channels sv) = {(demo_digest, demo_key, h)}" "server_inv sv" "500 \<le> room c"
    "sv_sessions sv (h_session h) = Some (control_channel_handle_new c (demo_service ServiceTcp) (sc_heartbeat_interval demo_config))"
    using demo_handshake by blast
  let ?se = "control_channel_handle_new c (demo_service ServiceTcp) (sc_heartbeat_interval demo_config)"
  let ?p = "\<lparr>tp_listener = LAccepting, tp_visitors = [], tp_task = PIdle, tp_forwards = []\<rparr>"
  let ?sv = "sv\<lparr>sv_sessions := (sv_sessions sv)(h_session h \<mapsto> ?se\<lparr>se_pool := TcpPool ?p\<rparr>)\<rparr>"
  have "server_inv ?sv" by (rule inv_update_session [OF hs(2,4)]) simp
  with hs show ?thesis
    by (intro exI [of _ ?sv] exI [of _ h] exI [of _ "?se\<lparr>se_pool := TcpPool ?p\<rparr>"] exI [of _ ?p]) (simp add: demo_eval)
qed

theorem visitor_reaches_service_witness:
  "\<exists>sv h sv' se' p' ds' c l.
     server_loop demo_env ([SessionTurn (h_session h) (Ctl DataRequest),
         Connection demo_chance [] (demo_conn (wire demo_bincode demo_data_hello @ [9]))] @
       map (SessionTurn (h_session h)) [Listen (Accepted demo_visitor), Listen QueueReady, TcpPoolTurn, TcpPoolTurn]) sv = Done sv' \<and>
     items (sv_channels sv) = {(demo_digest, demo_key, h)} \<and> sv_sessions sv' (h_session h) = Some se' \<and>
     se_pool se' = TcpPool p' \<and> tp_forwards p' = [(ds', demo_visitor)] \<and> inp ds' = [9] \<and>
     run_data_channel demo_bincode demo_data_args [Inr (demo_conn (wire demo_bincode (start_forward_tcp demo_visitor) @ [1]))]
       (Inr (demo_conn [], Some (V4 3 4))) = ForwardingTcp c l \<and> inp c = [1] \<and>
     out l = service_header (Some ProxyV2) demo_visitor (Some (V4 3 4))"
proof -
  obtain sv h se p where s: "server_inv sv" "items (sv_channels sv) = {(demo_digest, demo_key, h)}"
    "sv_sessions sv (h_session h) = Some se" "se_ctl se" "se_pool se = TcpPool p" "tp_listener p = LAccepting"
    "tp_task p = PIdle" "tp_visitors p = []" "tp_forwards p = []" "se_req se = Suc 7" "se_data se = []" "500 \<le> room (se_conn se)"
    using demo_listening by blast
  have item: "(demo_digest, demo_key, h) \<in> items (sv_channels sv)" using s(2) by simp
  let ?dc = "demo_conn (wire demo_bincode (start_forward_tcp demo_visitor) @ [1])"
  have conn: "inp (demo_conn bs) = bs" "out (demo_conn bs) = []" "room (demo_conn bs) = 1000000" for bs
    by (simp_all add: demo_conn_def)
  have cl: "rd_session_key (ch_args demo_channel) = demo_key" "cs_type (rd_service (ch_args demo_channel)) = ServiceTcp"
    "retry_connect [Inr ?dc] = Inr ?dc" "cs_proxy_protocol (rd_service (ch_args demo_channel)) = Some ProxyV2"
    "ch_args demo_channel = demo_data_args"
    "inp (ch_conn demo_channel) = wire demo_bincode (MControl CreateDataChannel) @ []"
    by (simp_all add: demo_channel_def demo_data_args_def demo_client_fields conn)
  note small = demo_wire_fits(1) [of CreateDataChannel] demo_wire_fits(2) demo_path_fits demo_header
  note path = visitor_reaches_service [OF s(1) demo_env_ok _ item s(3-8,10,11) cl(1-3) conn(2) conn(2),
      where v = demo_visitor and own = "Some (V4 3 4)" and lc = "demo_conn []" and more_commands = "[]" and rnd = demo_chance
        and services = "[]" and from_service = "[9]" and from_visitor = "[1]" and hb = 40]
  show ?thesis by (rule exI [of _ sv], rule exI [of _ h]) (use path s small conn cl demo_bincode_ok in auto)
qed

lemma demo_udp_wire:
  "length (udp_wire demo_bincode \<lparr>ut_from = V4 1 2, ut_data = d\<rparr>) \<le> 100 + length d"
  by (simp add: udp_wire_def demo_bincode_def demo_hdr_def length_demo_bytes)


end
