(* ===== verification/Spec2Isabelle.thy ===== *)
theory Spec2Isabelle
  imports Udp_Open Program Forwarding
begin

text \<open>
  \<^bold>\<open>Verification of rathole-ng.\<close>

  rathole-ng publishes a service that runs behind NAT. A \<^emph>\<open>client\<close> beside the service keeps a
  control channel to a public \<^emph>\<open>server\<close>; the server listens on the public address and, for every
  visitor, asks the client over the control channel for a \<^emph>\<open>data channel\<close>, which it splices to the
  visitor. Both roles are one binary, driven by one configuration file that is watched for changes.

  \<^bold>\<open>The parts and their theories\<close>, in the order of their dependence (paths are under
  \<open>src/src/\<close>):

  \<^item> \<open>Prelude\<close>: types and lemmas shared by all: bytes, big-endian words, sorted key lists as the
    model of \<open>BTreeMap\<close>, insertion-ordered ones as that of \<open>HashMap\<close>, and the collections
    \<open>map_laws\<close>, \<open>map_invs\<close> and \<open>wire_simps\<close>.
  \<^item> \<open>Reliability\<close> (\<open>transport/reliability.rs\<close>): packet headers, per-stream state, cumulative
    and selective acknowledgements, reassembly, the retransmission timer.
  \<^item> \<open>Udp_Transport\<close> (\<open>transport/udp.rs\<close>): the state behind a stream's lock, its task,
    \<open>poll_read\<close>, \<open>poll_write\<close>, \<open>poll_shutdown\<close>, the packet dispatch of the listener and the
    connect loop. \<open>Udp_Channel\<close>: two such endpoints and the network between them, as a step relation.
    \<open>Udp_Open\<close>: \<open>connect\<close> and \<open>accept\<close>, and how the two ends open a stream.
  \<^item> \<open>Multi_Map\<close> (\<open>multi_map.rs\<close>): the map with two keys, as the raw-pointer code over an explicit
    heap, and its abstract specification.
  \<^item> \<open>Rust_Str\<close>: the string functions of the standard library the program uses (\<open>trim\<close>, \<open>split\<close>,
    \<open>parse::<u16>\<close>, decimal printing). \<open>Net_Addr\<close>: \<open>std::net\<close> addresses, parsing and printing.
  \<^item> \<open>Config\<close> (\<open>config.rs\<close>): the configuration records, their defaults and their validation.
    \<open>Config_Watcher\<close> (\<open>config_watcher.rs\<close>): the events that lead from one file to the next.
  \<^item> \<open>Transport_Layer\<close> (\<open>transport/mod.rs\<close>, \<open>transport/tcp.rs\<close>, \<open>helper.rs\<close>): socket options,
    cached addresses, the TCP transport, the outgoing proxy, the choice of addresses for UDP.
  \<^item> \<open>Protocol\<close> (\<open>protocol.rs\<close>): the messages, their framing, and the readers of the handshakes.
  \<^item> \<open>Server_Channel\<close> (\<open>server.rs\<close> from \<open>ControlChannelHandle::new\<close> on): the three tasks of a
    control channel, with the channels between them. \<open>Server\<close> (the rest of \<open>server.rs\<close>): the
    service table, the handshakes, the accept loop, hot reload, and \<open>Server::run\<close> from binding to shutdown.
  \<^item> \<open>Client_Data\<close> (\<open>client.rs\<close> up to \<open>run_udp_forwarder\<close>): data channels, PROXY headers, UDP
    forwarding. \<open>Client\<close> (the rest of \<open>client.rs\<close>): control channels of both modes, their retrying
    tasks and retry policy, hot reload and shutdown. \<open>Forwarding\<close>: server and client at work together, from a
    visitor to the local service.
  \<^item> \<open>Instance\<close> (\<open>lib.rs\<close>, \<open>transport/noise.rs\<close>, \<open>run_server\<close>, \<open>run_client\<close>): the choice of role
    and transport, the keys of the Noise transport, the loop that starts, updates and restarts
    instances. \<open>Program\<close> (\<open>cli.rs\<close>, \<open>run\<close> and \<open>genkey\<close> of \<open>lib.rs\<close>, the file-system side of
    \<open>config_watcher.rs\<close>): the arguments, the watched file and the run as a whole.
  \<^item> This theory: the properties that need several of the components.

  \<^bold>\<open>How the model corresponds to the code.\<close> A struct is a record and an enum a datatype, with the
  source's names (a suffix where HOL has the name already). A function that fails returns
  \<open>error + 'a\<close>; what would be a panic or undefined behaviour is a value of its own, so that its absence
  is a theorem. A connection is a pair of byte lists: all the bytes the peer will ever send, then
  end of file, and the bytes written so far, with a bound on how many the system still accepts.
  Asynchronous code is cut into turns: one turn is what a task does between two points at which
  another task may run, and a system is a step relation over the turns of its tasks, so that theorems
  about reachable states hold for every interleaving. Bounded queues keep their capacity, and a
  send on a full queue is a turn that does not happen. Integers of the wire format and of the
  reliability layer are words of their width.

  \<^bold>\<open>Interfaces.\<close> The contracts between components are locales, each interpreted on the model's own
  definitions: \<open>finite_map\<close> (Prelude), the maps the reliability layer, the configuration and the server keep,
  interpreted for the \<open>BTreeMap\<close> and the \<open>HashMap\<close> model; \<open>stream_codec\<close> (Prelude), a coding that
  can be read off the front of a stream, interpreted for the packet header and for the frames of
  the protocol; \<open>two_key_map\<close> (Multi_Map), what the server relies on of its table of control channels,
  interpreted for the raw-pointer map; \<open>instance_config\<close> (Config_Watcher), what the watcher needs to know of
  the configuration of a role, interpreted for the server's and the client's.

  \<^bold>\<open>What is shown.\<close> Of the UDP transport: what is read is a prefix of what was written, nothing is lost
  in reliable mode, one round of retransmission recovers everything, acknowledgements and reassembly are
  exact. Of the two-key map: it refines a map with two unique keys and never follows a dangling
  pointer. Of the configuration: what loads is complete, port lists mean what they say, the watcher's events
  replay to the last valid file. Of the protocol: messages survive the stream and truncation is
  noticed. Of the server: no control channel without a proof of the token, tasks run exactly as long as
  their handle is in the table, visitors are served in order, the pool of data channels is kept full, data
  channels reach the session that asked for them, hot reload gives the table a restart would give. Of
  the client: it runs the configured services, forwards datagrams without mixing visitors, and tells the
  truth in PROXY headers. Of all together: a client and a server with the same token establish a
  tunnel, a visitor of a TCP service reaches it through both programs, a datagram and its answer make the way there
  and back, both ends of a visitor handshake come to the same result, a UDP connection opens once a packet
  and its answer get through, the messages of the protocol survive the UDP transport, a server that is stopped
  leaves no session behind, and the program runs what the last valid version of its file says, down to the
  server's table.

  \<^bold>\<open>Parameters.\<close> Code that is not part of the repository is an argument of the definitions: the AEAD
  cipher, \<open>bincode\<close>, SHA-256, the TOML reader, name resolution, random numbers, the allocator,
  base64, the parser of Noise patterns and the Noise handshake, the proxy client, the delays of a retry policy,
  the notifications of the file system. What is relied on is a named hypothesis (that
  decoding inverts encoding and rejects truncated input, that an allocator does not return an address in
  use, that digests of the services at hand do not collide), and each theorem with such a hypothesis
  is applied to concrete functions in its witness.

  \<^bold>\<open>Bounds.\<close> Sequence numbers are 64 bits wide and the theorems on them assume fewer than
  $2^{64}-1$ packets on one stream, which no stream reaches. Arithmetic wraps as it does in a release
  build. A handler reads the clock once. Strings are lists of code points below 256. The connect loop is given
  fuel, and 52 turns are shown to be enough; every other function is total.

  \<^bold>\<open>Not modelled.\<close> The handshake and encryption inside the \<open>snowstorm\<close> crate, the arithmetic of the
  exponential back-off inside the \<open>backoff\<close> crate, system calls that create and configure sockets (among them the one for
  Windows in \<open>helper.rs\<close>), the copy loop of \<open>tokio\<close>, \<open>main.rs\<close> (argument parsing by \<open>clap\<close>, logging, the
  ctrl-c handler), the watcher of a build without \<open>notify\<close>, which only waits, \<open>PacketLength\<close> in \<open>protocol.rs\<close>, which nothing
  uses, the build script, and the tests.
\<close>

section \<open>A tunnel is established\<close>

text \<open>The key of a session and what the two ends say to each other before it.\<close>

definition session_key :: "env \<Rightarrow> client_service_config \<Rightarrow> digest \<Rightarrow> digest" where
  "session_key en service nonce = en_sha en (token_bytes (cs_token service) @ nonce)"

definition said_by_client :: "env \<Rightarrow> client_service_config \<Rightarrow> digest \<Rightarrow> packet_message list" where
  "said_by_client en service nonce =
     [MHello (ControlChannelHello CURRENT_PROTO_VERSION (client_service_digest (en_sha en) service)),
      MAuth (session_key en service nonce)]"

definition said_by_server :: "digest \<Rightarrow> packet_message list" where
  "said_by_server nonce = [MHello (ControlChannelHello CURRENT_PROTO_VERSION nonce), MAck AckOk]"

definition wires :: "bincode \<Rightarrow> packet_message list \<Rightarrow> bytes" where
  "wires bc ms = concat (map (wire bc) ms)"

text \<open>Room for everything either side may have to say.\<close>

definition roomy :: "bincode \<Rightarrow> packet_message list \<Rightarrow> conn \<Rightarrow> bool" where
  "roomy bc ms c \<longleftrightarrow> length (wires bc (ms @ [MAck AckServiceNotExist, MAck AckAuthFailed])) \<le> room c"

text \<open>The server's half: what its end of the control connection does on the client's messages.\<close>

lemma server_accepts_client:
  assumes "server_inv sv" and "env_ok en" and "bincode_ok (en_bc en)"
    and "\<forall>m \<in> set (said_by_client en service (rnd_nonce rnd)). fits (en_bc en) m"
    and "map_of services (client_service_digest (en_sha en) service) = Some ss" and "ss_token ss = cs_token service"
    and "inp c = wires (en_bc en) (said_by_client en service (rnd_nonce rnd)) @ rest"
    and "roomy (en_bc en) (said_by_server (rnd_nonce rnd)) c"
    and "\<not> key_taken (client_service_digest (en_sha en) service) (session_key en service (rnd_nonce rnd)) sv"
  shows "\<exists>c' sv'. handle_connection en rnd services c sv = Done (Inr (), c', sv') \<and> server_inv sv' \<and>
    out c' = out c @ wires (en_bc en) (said_by_server (rnd_nonce rnd)) \<and>
    (client_service_digest (en_sha en) service, session_key en service (rnd_nonce rnd),
      \<lparr>h_session = sv_next sv, h_service = ss\<rparr>) \<in> items (sv_channels sv') \<and>
    sv_sessions sv' (sv_next sv) =
      Some (control_channel_handle_new c' ss (sc_heartbeat_interval (sv_config sv)))"
proof -
  let ?d = "client_service_digest (en_sha en) service"
  let ?k = "session_key en service (rnd_nonce rnd)"
  let ?c = "c\<lparr>inp := wire (en_bc en) (MAuth ?k) @ rest\<rparr>"
  have fit: "fits (en_bc en) (MHello (ControlChannelHello CURRENT_PROTO_VERSION ?d))" "fits (en_bc en) (MAuth ?k)"
    using assms(4) by (simp_all add: said_by_client_def)
  have hello: "read_hello (en_bc en) c = (Inr (ControlChannelHello CURRENT_PROTO_VERSION ?d), ?c)"
    using assms(7) by (intro read_hello_wire [OF assms(3) fit(1)]) (simp_all add: wires_def said_by_client_def)
  have "inp ?c = wire (en_bc en) (MAuth ?k) @ rest" by simp
  from control_channel_auth_run [OF assms(3) fit(2) this, of "rnd_nonce rnd" services ?d] assms(5,6,8)
  obtain c1 where auth: "control_channel_auth en (rnd_nonce rnd) services ?d ?c = (Inr (ss, ?k), c1)"
    and out1: "out c1 = out c @ wire (en_bc en) (MHello (ControlChannelHello CURRENT_PROTO_VERSION (rnd_nonce rnd)))"
    and big: "length (wire (en_bc en) (MAck AckOk)) \<le> room c1"
    by (fastforce simp: session_key_def roomy_def wires_def said_by_server_def)
  note w = write_wire [OF big]
  from control_channel_install [OF assms(1,2) auth] w assms(9) out1 hello show ?thesis
    by (auto simp: handle_connection_def wires_def said_by_server_def)
qed

text \<open>
  C7: client and server with the same token establish a tunnel. Let the two ends of a control
  connection run their handshakes, the client for a service the server has with the same token. Then both
  succeed, each reads exactly what the other writes, both hold the same session key, and the server's table has
  the service's channel under that key with its tasks started. When the client then opens a data connection,
  what it writes brings that connection to the queue of this very session, with the bytes that follow still to
  be read.
\<close>

theorem tunnel_established:
  assumes "server_inv sv" and "env_ok en" and "bincode_ok (en_bc en)" and "nonce = rnd_nonce rnd"
    and "key = session_key en service nonce" and "digest = client_service_digest (en_sha en) service"
    and "\<forall>m \<in> set (said_by_client en service nonce @ said_by_server nonce @
       [MHello (DataChannelHello CURRENT_PROTO_VERSION key)]). fits (en_bc en) m"
    and "map_of services digest = Some ss" and "ss_token ss = cs_token service" and "\<not> key_taken digest key sv"
    and "out cc = []" and "out sc = []"
    and "inp cc = wires (en_bc en) (said_by_server nonce) @ commands"
    and "inp sc = wires (en_bc en) (said_by_client en service nonce)"
    and "roomy (en_bc en) (said_by_client en service nonce) cc" and "roomy (en_bc en) (said_by_server nonce) sc"
    and "rd_session_key args = key" and "retry_connect attempts = Inr dc" and "out dc = []"
    and "length (wire (en_bc en) (MHello (DataChannelHello CURRENT_PROTO_VERSION key))) \<le> room dc"
  shows "\<exists>cc' sc' sv' h.
    client_control_handshake (en_sha en) (en_bc en) service cc = (Inr key, cc') \<and>
    handle_connection en rnd services sc sv = Done (Inr (), sc', sv') \<and>
    inp sc = out cc' \<and> inp cc = out sc' @ commands \<and> inp cc' = commands \<and>
    (digest, key, h) \<in> items (sv_channels sv') \<and> h_service h = ss \<and>
    sv_sessions sv' (h_session h) = Some (control_channel_handle_new sc' ss (sc_heartbeat_interval (sv_config sv))) \<and>
    (\<exists>dc'. client_data_channel_handshake (en_bc en) args attempts = (Inr (), Some dc') \<and>
       (\<forall>ds rnd' services' data. inp ds = out dc' @ data \<longrightarrow>
          (\<exists>ds' sv'' se. handle_connection en rnd' services' ds sv' = Done (Inr (), ds', sv'') \<and>
             sv_sessions sv'' (h_session h) = Some se \<and> se_data se = [ds'] \<and> inp ds' = data)))"
proof -
  let ?bc = "en_bc en"
  let ?h = "\<lparr>h_session = sv_next sv, h_service = ss\<rparr>"
  have fit: "fits ?bc (MHello (ControlChannelHello CURRENT_PROTO_VERSION nonce))" "fits ?bc (MAck AckOk)"
    "fits ?bc (MHello (DataChannelHello CURRENT_PROTO_VERSION key))"
    "\<forall>m \<in> set (said_by_client en service (rnd_nonce rnd)). fits ?bc m"
    using assms(4,7) by (auto simp: said_by_server_def)
  obtain cc' where client: "client_control_handshake (en_sha en) ?bc service cc = (Inr key, cc')"
    "inp cc' = commands" "out cc' = wires ?bc (said_by_client en service nonce)"
    using client_handshake_exact [OF assms(3) fit(1,2), of cc commands "en_sha en" service] assms(5,11,13,15)
    by (auto simp: wires_def said_by_server_def said_by_client_def session_key_def roomy_def)
  obtain sc' sv' where srv: "handle_connection en rnd services sc sv = Done (Inr (), sc', sv')" "server_inv sv'"
    "out sc' = wires ?bc (said_by_server nonce)" "(digest, key, ?h) \<in> items (sv_channels sv')"
    "sv_sessions sv' (sv_next sv) = Some (control_channel_handle_new sc' ss (sc_heartbeat_interval (sv_config sv)))"
    using server_accepts_client [OF assms(1-3) fit(4), of services ss sc "[]"] assms(4-6,8-10,12,14,16) by auto
  obtain dc' where data: "client_data_channel_handshake ?bc args attempts = (Inr (), Some dc')"
    "out dc' = wire ?bc (MHello (DataChannelHello CURRENT_PROTO_VERSION key))"
    using assms(17-20) by (auto simp: client_data_channel_handshake_def write_wire hint_def)
  have fresh: "\<not> pool_ended (control_channel_handle_new sc' ss hb)" "se_data (control_channel_handle_new sc' ss hb) = []" for hb
    by (simp_all add: control_channel_handle_new_def pool_ended_def split: service_type.splits)
  have "\<exists>ds' sv'' se. handle_connection en rnd' services' ds sv' = Done (Inr (), ds', sv'') \<and>
      sv_sessions sv'' (sv_next sv) = Some se \<and> se_data se = [ds'] \<and> inp ds' = rest"
    if "inp ds = out dc' @ rest" for ds rnd' services' rest
    using data_connection_queued [OF srv(2) assms(3) fit(3) srv(4), of _ ds rest rnd' services'] srv(5) fresh that data(2)
    by (fastforce simp: CHAN_SIZE_def)
  with client srv data(1) assms(13,14) show ?thesis
    by (intro exI [of _ cc'] exI [of _ sc'] exI [of _ sv'] exI [of _ ?h]) auto
qed

theorem tunnel_established_witness:
  "\<exists>cc' sc' sv' h dc'.
     client_control_handshake (en_sha demo_env) demo_bincode demo_client_service
       (demo_conn (wires demo_bincode (said_by_server demo_nonce))) = (Inr demo_key, cc') \<and>
     handle_connection demo_env demo_chance (sv_services demo_sv) demo_client_conn demo_sv = Done (Inr (), sc', sv') \<and>
     out cc' = inp demo_client_conn \<and> (demo_digest, demo_key, h) \<in> items (sv_channels sv') \<and>
     client_data_channel_handshake demo_bincode
       \<lparr>rd_session_key = demo_key, rd_remote_addr = addr_maybe_cached_new ''s:2333'', rd_socket_opts = socket_opts_none, rd_service = demo_client_service\<rparr>
       [Inl ConnectFailed, Inr (demo_conn [])] = (Inr (), Some dc')"
proof -
  have key: "session_key demo_env demo_client_service demo_nonce = demo_key"
    by (simp add: session_key_def demo_client_fields token_bytes_def demo_key_def)
  have digest: "client_service_digest (en_sha demo_env) demo_client_service = demo_digest"
    by (simp add: client_service_digest_def demo_client_fields demo_digest_def)
  have up: "inp demo_client_conn = wires demo_bincode (said_by_client demo_env demo_client_service demo_nonce)"
    using digest key by (simp add: demo_client_conn_def demo_conn_def said_by_client_def wires_def CURRENT_PROTO_VERSION_def)
  have small: "length (wire demo_bincode (MHello (DataChannelHello v demo_key))) \<le> 100"
    "length (wire demo_bincode (MAuth demo_key)) \<le> 100"
    "length (wire demo_bincode (MHello (ControlChannelHello v demo_digest))) \<le> 100"
    "fits demo_bincode (MHello (DataChannelHello v demo_key))" "fits demo_bincode (MAck AckOk)"
    "fits demo_bincode (MHello (ControlChannelHello v demo_nonce))" for v
    by (simp_all add: wire_def frame_def demo_bincode_def fits_def length_demo_bytes demo_nonce_def demo_key_def
        demo_digest_def utf8_def)
  have room: "room demo_client_conn = 1000000" "out demo_client_conn = []" "rnd_nonce demo_chance = demo_nonce"
    by (simp_all add: demo_client_conn_def demo_conn_def demo_chance_def)
  have roomy: "roomy demo_bincode (said_by_client demo_env demo_client_service demo_nonce) c"
    "roomy demo_bincode (said_by_server demo_nonce) c" if "room c = 1000000" for c
    using that small(2) small(3) [of CURRENT_PROTO_VERSION] demo_small(2) [of CURRENT_PROTO_VERSION]
      demo_small(1) [of AckServiceNotExist] demo_small(1) [of AckAuthFailed] demo_small(1) [of AckOk] digest key
    by (simp_all add: roomy_def wires_def said_by_client_def said_by_server_def)
  have conn: "inp (demo_conn bs) = bs" "out (demo_conn bs) = []" "room (demo_conn bs) = 1000000" for bs
    by (simp_all add: demo_conn_def)
  have fit: "\<forall>m \<in> set (said_by_client demo_env demo_client_service demo_nonce @ said_by_server demo_nonce @
      [MHello (DataChannelHello CURRENT_PROTO_VERSION demo_key)]). fits (en_bc demo_env) m"
    using small(4,6) [of CURRENT_PROTO_VERSION] small(5) demo_small(3) demo_small(4) [of CURRENT_PROTO_VERSION] key digest
    by (simp add: said_by_client_def said_by_server_def)
  have service: "map_of (sv_services demo_sv) demo_digest = Some (demo_service ServiceTcp)"
    "ss_token (demo_service ServiceTcp) = cs_token demo_client_service"
    by (simp add: demo_sv_fields) (simp add: demo_service_def demo_client_fields)
  show ?thesis
    using tunnel_established [OF demo_sv_inv demo_env_ok _ room(3) [symmetric] key [symmetric] digest [symmetric] fit
        service demo_not_taken conn(2) room(2) _ _ _ _ _ _ conn(2),
        of "wires demo_bincode (said_by_server demo_nonce)" "[]"
        "\<lparr>rd_session_key = demo_key, rd_remote_addr = addr_maybe_cached_new ''s:2333'', rd_socket_opts = socket_opts_none,
          rd_service = demo_client_service\<rparr>" "[Inl ConnectFailed, Inr (demo_conn [])]" "[]"]
      demo_bincode_ok up roomy room(1) conn small(1) [of CURRENT_PROTO_VERSION]
    by (auto simp del: demo_sv_fields)
qed

section \<open>The visitor handshake\<close>

text \<open>The server's answer to a visitor's claim, what either end makes of it, and what the server sends with it.\<close>

definition visitor_answer :: "env \<Rightarrow> server_config \<Rightarrow> digest \<Rightarrow> visitor_auth \<Rightarrow> visitor_ack" where
  "visitor_answer en cfg challenge auth =
     (case find_visitor_user (en_sha en) (sc_users cfg) challenge (va_token_digest auth) of
        None \<Rightarrow> VisitorAuthFailed
      | Some (_, uc) \<Rightarrow>
          (case parse_sock_addr (va_bind_addr auth) of
             None \<Rightarrow> VisitorBindError
           | Some a \<Rightarrow> if is_port_allowed (uc_allowed_ports uc) (sa_port a) then VisitorOk else VisitorPortDenied))"

fun visitor_result :: "visitor_ack \<Rightarrow> 'a \<Rightarrow> net_error + 'a" where
  "visitor_result VisitorOk x = Inr x"
| "visitor_result VisitorAuthFailed x = Inl AuthFailure"
| "visitor_result VisitorPortDenied x = Inl PortNotAllowed"
| "visitor_result VisitorBindError x = Inl BadBindAddr"

definition visitor_reply :: "visitor_ack \<Rightarrow> digest \<Rightarrow> packet_message list" where
  "visitor_reply a session = MVisitorAck a # (if a = VisitorOk then [MAuth session] else [])"

definition visitor_claim :: "env \<Rightarrow> client_service_config \<Rightarrow> string \<Rightarrow> digest \<Rightarrow> visitor_auth" where
  "visitor_claim en service bind_addr challenge =
     \<lparr>va_token_digest = en_sha en (token_bytes (cs_token service) @ challenge), va_bind_addr = bind_addr,
      va_service_type = cs_type service\<rparr>"

text \<open>The server's half up to the lock.\<close>

lemma visitor_channel_auth_run:
  assumes "bincode_ok (en_bc en)" and "fits (en_bc en) (MVisitorAuth auth)"
    and "inp c = wire (en_bc en) (MVisitorAuth auth) @ rest"
    and "length challenge + length (wires (en_bc en) (visitor_reply (visitor_answer en cfg challenge auth) session)) \<le> room c"
  shows "\<exists>c' u. visitor_channel_auth en challenge session cfg c =
      (visitor_result (visitor_answer en cfg challenge auth) (fst u, snd u, auth), c') \<and>
    out c' = out c @ challenge @ wires (en_bc en) (visitor_reply (visitor_answer en cfg challenge auth) session)"
proof -
  have read: "read_visitor_auth (en_bc en) c1 = (Inr auth, c1\<lparr>inp := rest\<rparr>)" if "inp c1 = inp c" for c1
    using read_wire [OF assms(1,2), of c1 rest] that assms(3) by (simp add: read_visitor_auth_def io_bind_def io_return_def)
  note sims = visitor_channel_auth_def visitor_answer_def visitor_reply_def wires_def io_bind_def write_all_def hint_def
    io_fail_def io_return_def
  show ?thesis
  proof (cases "find_visitor_user (en_sha en) (sc_users cfg) challenge (va_token_digest auth)")
    case None
    with assms(4) show ?thesis by (simp add: sims read write_wire)
  next
    case (Some u)
    obtain n uc where u: "u = (n, uc)" by (cases u)
    show ?thesis
    proof (cases "parse_sock_addr (va_bind_addr auth)")
      case None
      with Some u assms(4) show ?thesis by (simp add: sims read write_wire)
    next
      case (Some a)
      with \<open>find_visitor_user _ _ _ _ = Some u\<close> u assms(4) show ?thesis
        by (cases "is_port_allowed (uc_allowed_ports uc) (sa_port a)") (auto simp: sims read write_wire)
    qed
  qed
qed

text \<open>The client's half, for whatever answer it gets.\<close>

lemma client_visitor_run:
  assumes "bincode_ok bc" and "\<forall>m \<in> set (visitor_reply a session). fits bc m" and "length challenge = HASH_WIDTH_IN_BYTES"
    and "inp c = challenge @ wires bc (visitor_reply a session) @ rest"
    and "auth = \<lparr>va_token_digest = sha (token_bytes (cs_token service) @ challenge), va_bind_addr = bind_addr,
      va_service_type = cs_type service\<rparr>"
    and "length (wires bc [MHello (VisitorHello CURRENT_PROTO_VERSION pad), MVisitorAuth auth]) \<le> room c"
  shows "\<exists>c'. client_visitor_handshake sha bc pad service bind_addr c = (visitor_result a session, c') \<and> inp c' = rest \<and>
    out c' = out c @ wires bc [MHello (VisitorHello CURRENT_PROTO_VERSION pad), MVisitorAuth auth]"
proof -
  let ?r = "if a = VisitorOk then wire bc (MAuth session) @ rest else rest"
  have ack: "read_visitor_ack bc c1 = (Inr a, c1\<lparr>inp := ?r\<rparr>)"
    if "inp c1 = wires bc (visitor_reply a session) @ rest" for c1
    using read_wire [OF assms(1), of "MVisitorAck a" c1 ?r] that assms(2)
    by (auto simp: read_visitor_ack_def io_bind_def io_return_def visitor_reply_def wires_def)
  have key: "read_auth bc c1 = (Inr session, c1\<lparr>inp := rest\<rparr>)"
    if "a = VisitorOk" "inp c1 = wire bc (MAuth session) @ rest" for c1
    using read_wire [OF assms(1), of "MAuth session" c1 rest] that assms(2)
    by (simp add: read_auth_def io_bind_def io_return_def visitor_reply_def)
  show ?thesis
    using assms(3-6)
    by (cases a) (auto simp: client_visitor_handshake_def io_bind_def write_wire hint_def read_exact_def write_visitor_auth_def
        wires_def ack [unfolded wires_def] key io_fail_def)
qed

text \<open>
  C10: the two ends of a visitor handshake agree. Let a client claim an address with its token, over a connection
  on which each end reads what the other writes. The server answers by the user whose token fits the challenge,
  the form of the address, and that user's list of ports; the client comes to the same result as the
  server, with the session key on success and the same error otherwise. On success the table has the visitor's
  channel under the session key; otherwise the server is as it was.
\<close>

theorem visitor_handshake_agreement:
  assumes "server_inv sv" and "env_ok en" and "bincode_ok (en_bc en)"
    and "challenge = rnd_challenge rnd" and "session = rnd_session rnd" and "length challenge = HASH_WIDTH_IN_BYTES"
    and "auth = visitor_claim en service bind_addr challenge" and "answer = visitor_answer en (sv_config sv) challenge auth"
    and "said = [MHello (VisitorHello CURRENT_PROTO_VERSION pad), MVisitorAuth auth]"
    and "\<forall>m \<in> set (said @ visitor_reply answer session). fits (en_bc en) m"
    and "inp sc = wires (en_bc en) said" and "inp cc = challenge @ wires (en_bc en) (visitor_reply answer session) @ commands"
    and "out sc = []" and "out cc = []" and "length (wires (en_bc en) said) \<le> room cc"
    and "length challenge + length (wires (en_bc en) (visitor_reply answer session)) \<le> room sc"
    and "\<forall>d. \<not> key_taken d session sv"
  shows "\<exists>cc' sc' sv'.
    client_visitor_handshake (en_sha en) (en_bc en) pad service bind_addr cc = (visitor_result answer session, cc') \<and>
    handle_connection en rnd services sc sv = Done (visitor_result answer (), sc', sv') \<and>
    out cc' = inp sc \<and> inp cc = out sc' @ commands \<and> inp cc' = commands \<and> server_inv sv' \<and>
    (if answer = VisitorOk
     then \<exists>user uc h. (visitor_digest (en_sha en) user bind_addr, session, h) \<in> items (sv_channels sv') \<and>
       h_service h = visitor_service user uc auth \<and> (user, uc) \<in> set (sc_users (sv_config sv)) \<and>
       en_sha en (token_bytes (uc_token uc) @ challenge) = en_sha en (token_bytes (cs_token service) @ challenge)
     else sv' = sv)"
proof -
  let ?bc = "en_bc en"
  let ?c = "sc\<lparr>inp := wire ?bc (MVisitorAuth auth)\<rparr>"
  obtain cc' where cl: "client_visitor_handshake (en_sha en) ?bc pad service bind_addr cc = (visitor_result answer session, cc')"
    "inp cc' = commands" "out cc' = wires ?bc said"
    using client_visitor_run [OF assms(3) _ assms(6,12), of auth "en_sha en" service bind_addr pad] assms(7,9,10,14,15)
    by (auto simp: visitor_claim_def)
  have hello: "read_hello ?bc sc = (Inr (VisitorHello CURRENT_PROTO_VERSION pad), ?c)"
    using assms(9-11) by (intro read_hello_wire [OF assms(3)]) (simp_all add: wires_def)
  have "\<exists>c' u. visitor_channel_auth en challenge session (sv_config sv) ?c =
        (visitor_result answer (fst u, snd u, auth), c') \<and> out c' = out ?c @ challenge @ wires ?bc (visitor_reply answer session)"
    using assms(9,10,16) unfolding assms(8) by (intro visitor_channel_auth_run [OF assms(3), where rest = "[]"]) simp_all
  then obtain c' u where auth: "visitor_channel_auth en challenge session (sv_config sv) ?c =
        (visitor_result answer (fst u, snd u, auth), c')" "out c' = challenge @ wires ?bc (visitor_reply answer session)"
    using assms(13) by auto
  show ?thesis
  proof (cases "answer = VisitorOk")
    case False
    then obtain e where e: "visitor_result answer x = Inl e" for x :: "string \<times> user_config \<times> visitor_auth"
      by (cases answer) auto
    have "visitor_result answer () = Inl e" using e False by (cases answer) auto
    then have "handle_connection en rnd services sc sv = Done (visitor_result answer (), c', sv)"
      using hello auth(1) e assms(4,5) by (simp add: handle_connection_def do_visitor_channel_handshake_def)
    with cl auth(2) False assms(1,11,12) show ?thesis by auto
  next
    case True
    then have ok: "visitor_channel_auth en challenge session (sv_config sv) ?c = (Inr (fst u, snd u, auth), c')"
      using auth(1) by simp
    note user = find_visitor_user_Some [OF visitor_channel_auth_Inr(1) [OF ok]]
    from visitor_channel_install [OF assms(1,2) ok]
    obtain sv' where sv': "do_visitor_channel_handshake en challenge session ?c sv = Some (Inr (), c', sv')" "server_inv sv'"
      "(visitor_digest (en_sha en) (fst u) bind_addr, session,
        \<lparr>h_session = sv_next sv, h_service = visitor_service (fst u) (snd u) auth\<rparr>) \<in> items (sv_channels sv')"
      using assms(7,17) by (auto simp: visitor_claim_def)
    have "handle_connection en rnd services sc sv = Done (visitor_result answer (), c', sv')"
      using hello sv'(1) True assms(4,5) by (simp add: handle_connection_def)
    with cl auth(2) True assms(7,11,12) sv'(2,3) user show ?thesis
      by (intro exI [of _ cc'] exI [of _ c'] exI [of _ sv']) (force simp: visitor_claim_def)
  qed
qed

text \<open>A visitor that asks for a port it may use, and one that may not.\<close>

definition demo_visit :: chance where
  "demo_visit = demo_chance\<lparr>rnd_challenge := replicate 32 4\<rparr>"

lemma demo_parse:
  "parse_sock_addr ''0.0.0.0:8080'' = Some (V4 0 8080)" "parse_sock_addr ''0.0.0.0:80'' = Some (V4 0 80)"
proof -
  have zero: "octets4 0 = [0, 0, 0, 0]" by code_simp
  have "show_sock_addr (V4 0 8080) = ''0.0.0.0:8080''" "show_sock_addr (V4 0 80) = ''0.0.0.0:80''"
    by (simp_all add: show_ipv4_def zero show_nat.simps digit_char_literals)
  then show "parse_sock_addr ''0.0.0.0:8080'' = Some (V4 0 8080)" "parse_sock_addr ''0.0.0.0:80'' = Some (V4 0 80)"
    by (metis parse_show_ipv4)+
qed

lemma demo_ports: "is_port_allowed ''8000-9000'' 8080" "\<not> is_port_allowed ''8000-9000'' 80"
proof -
  have "render_item (Range 8000 9000) = ''8000-9000''" by (simp add: show_nat.simps digit_char_literals)
  then have "part_allows p ''8000-9000'' \<longleftrightarrow> 8000 \<le> p \<and> p \<le> 9000" for p
    using part_allows_render [of "[]" "[]" p "Range 8000 9000"] by simp
  then show "is_port_allowed ''8000-9000'' 8080" "\<not> is_port_allowed ''8000-9000'' 80" by (simp_all add: is_port_allowed_def)
qed

lemma demo_answers:
  "visitor_answer demo_env demo_config (replicate 32 4)
     (visitor_claim demo_env demo_client_service ''0.0.0.0:8080'' (replicate 32 4)) = VisitorOk"
  "visitor_answer demo_env demo_config (replicate 32 4)
     (visitor_claim demo_env demo_client_service ''0.0.0.0:80'' (replicate 32 4)) = VisitorPortDenied"
  by (simp_all add: visitor_answer_def find_visitor_user_def demo_config_def visitor_claim_def demo_client_fields demo_parse demo_ports)

definition demo_visitor_said :: "string \<Rightarrow> packet_message list" where
  "demo_visitor_said b = [MHello (VisitorHello CURRENT_PROTO_VERSION []),
     MVisitorAuth (visitor_claim demo_env demo_client_service b (replicate 32 4))]"

theorem visitor_handshake_agreement_witness:
  "(\<exists>cc' sc' sv' h. client_visitor_handshake (en_sha demo_env) demo_bincode [] demo_client_service ''0.0.0.0:8080''
       (demo_conn (replicate 32 4 @ wires demo_bincode (visitor_reply VisitorOk [5]))) = (Inr [5], cc') \<and>
     handle_connection demo_env demo_visit [] (demo_conn (wires demo_bincode (demo_visitor_said ''0.0.0.0:8080''))) demo_sv =
       Done (Inr (), sc', sv') \<and>
     (visitor_digest (en_sha demo_env) ''default'' ''0.0.0.0:8080'', [5], h) \<in> items (sv_channels sv')) \<and>
   (\<exists>cc' sc'. client_visitor_handshake (en_sha demo_env) demo_bincode [] demo_client_service ''0.0.0.0:80''
       (demo_conn (replicate 32 4 @ wires demo_bincode (visitor_reply VisitorPortDenied [5]))) = (Inl PortNotAllowed, cc') \<and>
     handle_connection demo_env demo_visit [] (demo_conn (wires demo_bincode (demo_visitor_said ''0.0.0.0:80''))) demo_sv =
       Done (Inl PortNotAllowed, sc', demo_sv))"
proof -
  have conn: "inp (demo_conn bs) = bs" "out (demo_conn bs) = []" "room (demo_conn bs) = 1000000" for bs
    by (simp_all add: demo_conn_def)
  have rnd: "replicate 32 4 = rnd_challenge demo_visit" "[5] = rnd_session demo_visit"
    by (simp_all add: demo_visit_def demo_chance_def)
  have fit: "\<forall>m \<in> set (demo_visitor_said b @ visitor_reply a [5]). fits (en_bc demo_env) m"
    "length (wires demo_bincode (demo_visitor_said b)) \<le> 1000"
    "length (replicate 32 (4::u8)) + length (wires demo_bincode (visitor_reply a [5])) \<le> 1000"
    if "b \<in> {''0.0.0.0:8080'', ''0.0.0.0:80''}" for a b
    using that
    by (auto simp: demo_visitor_said_def visitor_reply_def wires_def wire_def frame_def fits_def demo_bincode_def visitor_claim_def
        length_demo_bytes demo_client_fields token_bytes_def utf8_def demo_string_def)
  have run: "\<exists>cc' sc' sv'. client_visitor_handshake (en_sha demo_env) demo_bincode [] demo_client_service b
        (demo_conn (replicate 32 4 @ wires demo_bincode (visitor_reply a [5]))) = (visitor_result a [5], cc') \<and>
      handle_connection demo_env demo_visit [] (demo_conn (wires demo_bincode (demo_visitor_said b))) demo_sv =
        Done (visitor_result a (), sc', sv') \<and>
      (if a = VisitorOk then \<exists>user uc h. (visitor_digest (en_sha demo_env) user b, [5], h) \<in> items (sv_channels sv') \<and>
         (user, uc) \<in> set (sc_users demo_config) else sv' = demo_sv)"
    if b: "b \<in> {''0.0.0.0:8080'', ''0.0.0.0:80''}"
      and ans: "a = visitor_answer demo_env (sv_config demo_sv) (replicate 32 4)
        (visitor_claim demo_env demo_client_service b (replicate 32 4))" for a b
  proof -
    have room: "length (wires (en_bc demo_env) (demo_visitor_said b)) \<le> room (demo_conn x)"
      "length (replicate 32 (4::u8)) + length (wires (en_bc demo_env) (visitor_reply a [5])) \<le> room (demo_conn x)" for x
      using fit(2) [OF b] fit(3) [OF b, of a] conn(3) [of x] unfolding demo_env_simps by linarith+
    have bc: "bincode_ok (en_bc demo_env)" by (simp add: demo_bincode_ok)
    have len: "length (replicate 32 (4::u8)) = HASH_WIDTH_IN_BYTES" by (simp add: HASH_WIDTH_IN_BYTES_def)
    have new: "\<forall>d. \<not> key_taken d [5] demo_sv" using demo_not_taken by blast
    from visitor_handshake_agreement [OF demo_sv_inv demo_env_ok bc rnd len refl ans demo_visitor_said_def fit(1) [OF b]
        conn(1) conn(1) conn(2) conn(2) room new, of "[]" "[]"]
    show ?thesis unfolding demo_env_simps(2) demo_sv_fields(2) append_Nil2
      by (elim exE conjE) (intro exI conjI, assumption, assumption, auto split: if_splits)
  qed
  have users: "(user, uc) \<in> set (sc_users demo_config) \<Longrightarrow> user = ''default''" for user uc
    by (simp add: demo_config_def)
  show ?thesis
    using run [of "''0.0.0.0:8080''" VisitorOk] run [of "''0.0.0.0:80''" VisitorPortDenied] demo_answers users
    by (auto simp: demo_sv_fields(2))
qed

section \<open>Messages over the UDP transport\<close>

text \<open>Reading messages from a stream that breaks off: what arrived whole is read, the rest is an end of file.\<close>

lemma read_messages_cut:
  "bincode_ok bc \<Longrightarrow> \<forall>m \<in> set ms. fits bc m \<Longrightarrow> wires bc ms = inp c @ unsent \<Longrightarrow> n \<le> length ms \<Longrightarrow>
   fst (read_messages bc n c) =
     (if length (wires bc (take n ms)) \<le> length (inp c) then Inr (take n ms) else Inl UnexpectedEof)"
proof (induction n arbitrary: ms c)
  case 0
  then show ?case by (simp add: wires_def io_return_def)
next
  case (Suc n)
  obtain m ms' where ms: "ms = m # ms'" using Suc.prems(4) by (cases ms) auto
  have split: "inp c @ unsent = wire bc m @ wires bc ms'" using Suc.prems(3) ms by (simp add: wires_def)
  show ?case
  proof (cases "length (inp c) < length (wire bc m)")
    case True
    then have "inp c = take (length (inp c)) (wire bc m)"
      using arg_cong [OF split, of "take (length (inp c))"] by simp
    then have "fst (read_packet_message bc c) = Inl UnexpectedEof"
      using truncated_read [of bc m "length (inp c)" c] True Suc.prems(2) ms by simp
    then show ?thesis
      using True ms by (cases "read_packet_message bc c") (auto simp: io_bind_def wires_def)
  next
    case False
    define r where "r = drop (length (wire bc m)) (inp c)"
    have "take (length (wire bc m)) (inp c) = wire bc m" "wires bc ms' = r @ unsent"
      using arg_cong [OF split, of "take (length (wire bc m))"] arg_cong [OF split, of "drop (length (wire bc m))"] False
      by (simp_all add: r_def)
    then have r: "inp c = wire bc m @ r" "wires bc ms' = r @ unsent"
      using append_take_drop_id [of "length (wire bc m)" "inp c"] by (simp_all add: r_def)
    have "read_packet_message bc c = (Inr m, c\<lparr>inp := r\<rparr>)"
      using Suc.prems(1,2) ms r(1) by (intro read_wire) auto
    then have "fst (read_messages bc (Suc n) c) =
        (case fst (read_messages bc n (c\<lparr>inp := r\<rparr>)) of Inl e \<Rightarrow> Inl e | Inr ms'' \<Rightarrow> Inr (m # ms''))"
      by (auto simp: io_bind_def io_return_def split: prod.splits sum.splits)
    also have "fst (read_messages bc n (c\<lparr>inp := r\<rparr>)) =
        (if length (wires bc (take n ms')) \<le> length r then Inr (take n ms') else Inl UnexpectedEof)"
      using Suc.IH [of ms' "c\<lparr>inp := r\<rparr>"] Suc.prems ms r(2) by simp
    finally show ?thesis using ms r(1) by (simp add: wires_def)
  qed
qed

text \<open>
  C11: the messages of the protocol survive the UDP transport. Let one side be on its way through writing a
  sequence of messages to a UDP stream, over a network that loses, repeats, reorders and forges datagrams. In
  every reachable state, reading \<open>n\<close> messages from the bytes the other side has received so far gives the
  first \<open>n\<close> messages of the sequence when they have arrived whole, and an unexpected end of file
  otherwise; never another message.
\<close>

theorem messages_over_udp:
  assumes "reachable enc dec sid s" and "aead_ok enc dec" and "bounded s"
    and "bincode_ok bc" and "\<forall>m \<in> set ms. fits bc m" and "n \<le> length ms"
    and "wires bc ms = concat (ep_hist (ep s x)) @ unwritten" and "inp c = ep_read (ep s (other x))"
  shows "fst (read_messages bc n c) =
    (if length (wires bc (take n ms)) \<le> length (ep_read (ep s (other x))) then Inr (take n ms) else Inl UnexpectedEof)"
proof -
  obtain rest where "concat (ep_hist (ep s x)) = ep_read (ep s (other x)) @ rest"
    using delivered_prefix [OF assms(1-3)] by blast
  then have "wires bc ms = inp c @ rest @ unwritten" using assms(7,8) by simp
  from read_messages_cut [OF assms(4,5) this assms(6)] assms(8) show ?thesis by simp
qed

theorem messages_over_udp_witness:
  "fst (read_messages demo_bincode 1 (demo_conn (ep_read (ep demo_done Far)))) = Inr [MAck AckOk] \<and>
   fst (read_messages demo_bincode 2 (demo_conn (ep_read (ep demo_done Far)))) = Inl UnexpectedEof"
proof -
  let ?ms = "[MAck AckOk, MAck AckOk]"
  have ack: "wire demo_bincode (MAck AckOk) = [0, 0, 0, 2, 4, 0]" by code_simp
  have fit: "\<forall>m \<in> set ?ms. fits demo_bincode m" by (simp add: fits_def demo_bincode_def)
  have "wires demo_bincode ?ms = concat (ep_hist (ep demo_done Near)) @ [0, 0, 0, 2, 4, 0]"
    by (simp add: wires_def ack demo_done_ep)
  note m = messages_over_udp [OF demo_done_reachable demo_aead_ok demo_bounded(2) demo_bincode_ok fit _ this,
      of _ "demo_conn (ep_read (ep demo_done Far))"]
  from m [of 1] m [of 2] show ?thesis by (simp add: demo_conn_def wires_def ack demo_done_ep)
qed

section \<open>The configuration file reaches the server\<close>

text \<open>
  What holds of every version of the file that loads holds of the last one, of the configurations
  the watcher sends and of the origin of the services it adds.
\<close>

definition from_versions :: "(config \<Rightarrow> bool) \<Rightarrow> config_change list \<Rightarrow> bool" where
  "from_versions P sent \<longleftrightarrow>
     (\<forall>c. General c \<in> set sent \<longrightarrow> P c) \<and>
     (\<forall>s. ServerChange (ServerAdd s) \<in> set sent \<longrightarrow>
        (\<exists>c sc k. P c \<and> cfg_server c = Some sc \<and> (k, s) \<in> set (sc_services sc)))"

lemma server_adds_from_new:
  assumes "events_of_role server_config_eq server_config_events old new = Some v" and "ServerChange (ServerAdd s) \<in> set v"
  shows "\<exists>sc k. new = Some sc \<and> (k, s) \<in> set (sc_services sc)"
  using assms by (auto simp: events_of_role_def calculate_instance_config_events_def Let_def
      server_service_delete_change_def server_service_add_change_def split: if_splits option.splits)

lemma events_from_versions:
  assumes "calculate_events old new = Some v" and "P new"
  shows "from_versions P v"
proof -
  consider "v = [General new]" | v1 v2 where "v = v1 @ v2"
      "events_of_role server_config_eq server_config_events (cfg_server old) (cfg_server new) = Some v1"
      "events_of_role client_config_eq client_config_events (cfg_client old) (cfg_client new) = Some v2"
    using assms(1) by (auto simp: calculate_events_def split: if_splits option.splits)
  then show ?thesis
  proof cases
    case 2
    have "ServerChange (ServerAdd s) \<notin> set v2" "General c \<notin> set v1 \<union> set v2" for s c
      using role_events_kind(1) [OF 2(2)] role_events_kind(2) [OF 2(3)]
      by (auto simp: is_server_change_def is_client_change_def)
    with 2(1) server_adds_from_new [OF 2(2)] assms(2) show ?thesis by (fastforce simp: from_versions_def)
  qed (use assms(2) in \<open>simp add: from_versions_def\<close>)
qed

lemma watcher_from_versions:
  "config_watcher toml old contents = (final, sent) \<Longrightarrow> P old \<Longrightarrow>
   (\<And>content c. content \<in> set contents \<Longrightarrow> from_file toml (\<lambda>_. content) '''' = Inr c \<Longrightarrow> P c) \<Longrightarrow>
   P final \<and> from_versions P sent"
proof (induction contents arbitrary: old sent)
  case (Cons content rest)
  obtain old1 sent1 sent2 where t: "watcher_turn toml old content = (old1, sent1)"
    "config_watcher toml old1 rest = (final, sent2)" "sent = sent1 @ sent2"
    using Cons.prems(1) by (auto split: prod.splits)
  have "P old1 \<and> from_versions P sent1"
  proof (cases "from_file toml (\<lambda>_. content) ''''")
    case (Inr new)
    then have "P new" using Cons.prems(3) by auto
    moreover have "from_versions P []" by (simp add: from_versions_def)
    ultimately show ?thesis using t(1) Inr events_from_versions [of old new _ P]
      by (auto simp: watcher_turn_def split: option.splits)
  qed (use t(1) Cons.prems(2) in \<open>auto simp: watcher_turn_def from_versions_def\<close>)
  with Cons.IH [OF t(2)] Cons.prems(3) t(3) show ?case by (fastforce simp: from_versions_def)
qed (simp add: from_versions_def)

lemma fold_server_inv: "hm_inv (sc_services s) \<Longrightarrow> hm_inv (sc_services (fold apply_server_change evs s))"
proof (induction evs arbitrary: s)
  case (Cons e evs)
  have "hm_inv (sc_services (apply_server_change e s))"
    using Cons.prems by (cases "(e, s)" rule: apply_server_change.cases) (auto simp: hmm.invar_ins hmm.invar_rem)
  with Cons.IH show ?case by simp
qed simp

lemma map_of_Some_ext: "(\<And>x y. m x = Some y \<longleftrightarrow> m' x = Some y) \<Longrightarrow> m = m'"
  by (rule ext) (metis option.exhaust)

text \<open>The services of every version of the file that loads, under their names.\<close>

definition version_services :: "(string \<Rightarrow> config option) \<Rightarrow> string option list \<Rightarrow> (string \<times> server_service_config) set" where
  "version_services toml contents =
     {ks. \<exists>content \<in> set contents. \<exists>c sc. from_file toml (\<lambda>_. content) '''' = Inr c \<and> cfg_server c = Some sc \<and>
        ks \<in> set (sc_services sc)}"

definition version_ok :: "(string \<times> server_service_config) set \<Rightarrow> config \<Rightarrow> bool" where
  "version_ok W c \<longleftrightarrow> maps_ok c \<and> (\<forall>s. cfg_server c = Some s \<longrightarrow> set (sc_services s) \<subseteq> W)"

text \<open>The instance that runs after the events of the watcher, and where everything it knows comes from.\<close>

lemma watched_instance:
  assumes toml: "\<And>body c0. toml body = Some c0 \<Longrightarrow> maps_ok c0"
    and "config_watcher_new toml first rest = Inr (final, sent)" and W: "W = version_services toml (first # rest)"
  shows "\<exists>i. run_loop (healthy sent) None = Inr (Some i) \<and> version_ok W (in_config i) \<and> version_ok W final \<and>
    from_versions (version_ok W) sent \<and>
    (\<forall>e \<in> set (in_updates i). e \<in> set sent \<and> (is_server_change e \<or> is_client_change e)) \<and>
    config_eq (fold apply_change (in_updates i) (in_config i)) final"
proof -
  obtain origin sent' where og: "from_file toml (\<lambda>_. first) '''' = Inr origin"
    "config_watcher toml origin rest = (final, sent')" "sent = General origin # sent'"
    using assms(2) by (auto simp: config_watcher_new_def split: sum.splits prod.splits)
  have load: "version_ok W c" if "from_file toml (\<lambda>_. content) '''' = Inr c" "content \<in> set (first # rest)" for content c
    using that from_str_maps_ok toml
    by (fastforce simp: version_ok_def W from_file_def version_services_def split: option.splits)
  have P: "version_ok W origin" using load [OF og(1)] by simp
  have w: "version_ok W final \<and> from_versions (version_ok W) sent'"
    by (rule watcher_from_versions [OF og(2)]) (rule P, rule load, auto)
  then have sent: "from_versions (version_ok W) sent" using P og(3) unfolding from_versions_def by auto
  obtain i where i: "run_loop (healthy sent) None = Inr (Some i)" "General (in_config i) \<in> set sent"
    "\<forall>e \<in> set (in_updates i). e \<in> set sent \<and> (is_server_change e \<or> is_client_change e)"
    "fold apply_change (in_updates i) (in_config i) = fold apply_change sent' origin"
    using healthy_instance [of origin sent'] og(3) by blast
  have "config_eq (fold apply_change (in_updates i) (in_config i)) final"
    using watcher_reach [OF config_eq_refl _ _ toml og(2)] P i(4) by (auto simp: version_ok_def)
  moreover have "version_ok W (in_config i)" using sent i(2) unfolding from_versions_def by blast
  ultimately show ?thesis using i(1,3) w sent by blast
qed

text \<open>A service change of the watcher is one the table of services can follow.\<close>

lemma server_change_follows:
  assumes "digests_ok sha W" and "from_versions (version_ok W) sent" and "e \<in> set sent"
    and "is_server_change e \<or> is_client_change e"
  shows "(\<exists>n. e = ServerChange (ServerDelete n)) \<or> (\<exists>c. e = ServerChange (ServerAdd c) \<and> (ss_name c, c) \<in> W) \<or>
    (\<exists>x. e = ClientChange x)"
proof (cases "\<exists>c. e = ServerChange (ServerAdd c)")
  case True
  then obtain c k where c: "e = ServerChange (ServerAdd c)" "(k, c) \<in> W"
    using assms(2,3) unfolding from_versions_def version_ok_def by blast
  then show ?thesis using digests_okD(1) [OF assms(1)] by auto
next
  case False
  then show ?thesis
    using assms(4) unfolding is_server_change_def is_client_change_def by (metis server_service_change.exhaust)
qed



end
